(* ===== verification/P9_Prelude.thy ===== *)
theory P9_Prelude
  imports Main "HOL-Library.Word"
begin

text \<open>
  What every component of the development shares: bytes and fixed-width integers, the
  little-endian layout that \<^verbatim>\<open>encoding/binary\<close> gives them, Go strings as byte strings,
  the behaviour of \<^verbatim>\<open>io.ReadFull\<close> on a finite stream, and the lemma collections
  that the component proofs use.

  Go's \<open>uint8\<close>, \<open>uint16\<close>, \<open>uint32\<close> and \<open>uint64\<close> are words of that width, so
  that arithmetic wraps as it does in Go.  Go's \<open>int\<close> is 64 bits wide on the supported
  platforms; the values it takes here are lengths, 32-bit sizes and their differences, and
  it is modelled by \<open>int\<close> or, where it cannot be negative, by \<open>nat\<close>.
\<close>

unbundle bit_operations_syntax

named_theorems client_ops \<open>the calls of a client's session\<close>
named_theorems ref_ops \<open>the operations of a file server on one open reference\<close>

type_synonym byte = "8 word"
type_synonym u16 = "16 word"
type_synonym u32 = "32 word"
type_synonym u64 = "64 word"

section \<open>Results\<close>

text \<open>Sequencing of two fallible steps: the first error ends the computation.\<close>

definition bind_result :: "'e + 'a \<Rightarrow> ('a \<Rightarrow> 'e + 'b) \<Rightarrow> 'e + 'b" where
  "bind_result x f = (case x of Inl e \<Rightarrow> Inl e | Inr a \<Rightarrow> f a)"

lemma bind_result_simps [simp]:
  "bind_result (Inl e) f = Inl e"
  "bind_result (Inr a) f = f a"
  by (simp_all add: bind_result_def)

lemma bind_result_eq_Inr:
  "bind_result x f = Inr b \<longleftrightarrow> (\<exists>a. x = Inr a \<and> f a = Inr b)"
  by (cases x) simp_all

lemma bind_result_eq_Inl:
  "bind_result x f = Inl e \<longleftrightarrow> x = Inl e \<or> (\<exists>a. x = Inr a \<and> f a = Inl e)"
  by (cases x) simp_all

lemma bind_result_cong [fundef_cong]:
  "x = x' \<Longrightarrow> (\<And>a. x' = Inr a \<Longrightarrow> f a = g a) \<Longrightarrow> bind_result x f = bind_result x' g"
  by (cases x') simp_all

section \<open>Little-endian integers\<close>

lemma unat_lt2p: "unat (w :: 'a::len word) < 2 ^ LENGTH('a)"
  by (rule unsigned_less)

text \<open>\<open>le n k\<close> is the \<open>n\<close>-byte little-endian image of \<open>k\<close>, \<open>unle\<close> reads one back.\<close>

primrec le :: "nat \<Rightarrow> nat \<Rightarrow> byte list" where
  "le 0 k = []"
| "le (Suc n) k = word_of_nat (k mod 256) # le n (k div 256)"

primrec unle :: "byte list \<Rightarrow> nat" where
  "unle [] = 0"
| "unle (b # bs) = unat b + 256 * unle bs"

lemma length_le [simp]: "length (le n k) = n"
  by (induction n arbitrary: k) simp_all

lemma unat_of_byte: "unat (word_of_nat (k mod 256) :: byte) = k mod 256"
  by (simp add: unat_of_nat)

lemma unle_le: "unle (le n k) = k mod 256 ^ n"
proof (induction n arbitrary: k)
  case 0
  then show ?case by simp
next
  case (Suc n)
  have "k mod (256 * 256 ^ n) = 256 * (k div 256 mod 256 ^ n) + k mod 256"
    by (rule mod_mult2_eq)
  with Suc show ?case by (simp add: unat_of_byte del: unat_of_nat)
qed

lemma unle_bound: "unle bs < 256 ^ length bs"
proof (induction bs)
  case Nil
  then show ?case by simp
next
  case (Cons b bs)
  have "unat b < 256" using unat_lt2p [of b] by simp
  with Cons show ?case by simp
qed

lemma le_unle: "le (length bs) (unle bs) = bs"
proof (induction bs)
  case Nil
  then show ?case by simp
next
  case (Cons b bs)
  have "unat b < 256" using unat_lt2p [of b] by simp
  with Cons show ?case by simp
qed

text \<open>
  \<^verbatim>\<open>binary.Write\<close> and \<^verbatim>\<open>binary.Read\<close> with \<^verbatim>\<open>binary.LittleEndian\<close> on an unsigned
  integer of width \<open>LENGTH('a)\<close>.
\<close>

definition put_le :: "'a::len word \<Rightarrow> byte list" where
  "put_le w = le (LENGTH('a) div 8) (unat w)"

definition get_le :: "byte list \<Rightarrow> 'a::len word" where
  "get_le bs = word_of_nat (unle bs)"

lemma length_put_le [simp]:
  "length (put_le (w8 :: byte)) = 1"
  "length (put_le (w16 :: u16)) = 2"
  "length (put_le (w32 :: u32)) = 4"
  "length (put_le (w64 :: u64)) = 8"
  by (simp_all add: put_le_def)

lemma get_put_le:
  assumes "8 dvd LENGTH('a::len)"
  shows "get_le (put_le w) = (w :: 'a word)"
proof -
  from assms obtain k where k: "LENGTH('a) = 8 * k" by auto
  have "(256::nat) ^ k = 2 ^ LENGTH('a)" by (simp add: k power_mult)
  then have "unat w mod 256 ^ k = unat w" using unat_lt2p [of w] by simp
  with k show ?thesis by (simp add: get_le_def put_le_def unle_le)
qed

lemma get_put_le_u [simp]:
  "get_le (put_le (w8 :: byte)) = w8"
  "get_le (put_le (w16 :: u16)) = w16"
  "get_le (put_le (w32 :: u32)) = w32"
  "get_le (put_le (w64 :: u64)) = w64"
  by (simp_all add: get_put_le)

lemma put_get_le:
  assumes "LENGTH('a::len) = 8 * length bs"
  shows "put_le (get_le bs :: 'a word) = bs"
proof -
  have "(256::nat) ^ length bs = 2 ^ LENGTH('a)" by (simp add: assms power_mult)
  then have "unle bs < 2 ^ LENGTH('a)" using unle_bound [of bs] by simp
  then have "unat (word_of_nat (unle bs) :: 'a word) = unle bs"
    by (simp add: unat_of_nat)
  with assms show ?thesis by (simp add: get_le_def put_le_def le_unle)
qed

lemma put_get_le_u:
  "length bs = 1 \<Longrightarrow> put_le (get_le bs :: byte) = bs"
  "length bs = 2 \<Longrightarrow> put_le (get_le bs :: u16) = bs"
  "length bs = 4 \<Longrightarrow> put_le (get_le bs :: u32) = bs"
  "length bs = 8 \<Longrightarrow> put_le (get_le bs :: u64) = bs"
  by (simp_all add: put_get_le)

lemma unat_word_of_nat_u16: "n < 65536 \<Longrightarrow> unat (word_of_nat n :: u16) = n"
  by (simp add: unat_of_nat)

lemma unat_word_of_nat_u32: "n < 4294967296 \<Longrightarrow> unat (word_of_nat n :: u32) = n"
  by (simp add: unat_of_nat)

lemma unat_u16_bound: "unat (w :: u16) < 65536"
  using unat_lt2p [of w] by simp

lemma unat_u32_bound: "unat (w :: u32) < 4294967296"
  using unat_lt2p [of w] by simp

section \<open>Go strings\<close>

text \<open>
  A Go string is a sequence of bytes.  It is modelled by \<open>string\<close>, whose characters are
  the 256 byte values; \<open>len\<close> is \<open>length\<close>.
\<close>

definition byte_of_char :: "char \<Rightarrow> byte" where
  "byte_of_char c = word_of_nat (of_char c)"

definition char_of_byte :: "byte \<Rightarrow> char" where
  "char_of_byte b = char_of (unat b)"

lemma char_of_byte_of_char [simp]: "char_of_byte (byte_of_char c) = c"
proof -
  have "(of_char c :: nat) < 256" by (rule nat_of_char_less_256)
  then show ?thesis by (simp add: char_of_byte_def byte_of_char_def unat_of_nat)
qed

lemma byte_of_char_of_byte [simp]: "byte_of_char (char_of_byte b) = b"
proof -
  have "unat b < 256" using unat_lt2p [of b] by simp
  then show ?thesis by (simp add: char_of_byte_def byte_of_char_def)
qed

definition bytes_of_string :: "string \<Rightarrow> byte list" where
  "bytes_of_string s = map byte_of_char s"

definition string_of_bytes :: "byte list \<Rightarrow> string" where
  "string_of_bytes bs = map char_of_byte bs"

lemma length_bytes_of_string [simp]: "length (bytes_of_string s) = length s"
  by (simp add: bytes_of_string_def)

lemma length_string_of_bytes [simp]: "length (string_of_bytes bs) = length bs"
  by (simp add: string_of_bytes_def)

lemma string_of_bytes_of_string [simp]: "string_of_bytes (bytes_of_string s) = s"
  by (simp add: string_of_bytes_def bytes_of_string_def comp_def)

lemma bytes_of_string_of_bytes [simp]: "bytes_of_string (string_of_bytes bs) = bs"
  by (simp add: string_of_bytes_def bytes_of_string_def comp_def)

end
