(* ===== verification/P9_Types.thy ===== *)
theory P9_Types
  imports P9_Prelude
begin

text \<open>
  The data of the protocol: the types of \<^verbatim>\<open>types.go\<close>, the message types and the frame of
  \<^verbatim>\<open>fcall.go\<close> and \<^verbatim>\<open>messages.go\<close>, and the error values of \<^verbatim>\<open>errors.go\<close> and
  \<^verbatim>\<open>overflow.go\<close>.  Named integer types (\<open>Tag\<close>, \<open>Fid\<close>, \<open>Flag\<close>, \<open>QType\<close>,
  \<open>FcallType\<close>) are synonyms of the word of their width.
\<close>

section \<open>Identifiers, modes and flags\<close>

type_synonym Tag = u16
type_synonym Fid = u32
type_synonym Flag = byte
type_synonym QType = byte
type_synonym FcallType = byte

definition DefaultMSize :: int where
  "DefaultMSize = 65536"

definition DefaultVersion :: string where
  "DefaultVersion = ''9P2000''"

definition NOTAG :: Tag where
  "NOTAG = NOT 0"

definition NOFID :: Fid where
  "NOFID = NOT 0"

lemma NOTAG_eq: "NOTAG = 65535"
  by (simp add: NOTAG_def)

lemma NOFID_eq: "NOFID = 4294967295"
  by (simp add: NOFID_def)

abbreviation (input) DMDIR :: u32 where "DMDIR \<equiv> 0x80000000"

abbreviation (input) OREAD :: Flag where "OREAD \<equiv> 0x00"
abbreviation (input) OWRITE :: Flag where "OWRITE \<equiv> 0x01"
abbreviation (input) ORDWR :: Flag where "ORDWR \<equiv> 0x02"
abbreviation (input) OEXEC :: Flag where "OEXEC \<equiv> 0x03"
abbreviation (input) OTRUNC :: Flag where "OTRUNC \<equiv> 0x10"

abbreviation (input) QTDIR :: QType where "QTDIR \<equiv> 0x80"
abbreviation (input) QTAPPEND :: QType where "QTAPPEND \<equiv> 0x40"
abbreviation (input) QTEXCL :: QType where "QTEXCL \<equiv> 0x20"
abbreviation (input) QTMOUNT :: QType where "QTMOUNT \<equiv> 0x10"
abbreviation (input) QTAUTH :: QType where "QTAUTH \<equiv> 0x08"
abbreviation (input) QTTMP :: QType where "QTTMP \<equiv> 0x04"
abbreviation (input) QTFILE :: QType where "QTFILE \<equiv> 0x00"

definition QType_String :: "QType \<Rightarrow> string" where
  "QType_String qt =
     (if qt = QTDIR then ''dir''
      else if qt = QTAPPEND then ''append''
      else if qt = QTEXCL then ''excl''
      else if qt = QTMOUNT then ''mount''
      else if qt = QTAUTH then ''auth''
      else if qt = QTTMP then ''tmp''
      else if qt = QTFILE then ''file''
      else ''unknown'')"

section \<open>Times, Qids and directory entries\<close>

text \<open>
  \<^verbatim>\<open>time.Time\<close>: an instant, as the seconds since the Unix epoch (what \<^verbatim>\<open>Unix()\<close> returns)
  and the nanoseconds within the second, and the location it is shown in.  The zero value is
  the first of January of the year 1, UTC.
\<close>

record gotime =
  t_unix :: int
  t_nsec :: nat
  t_loc :: string

definition zero_time :: gotime where
  "zero_time = \<lparr>t_unix = - 62135596800, t_nsec = 0, t_loc = ''UTC''\<rparr>"

text \<open>\<^verbatim>\<open>time.Unix(int64(epoch), 0).UTC()\<close>\<close>

definition time_unix_utc :: "u32 \<Rightarrow> gotime" where
  "time_unix_utc epoch = \<lparr>t_unix = uint epoch, t_nsec = 0, t_loc = ''UTC''\<rparr>"

record Qid =
  q_Type :: QType
  q_Version :: u32
  q_Path :: u64

definition zero_Qid :: Qid where
  "zero_Qid = \<lparr>q_Type = 0, q_Version = 0, q_Path = 0\<rparr>"

record Dir =
  d_Type :: u16
  d_Dev :: u32
  d_Qid :: Qid
  d_Mode :: u32
  d_AccessTime :: gotime
  d_ModTime :: gotime
  d_Length :: u64
  d_Name :: string
  d_UID :: string
  d_GID :: string
  d_MUID :: string

definition zero_Dir :: Dir where
  "zero_Dir =
     \<lparr>d_Type = 0, d_Dev = 0, d_Qid = zero_Qid, d_Mode = 0,
      d_AccessTime = zero_time, d_ModTime = zero_time,
      d_Length = 0, d_Name = [], d_UID = [], d_GID = [], d_MUID = []\<rparr>"

section \<open>Errors\<close>

text \<open>
  The error values of the program.  \<open>Rerr\<close> is a \<^verbatim>\<open>MessageRerror\<close> used as an error,
  \<open>Errorf\<close> an error made by \<^verbatim>\<open>errors.New\<close> or \<^verbatim>\<open>fmt.Errorf\<close>, \<open>CtxErr\<close> what
  \<^verbatim>\<open>ctx.Err()\<close> returns and \<open>NetErr\<close> a \<^verbatim>\<open>net.Error\<close> with the results of its
  \<open>Timeout\<close> and \<open>Temporary\<close> methods.  \<open>Panic\<close> is not a value the program can handle:
  it stands for a run-time panic, with its message.
\<close>

datatype error =
    Rerr string
  | EOF
  | UnexpectedEOF
  | ErrShortWrite
  | ErrClosed
  | OverflowErr int
  | Errorf string
  | CtxErr string
  | NetErr bool bool string
  | Panic string

definition ErrBadattach :: error where "ErrBadattach = Rerr ''unknown specifier in attach''"
definition ErrBadoffset :: error where "ErrBadoffset = Rerr ''bad offset''"
definition ErrBadcount :: error where "ErrBadcount = Rerr ''bad count''"
definition ErrBotch :: error where "ErrBotch = Rerr ''9P protocol botch''"
definition ErrCreatenondir :: error where "ErrCreatenondir = Rerr ''create in non-directory''"
definition ErrDupfid :: error where "ErrDupfid = Rerr ''duplicate fid''"
definition ErrDuptag :: error where "ErrDuptag = Rerr ''duplicate tag''"
definition ErrIsdir :: error where "ErrIsdir = Rerr ''is a directory''"
definition ErrNocreate :: error where "ErrNocreate = Rerr ''create prohibited''"
definition ErrNomem :: error where "ErrNomem = Rerr ''out of memory''"
definition ErrNoremove :: error where "ErrNoremove = Rerr ''remove prohibited''"
definition ErrNostat :: error where "ErrNostat = Rerr ''stat prohibited''"
definition ErrNotfound :: error where "ErrNotfound = Rerr ''file not found''"
definition ErrNoread :: error where "ErrNoread = Rerr ''read prohibited''"
definition ErrNowrite :: error where "ErrNowrite = Rerr ''write prohibited''"
definition ErrNowstat :: error where "ErrNowstat = Rerr ''wstat prohibited''"
definition ErrPerm :: error where "ErrPerm = Rerr ''permission denied''"
definition ErrUnknownfid :: error where "ErrUnknownfid = Rerr ''unknown fid''"
definition ErrBaddir :: error where "ErrBaddir = Rerr ''bad directory in wstat''"
definition ErrWalknodir :: error where "ErrWalknodir = Rerr ''walk in non-directory''"
definition ErrTimeout :: error where "ErrTimeout = Rerr ''fcall timeout''"
definition ErrUnknownTag :: error where "ErrUnknownTag = Rerr ''unknown tag''"
definition ErrUnknownMsg :: error where "ErrUnknownMsg = Rerr ''unknown message''"
definition ErrUnexpectedMsg :: error where "ErrUnexpectedMsg = Rerr ''unexpected message''"
definition ErrWalkLimit :: error where "ErrWalkLimit = Rerr ''too many wnames in walk''"

lemmas error_defs =
  ErrBadattach_def ErrBadoffset_def ErrBadcount_def ErrBotch_def ErrCreatenondir_def ErrDupfid_def
  ErrDuptag_def ErrIsdir_def ErrNocreate_def ErrNomem_def ErrNoremove_def ErrNostat_def
  ErrNotfound_def ErrNoread_def ErrNowrite_def ErrNowstat_def ErrPerm_def ErrUnknownfid_def
  ErrBaddir_def ErrWalknodir_def ErrTimeout_def ErrUnknownTag_def ErrUnknownMsg_def
  ErrUnexpectedMsg_def ErrWalkLimit_def

text \<open>Decimal rendering of a number, as \<^verbatim>\<open>%d\<close> prints it.\<close>

fun utoa :: "nat \<Rightarrow> string" where
  "utoa n =
     (if n < 10 then [char_of (48 + n)] else utoa (n div 10) @ [char_of (48 + n mod 10)])"

declare utoa.simps [simp del]

definition itoa :: "int \<Rightarrow> string" where
  "itoa i = (if i < 0 then CHR ''-'' # utoa (nat (- i)) else utoa (nat i))"

text \<open>The \<^verbatim>\<open>Error()\<close> method.\<close>

fun error_text :: "error \<Rightarrow> string" where
  "error_text (Rerr s) = ''9p: '' @ s"
| "error_text EOF = ''EOF''"
| "error_text UnexpectedEOF = ''unexpected EOF''"
| "error_text ErrShortWrite = ''short write''"
| "error_text ErrClosed = ''closed''"
| "error_text (OverflowErr n) = ''message overflowed '' @ itoa n @ '' bytes''"
| "error_text (Errorf s) = s"
| "error_text (CtxErr s) = s"
| "error_text (NetErr _ _ s) = s"
| "error_text (Panic s) = s"

text \<open>
  \<^verbatim>\<open>Overflow\<close>: the overflow recorded in an error.  None of the error types of the package
  has a \<^verbatim>\<open>Cause\<close> method, so the traversal ends at the error itself.
\<close>

fun Overflow :: "error \<Rightarrow> int" where
  "Overflow (OverflowErr n) = n"
| "Overflow _ = 0"

section \<open>Reading from a stream\<close>

text \<open>
  \<^verbatim>\<open>io.ReadFull\<close> of \<open>n\<close> bytes from a stream whose remaining bytes are \<open>r\<close> and which
  then returns the error \<open>e\<close> (\<open>EOF\<close> for a \<^verbatim>\<open>bytes.Reader\<close>): the bytes read and those
  left, or the error.  An \<open>EOF\<close> after some bytes were read is reported as unexpected.
\<close>

definition ReadFull :: "error \<Rightarrow> nat \<Rightarrow> byte list \<Rightarrow> error + byte list \<times> byte list" where
  "ReadFull e n r =
     (if n \<le> length r then Inr (take n r, drop n r)
      else if r = [] then Inl e
      else Inl (if e = EOF then UnexpectedEOF else e))"

lemma ReadFull_append [simp]: "length b = n \<Longrightarrow> ReadFull e n (b @ r) = Inr (b, r)"
  by (simp add: ReadFull_def)

lemma ReadFull_0 [simp]: "ReadFull e 0 r = Inr ([], r)"
  by (simp add: ReadFull_def)

lemma ReadFull_eq_Inr:
  "ReadFull e n r = Inr (b, r') \<longleftrightarrow> r = b @ r' \<and> length b = n"
  by (auto simp: ReadFull_def min_def)

text \<open>\<^verbatim>\<open>binary.Read\<close> of one little-endian integer from a \<^verbatim>\<open>bytes.Reader\<close>.\<close>

definition read_uint :: "byte list \<Rightarrow> error + 'a::len word \<times> byte list" where
  "read_uint r =
     bind_result (ReadFull EOF (LENGTH('a) div 8) r) (\<lambda>(b, r'). Inr (get_le b, r'))"

lemma read_put_le:
  "8 dvd LENGTH('a::len) \<Longrightarrow> read_uint (put_le (w :: 'a word) @ r) = Inr (w, r)"
  by (simp add: read_uint_def get_put_le put_le_def [of w, symmetric])
     (simp add: put_le_def get_put_le [unfolded put_le_def])

lemma read_put_le_u [simp]:
  "read_uint (put_le (w8 :: byte) @ r) = Inr (w8, r)"
  "read_uint (put_le (w16 :: u16) @ r) = Inr (w16, r)"
  "read_uint (put_le (w32 :: u32) @ r) = Inr (w32, r)"
  "read_uint (put_le (w64 :: u64) @ r) = Inr (w64, r)"
  by (simp_all add: read_put_le)

lemma read_uint_eq_Inr:
  assumes "8 dvd LENGTH('a::len)"
  shows "read_uint r = Inr (w :: 'a word, r') \<longleftrightarrow> r = put_le w @ r'"
proof
  assume "read_uint r = Inr (w, r')"
  then obtain b where b: "r = b @ r'" "length b = LENGTH('a) div 8" "w = get_le b"
    by (auto simp: read_uint_def bind_result_eq_Inr ReadFull_eq_Inr)
  moreover have "put_le w = b"
    unfolding b(3) by (rule put_get_le) (use assms b(2) in simp)
  ultimately show "r = put_le w @ r'" by simp
next
  assume "r = put_le w @ r'"
  then show "read_uint r = Inr (w, r')" by (simp add: read_put_le assms)
qed

lemma read_uint_eq_Inr_u:
  "read_uint r = Inr (w8 :: byte, r') \<longleftrightarrow> r = put_le w8 @ r'"
  "read_uint r = Inr (w16 :: u16, r') \<longleftrightarrow> r = put_le w16 @ r'"
  "read_uint r = Inr (w32 :: u32, r') \<longleftrightarrow> r = put_le w32 @ r'"
  "read_uint r = Inr (w64 :: u64, r') \<longleftrightarrow> r = put_le w64 @ r'"
  by (simp_all add: read_uint_eq_Inr)

section \<open>Messages\<close>

abbreviation (input) Tversion :: FcallType where "Tversion \<equiv> 100"
abbreviation (input) Rversion :: FcallType where "Rversion \<equiv> 101"
abbreviation (input) Tauth :: FcallType where "Tauth \<equiv> 102"
abbreviation (input) Rauth :: FcallType where "Rauth \<equiv> 103"
abbreviation (input) Tattach :: FcallType where "Tattach \<equiv> 104"
abbreviation (input) Rattach :: FcallType where "Rattach \<equiv> 105"
abbreviation (input) Terror :: FcallType where "Terror \<equiv> 106"
abbreviation (input) Rerror :: FcallType where "Rerror \<equiv> 107"
abbreviation (input) Tflush :: FcallType where "Tflush \<equiv> 108"
abbreviation (input) Rflush :: FcallType where "Rflush \<equiv> 109"
abbreviation (input) Twalk :: FcallType where "Twalk \<equiv> 110"
abbreviation (input) Rwalk :: FcallType where "Rwalk \<equiv> 111"
abbreviation (input) Topen :: FcallType where "Topen \<equiv> 112"
abbreviation (input) Ropen :: FcallType where "Ropen \<equiv> 113"
abbreviation (input) Tcreate :: FcallType where "Tcreate \<equiv> 114"
abbreviation (input) Rcreate :: FcallType where "Rcreate \<equiv> 115"
abbreviation (input) Tread :: FcallType where "Tread \<equiv> 116"
abbreviation (input) Rread :: FcallType where "Rread \<equiv> 117"
abbreviation (input) Twrite :: FcallType where "Twrite \<equiv> 118"
abbreviation (input) Rwrite :: FcallType where "Rwrite \<equiv> 119"
abbreviation (input) Tclunk :: FcallType where "Tclunk \<equiv> 120"
abbreviation (input) Rclunk :: FcallType where "Rclunk \<equiv> 121"
abbreviation (input) Tremove :: FcallType where "Tremove \<equiv> 122"
abbreviation (input) Rremove :: FcallType where "Rremove \<equiv> 123"
abbreviation (input) Tstat :: FcallType where "Tstat \<equiv> 124"
abbreviation (input) Rstat :: FcallType where "Rstat \<equiv> 125"
abbreviation (input) Twstat :: FcallType where "Twstat \<equiv> 126"
abbreviation (input) Rwstat :: FcallType where "Rwstat \<equiv> 127"

text \<open>
  The message structs; the arguments of a constructor are the fields of the struct, in
  order.  A \<open>[]byte\<close>, \<open>[]string\<close> or \<open>[]Qid\<close> field is a list: the model does not
  distinguish a nil slice from an empty one, which no operation of the package does either.
\<close>

datatype Message =
    MessageTversion u32 string
  | MessageRversion u32 string
  | MessageTauth Fid string string
  | MessageRauth Qid
  | MessageTflush Tag
  | MessageRflush
  | MessageTattach Fid Fid string string
  | MessageRattach Qid
  | MessageTwalk Fid Fid "string list"
  | MessageRwalk "Qid list"
  | MessageTopen Fid Flag
  | MessageRopen Qid u32
  | MessageTcreate Fid string u32 Flag
  | MessageRcreate Qid u32
  | MessageTread Fid u64 u32
  | MessageRread "byte list"
  | MessageTwrite Fid u64 "byte list"
  | MessageRwrite u32
  | MessageTclunk Fid
  | MessageRclunk
  | MessageTremove Fid
  | MessageRremove
  | MessageTstat Fid
  | MessageRstat Dir
  | MessageTwstat Fid Dir
  | MessageRwstat
  | MessageRerror string

text \<open>The \<^verbatim>\<open>Type()\<close> methods.\<close>

fun message_type :: "Message \<Rightarrow> FcallType" where
  "message_type (MessageTversion _ _) = Tversion"
| "message_type (MessageRversion _ _) = Rversion"
| "message_type (MessageTauth _ _ _) = Tauth"
| "message_type (MessageRauth _) = Rauth"
| "message_type (MessageTflush _) = Tflush"
| "message_type MessageRflush = Rflush"
| "message_type (MessageTattach _ _ _ _) = Tattach"
| "message_type (MessageRattach _) = Rattach"
| "message_type (MessageTwalk _ _ _) = Twalk"
| "message_type (MessageRwalk _) = Rwalk"
| "message_type (MessageTopen _ _) = Topen"
| "message_type (MessageRopen _ _) = Ropen"
| "message_type (MessageTcreate _ _ _ _) = Tcreate"
| "message_type (MessageRcreate _ _) = Rcreate"
| "message_type (MessageTread _ _ _) = Tread"
| "message_type (MessageRread _) = Rread"
| "message_type (MessageTwrite _ _ _) = Twrite"
| "message_type (MessageRwrite _) = Rwrite"
| "message_type (MessageTclunk _) = Tclunk"
| "message_type MessageRclunk = Rclunk"
| "message_type (MessageTremove _) = Tremove"
| "message_type MessageRremove = Rremove"
| "message_type (MessageTstat _) = Tstat"
| "message_type (MessageRstat _) = Rstat"
| "message_type (MessageTwstat _ _) = Twstat"
| "message_type MessageRwstat = Rwstat"
| "message_type (MessageRerror _) = Rerror"

text \<open>\<^verbatim>\<open>newMessage\<close>: a zero message of the type on the wire.\<close>

definition newMessage :: "FcallType \<Rightarrow> error + Message" where
  "newMessage typ =
     (if typ = Tversion then Inr (MessageTversion 0 [])
      else if typ = Rversion then Inr (MessageRversion 0 [])
      else if typ = Tauth then Inr (MessageTauth 0 [] [])
      else if typ = Rauth then Inr (MessageRauth zero_Qid)
      else if typ = Tattach then Inr (MessageTattach 0 0 [] [])
      else if typ = Rattach then Inr (MessageRattach zero_Qid)
      else if typ = Rerror then Inr (MessageRerror [])
      else if typ = Tflush then Inr (MessageTflush 0)
      else if typ = Rflush then Inr MessageRflush
      else if typ = Twalk then Inr (MessageTwalk 0 0 [])
      else if typ = Rwalk then Inr (MessageRwalk [])
      else if typ = Topen then Inr (MessageTopen 0 0)
      else if typ = Ropen then Inr (MessageRopen zero_Qid 0)
      else if typ = Tcreate then Inr (MessageTcreate 0 [] 0 0)
      else if typ = Rcreate then Inr (MessageRcreate zero_Qid 0)
      else if typ = Tread then Inr (MessageTread 0 0 0)
      else if typ = Rread then Inr (MessageRread [])
      else if typ = Twrite then Inr (MessageTwrite 0 0 [])
      else if typ = Rwrite then Inr (MessageRwrite 0)
      else if typ = Tclunk then Inr (MessageTclunk 0)
      else if typ = Rclunk then Inr MessageRclunk
      else if typ = Tremove then Inr (MessageTremove 0)
      else if typ = Rremove then Inr MessageRremove
      else if typ = Tstat then Inr (MessageTstat 0)
      else if typ = Rstat then Inr (MessageRstat zero_Dir)
      else if typ = Twstat then Inr (MessageTwstat 0 zero_Dir)
      else if typ = Rwstat then Inr MessageRwstat
      else Inl (Errorf ''unknown message type''))"

section \<open>Frames\<close>

text \<open>
  \<^verbatim>\<open>Fcall\<close>: the \<open>Message\<close> field is an interface value, \<open>None\<close> when it is nil.  The
  package only ever stores message structs by value there.
\<close>

record Fcall =
  fc_Type :: FcallType
  fc_Tag :: Tag
  fc_Message :: "Message option"

definition zero_Fcall :: Fcall where
  "zero_Fcall = \<lparr>fc_Type = 0, fc_Tag = 0, fc_Message = None\<rparr>"

definition newFcall :: "Tag \<Rightarrow> Message \<Rightarrow> Fcall" where
  "newFcall tag msg = \<lparr>fc_Type = message_type msg, fc_Tag = tag, fc_Message = Some msg\<rparr>"

fun newErrorFcall :: "Tag \<Rightarrow> error \<Rightarrow> Fcall" where
  "newErrorFcall tag (Rerr s) =
     \<lparr>fc_Type = Rerror, fc_Tag = tag, fc_Message = Some (MessageRerror s)\<rparr>"
| "newErrorFcall tag e =
     \<lparr>fc_Type = Rerror, fc_Tag = tag, fc_Message = Some (MessageRerror (error_text e))\<rparr>"

definition FcallType_String :: "FcallType \<Rightarrow> string" where
  "FcallType_String fct =
     (if fct = Tversion then ''Tversion''
      else if fct = Rversion then ''Rversion''
      else if fct = Tauth then ''Tauth''
      else if fct = Rauth then ''Rauth''
      else if fct = Tattach then ''Tattach''
      else if fct = Rattach then ''Rattach''
      else if fct = Terror then ''Terror''
      else if fct = Rerror then ''Rerror''
      else if fct = Tflush then ''Tflush''
      else if fct = Rflush then ''Rflush''
      else if fct = Twalk then ''Twalk''
      else if fct = Rwalk then ''Rwalk''
      else if fct = Topen then ''Topen''
      else if fct = Ropen then ''Ropen''
      else if fct = Tcreate then ''Tcreate''
      else if fct = Rcreate then ''Rcreate''
      else if fct = Tread then ''Tread''
      else if fct = Rread then ''Rread''
      else if fct = Twrite then ''Twrite''
      else if fct = Rwrite then ''Rwrite''
      else if fct = Tclunk then ''Tclunk''
      else if fct = Rclunk then ''Rclunk''
      else if fct = Tremove then ''Tremove''
      else if fct = Rremove then ''Rremove''
      else if fct = Tstat then ''Tstat''
      else if fct = Rstat then ''Rstat''
      else if fct = Twstat then ''Twstat''
      else if fct = Rwstat then ''Rwstat''
      else ''Tunknown'')"

lemma newErrorFcall_frame:
  "\<exists>s. newErrorFcall tag e = newFcall tag (MessageRerror s)"
  by (cases e) (auto simp: newFcall_def)

lemma newFcall_simps [simp]:
  "fc_Type (newFcall tag msg) = message_type msg"
  "fc_Tag (newFcall tag msg) = tag"
  "fc_Message (newFcall tag msg) = Some msg"
  by (simp_all add: newFcall_def)

text \<open>\<open>newMessage\<close> and \<open>Type()\<close> agree: a fresh message has the type that was asked for.\<close>

lemma newMessage_type: "newMessage typ = Inr m \<Longrightarrow> message_type m = typ"
  by (auto simp: newMessage_def split: if_splits)

lemma newMessage_total: "\<exists>m0. newMessage (message_type m) = Inr m0"
  by (cases m) (simp_all add: newMessage_def)

end
