(* ===== verification/P9_Wire.thy ===== *)
theory P9_Wire
  imports P9_Types
begin

text \<open>
  The 9P2000 wire format, as an abstract specification: for each type of value the bytes
  that stand for it, written down type by type as section 5 of the Plan 9 manual lays them
  out, and the values that the format can carry.  The reflective codec of
  \<^verbatim>\<open>encoding.go\<close> is proved to implement it in the theory of the codec.
\<close>

section \<open>Layout\<close>

definition w_string :: "string \<Rightarrow> byte list" where
  "w_string s = put_le (word_of_nat (length s) :: u16) @ bytes_of_string s"

definition w_bytes :: "byte list \<Rightarrow> byte list" where
  "w_bytes b = put_le (word_of_nat (length b) :: u32) @ b"

definition w_strings :: "string list \<Rightarrow> byte list" where
  "w_strings ss = put_le (word_of_nat (length ss) :: u16) @ concat (map w_string ss)"

definition w_time :: "gotime \<Rightarrow> byte list" where
  "w_time t = put_le (word_of_int (t_unix t) :: u32)"

definition w_qid :: "Qid \<Rightarrow> byte list" where
  "w_qid q = put_le (q_Type q) @ put_le (q_Version q) @ put_le (q_Path q)"

definition w_qids :: "Qid list \<Rightarrow> byte list" where
  "w_qids qs = put_le (word_of_nat (length qs) :: u16) @ concat (map w_qid qs)"

text \<open>\<open>stat[n]\<close>: the fields of a directory entry, and the entry with its size in front.\<close>

definition w_dir_body :: "Dir \<Rightarrow> byte list" where
  "w_dir_body d =
     put_le (d_Type d) @ put_le (d_Dev d) @ w_qid (d_Qid d) @ put_le (d_Mode d) @
     w_time (d_AccessTime d) @ w_time (d_ModTime d) @ put_le (d_Length d) @
     w_string (d_Name d) @ w_string (d_UID d) @ w_string (d_GID d) @ w_string (d_MUID d)"

definition w_dir :: "Dir \<Rightarrow> byte list" where
  "w_dir d = put_le (word_of_nat (length (w_dir_body d)) :: u16) @ w_dir_body d"

fun w_message :: "Message \<Rightarrow> byte list" where
  "w_message (MessageTversion msize v) = put_le msize @ w_string v"
| "w_message (MessageRversion msize v) = put_le msize @ w_string v"
| "w_message (MessageTauth afid uname aname) = put_le afid @ w_string uname @ w_string aname"
| "w_message (MessageRauth q) = w_qid q"
| "w_message (MessageTflush oldtag) = put_le oldtag"
| "w_message MessageRflush = []"
| "w_message (MessageTattach fid afid uname aname) =
     put_le fid @ put_le afid @ w_string uname @ w_string aname"
| "w_message (MessageRattach q) = w_qid q"
| "w_message (MessageTwalk fid newfid wnames) = put_le fid @ put_le newfid @ w_strings wnames"
| "w_message (MessageRwalk qs) = w_qids qs"
| "w_message (MessageTopen fid mode) = put_le fid @ put_le mode"
| "w_message (MessageRopen q iounit) = w_qid q @ put_le iounit"
| "w_message (MessageTcreate fid name perm mode) =
     put_le fid @ w_string name @ put_le perm @ put_le mode"
| "w_message (MessageRcreate q iounit) = w_qid q @ put_le iounit"
| "w_message (MessageTread fid offset count) = put_le fid @ put_le offset @ put_le count"
| "w_message (MessageRread data) = w_bytes data"
| "w_message (MessageTwrite fid offset data) = put_le fid @ put_le offset @ w_bytes data"
| "w_message (MessageRwrite count) = put_le count"
| "w_message (MessageTclunk fid) = put_le fid"
| "w_message MessageRclunk = []"
| "w_message (MessageTremove fid) = put_le fid"
| "w_message MessageRremove = []"
| "w_message (MessageTstat fid) = put_le fid"
| "w_message (MessageRstat d) = put_le (word_of_nat (length (w_dir d)) :: u16) @ w_dir d"
| "w_message (MessageTwstat fid d) =
     put_le fid @ put_le (word_of_nat (length (w_dir d)) :: u16) @ w_dir d"
| "w_message MessageRwstat = []"
| "w_message (MessageRerror ename) = w_string ename"

definition w_fcall :: "Fcall \<Rightarrow> byte list" where
  "w_fcall f =
     put_le (fc_Type f) @ put_le (fc_Tag f) @
     (case fc_Message f of None \<Rightarrow> [] | Some m \<Rightarrow> w_message m)"

section \<open>Sizes\<close>

lemma length_w [simp]:
  "length (w_string s) = 2 + length s"
  "length (w_bytes b) = 4 + length b"
  "length (w_time t) = 4"
  "length (w_qid q) = 13"
  "length (w_dir d) = 2 + length (w_dir_body d)"
  by (simp_all add: w_string_def w_bytes_def w_time_def w_qid_def w_dir_def)

lemma length_w_dir_body:
  "length (w_dir_body d) =
     47 + length (d_Name d) + length (d_UID d) + length (d_GID d) + length (d_MUID d)"
  by (simp add: w_dir_body_def)

section \<open>Values the format can carry\<close>

text \<open>
  Counts and strings have 16-bit length prefixes, byte strings 32-bit ones, a directory entry
  has a 16-bit size (and a second one, of the entry with its size, in the two stat messages),
  and times are unsigned 32-bit seconds in UTC.
\<close>

definition wf_string :: "string \<Rightarrow> bool" where
  "wf_string s \<longleftrightarrow> length s < 65536"

definition wf_time :: "gotime \<Rightarrow> bool" where
  "wf_time t \<longleftrightarrow> 0 \<le> t_unix t \<and> t_unix t < 4294967296 \<and> t_nsec t = 0 \<and> t_loc t = ''UTC''"

definition wf_dir :: "Dir \<Rightarrow> bool" where
  "wf_dir d \<longleftrightarrow>
     wf_time (d_AccessTime d) \<and> wf_time (d_ModTime d) \<and> length (w_dir_body d) < 65536"

fun wf_message :: "Message \<Rightarrow> bool" where
  "wf_message (MessageTversion _ v) = wf_string v"
| "wf_message (MessageRversion _ v) = wf_string v"
| "wf_message (MessageTauth _ uname aname) = (wf_string uname \<and> wf_string aname)"
| "wf_message (MessageTattach _ _ uname aname) = (wf_string uname \<and> wf_string aname)"
| "wf_message (MessageTwalk _ _ wnames) = (length wnames < 65536 \<and> list_all wf_string wnames)"
| "wf_message (MessageRwalk qs) = (length qs < 65536)"
| "wf_message (MessageTcreate _ name _ _) = wf_string name"
| "wf_message (MessageRread data) = (length data < 4294967296)"
| "wf_message (MessageTwrite _ _ data) = (length data < 4294967296)"
| "wf_message (MessageRstat d) = wf_dir d"
| "wf_message (MessageTwstat _ d) = wf_dir d"
| "wf_message (MessageRerror ename) = wf_string ename"
| "wf_message _ = True"

text \<open>A frame is well formed when its type byte is the type of its message.\<close>

definition wf_fcall :: "Fcall \<Rightarrow> bool" where
  "wf_fcall f \<longleftrightarrow>
     (case fc_Message f of
        None \<Rightarrow> False
      | Some m \<Rightarrow> fc_Type f = message_type m \<and> wf_message m)"

lemma wf_newFcall [simp]: "wf_fcall (newFcall tag m) = wf_message m"
  by (simp add: wf_fcall_def newFcall_def)

lemma wf_fcallE:
  assumes "wf_fcall f"
  obtains m where "f = newFcall (fc_Tag f) m" and "wf_message m"
  using assms by (cases f) (auto simp: wf_fcall_def newFcall_def split: option.splits)

lemma w_newFcall: "w_fcall (newFcall tag m) = put_le (message_type m) @ put_le tag @ w_message m"
  by (simp add: w_fcall_def)

lemma wf_time_unix_utc: "wf_time (time_unix_utc e)"
  using uint_lt2p [of e] by (simp add: wf_time_def time_unix_utc_def)

lemma time_unix_utc_wf: "wf_time t \<Longrightarrow> time_unix_utc (word_of_int (t_unix t)) = t"
  by (cases t) (simp add: wf_time_def time_unix_utc_def uint_word_of_int)

lemma w_time_unix_utc [simp]: "w_time (time_unix_utc e) = put_le e"
  by (simp add: w_time_def time_unix_utc_def)

end
