(* ===== verification/P9_Codec.thy ===== *)
theory P9_Codec
  imports P9_Wire
begin

text \<open>
  The codec of \<^verbatim>\<open>encoding.go\<close>.  The arguments of \<open>encode\<close>, \<open>decode\<close> and
  \<open>size9p\<close> are interface values, on which the code switches by type: they are the
  datatype \<open>gval\<close>, with one constructor per case of the switches, \<open>VPtr\<close> for a pointer
  to a value, \<open>VNil\<close> for the nil interface and \<open>VOther\<close> for a value of a type that no
  case names.  \<open>encode\<close> writes to a \<^verbatim>\<open>bytes.Buffer\<close>, whose writes do not fail, and
  returns the bytes; \<open>decode\<close> reads from a \<^verbatim>\<open>bytes.Reader\<close>, modelled by the bytes that are
  left, and returns its targets with what was stored in them.
\<close>

section \<open>Values\<close>

datatype gval =
    VU8 byte
  | VU16 u16
  | VU32 u32
  | VU64 u64
  | VBytes "byte list"
  | VString string
  | VStrings "string list"
  | VTime gotime
  | VQid Qid
  | VQids "Qid list"
  | VDir Dir
  | VDirs "Dir list"
  | VFcall Fcall
  | VMessage Message
  | VPtr gval
  | VNil
  | VOther

text \<open>The exported fields of the structs, in declaration order.\<close>

fun message_fields :: "Message \<Rightarrow> gval list" where
  "message_fields (MessageTversion msize v) = [VU32 msize, VString v]"
| "message_fields (MessageRversion msize v) = [VU32 msize, VString v]"
| "message_fields (MessageTauth afid uname aname) = [VU32 afid, VString uname, VString aname]"
| "message_fields (MessageRauth q) = [VQid q]"
| "message_fields (MessageTflush oldtag) = [VU16 oldtag]"
| "message_fields MessageRflush = []"
| "message_fields (MessageTattach fid afid uname aname) =
     [VU32 fid, VU32 afid, VString uname, VString aname]"
| "message_fields (MessageRattach q) = [VQid q]"
| "message_fields (MessageTwalk fid newfid wnames) = [VU32 fid, VU32 newfid, VStrings wnames]"
| "message_fields (MessageRwalk qs) = [VQids qs]"
| "message_fields (MessageTopen fid mode) = [VU32 fid, VU8 mode]"
| "message_fields (MessageRopen q iounit) = [VQid q, VU32 iounit]"
| "message_fields (MessageTcreate fid name perm mode) =
     [VU32 fid, VString name, VU32 perm, VU8 mode]"
| "message_fields (MessageRcreate q iounit) = [VQid q, VU32 iounit]"
| "message_fields (MessageTread fid offset count) = [VU32 fid, VU64 offset, VU32 count]"
| "message_fields (MessageRread data) = [VBytes data]"
| "message_fields (MessageTwrite fid offset data) = [VU32 fid, VU64 offset, VBytes data]"
| "message_fields (MessageRwrite count) = [VU32 count]"
| "message_fields (MessageTclunk fid) = [VU32 fid]"
| "message_fields MessageRclunk = []"
| "message_fields (MessageTremove fid) = [VU32 fid]"
| "message_fields MessageRremove = []"
| "message_fields (MessageTstat fid) = [VU32 fid]"
| "message_fields (MessageRstat d) = [VDir d]"
| "message_fields (MessageTwstat fid d) = [VU32 fid, VDir d]"
| "message_fields MessageRwstat = []"
| "message_fields (MessageRerror ename) = [VString ename]"

definition dir_fields :: "Dir \<Rightarrow> gval list" where
  "dir_fields d =
     [VU16 (d_Type d), VU32 (d_Dev d), VQid (d_Qid d), VU32 (d_Mode d),
      VTime (d_AccessTime d), VTime (d_ModTime d), VU64 (d_Length d),
      VString (d_Name d), VString (d_UID d), VString (d_GID d), VString (d_MUID d)]"

text \<open>
  \<open>fields9p\<close> lists the fields of a struct by reflection.  The fields of a struct behind a
  pointer are addressable and are listed as pointers, those of a struct value are listed as
  values.
\<close>

fun fields9p :: "gval \<Rightarrow> error + gval list" where
  "fields9p (VMessage m) = Inr (message_fields m)"
| "fields9p (VPtr (VMessage m)) = Inr (map VPtr (message_fields m))"
| "fields9p (VDir d) = Inr (dir_fields d)"
| "fields9p (VPtr (VDir d)) = Inr (map VPtr (dir_fields d))"
| "fields9p _ = Inl (Errorf ''cannot extract fields from non-struct'')"

text \<open>
  What a decoder has stored through a pointer of each type, and through the field pointers of
  a struct: the decoder returns one target per field pointer it was given.
\<close>

fun u8_at :: "gval \<Rightarrow> byte" where
  "u8_at (VPtr v) = (case v of VU8 w \<Rightarrow> w | _ \<Rightarrow> 0)"
| "u8_at _ = 0"

fun u16_at :: "gval \<Rightarrow> u16" where
  "u16_at (VPtr v) = (case v of VU16 w \<Rightarrow> w | _ \<Rightarrow> 0)"
| "u16_at _ = 0"

fun u32_at :: "gval \<Rightarrow> u32" where
  "u32_at (VPtr v) = (case v of VU32 w \<Rightarrow> w | _ \<Rightarrow> 0)"
| "u32_at _ = 0"

fun u64_at :: "gval \<Rightarrow> u64" where
  "u64_at (VPtr v) = (case v of VU64 w \<Rightarrow> w | _ \<Rightarrow> 0)"
| "u64_at _ = 0"

fun bytes_at :: "gval \<Rightarrow> byte list" where
  "bytes_at (VPtr v) = (case v of VBytes b \<Rightarrow> b | _ \<Rightarrow> [])"
| "bytes_at _ = []"

fun string_at :: "gval \<Rightarrow> string" where
  "string_at (VPtr v) = (case v of VString s \<Rightarrow> s | _ \<Rightarrow> [])"
| "string_at _ = []"

fun strings_at :: "gval \<Rightarrow> string list" where
  "strings_at (VPtr v) = (case v of VStrings ss \<Rightarrow> ss | _ \<Rightarrow> [])"
| "strings_at _ = []"

fun time_at :: "gval \<Rightarrow> gotime" where
  "time_at (VPtr v) = (case v of VTime t \<Rightarrow> t | _ \<Rightarrow> zero_time)"
| "time_at _ = zero_time"

fun qid_at :: "gval \<Rightarrow> Qid" where
  "qid_at (VPtr v) = (case v of VQid q \<Rightarrow> q | _ \<Rightarrow> zero_Qid)"
| "qid_at _ = zero_Qid"

fun qids_at :: "gval \<Rightarrow> Qid list" where
  "qids_at (VPtr v) = (case v of VQids qs \<Rightarrow> qs | _ \<Rightarrow> [])"
| "qids_at _ = []"

fun dir_at :: "gval \<Rightarrow> Dir" where
  "dir_at (VPtr v) = (case v of VDir d \<Rightarrow> d | _ \<Rightarrow> zero_Dir)"
| "dir_at _ = zero_Dir"

fun message_at :: "gval \<Rightarrow> Message option" where
  "message_at (VPtr v) = (case v of VMessage m \<Rightarrow> Some m | _ \<Rightarrow> None)"
| "message_at _ = None"

fun set_fields :: "Message \<Rightarrow> gval list \<Rightarrow> Message" where
  "set_fields (MessageTversion _ _) es = MessageTversion (u32_at (es ! 0)) (string_at (es ! 1))"
| "set_fields (MessageRversion _ _) es = MessageRversion (u32_at (es ! 0)) (string_at (es ! 1))"
| "set_fields (MessageTauth _ _ _) es =
     MessageTauth (u32_at (es ! 0)) (string_at (es ! 1)) (string_at (es ! 2))"
| "set_fields (MessageRauth _) es = MessageRauth (qid_at (es ! 0))"
| "set_fields (MessageTflush _) es = MessageTflush (u16_at (es ! 0))"
| "set_fields MessageRflush es = MessageRflush"
| "set_fields (MessageTattach _ _ _ _) es =
     MessageTattach (u32_at (es ! 0)) (u32_at (es ! 1)) (string_at (es ! 2)) (string_at (es ! 3))"
| "set_fields (MessageRattach _) es = MessageRattach (qid_at (es ! 0))"
| "set_fields (MessageTwalk _ _ _) es =
     MessageTwalk (u32_at (es ! 0)) (u32_at (es ! 1)) (strings_at (es ! 2))"
| "set_fields (MessageRwalk _) es = MessageRwalk (qids_at (es ! 0))"
| "set_fields (MessageTopen _ _) es = MessageTopen (u32_at (es ! 0)) (u8_at (es ! 1))"
| "set_fields (MessageRopen _ _) es = MessageRopen (qid_at (es ! 0)) (u32_at (es ! 1))"
| "set_fields (MessageTcreate _ _ _ _) es =
     MessageTcreate (u32_at (es ! 0)) (string_at (es ! 1)) (u32_at (es ! 2)) (u8_at (es ! 3))"
| "set_fields (MessageRcreate _ _) es = MessageRcreate (qid_at (es ! 0)) (u32_at (es ! 1))"
| "set_fields (MessageTread _ _ _) es =
     MessageTread (u32_at (es ! 0)) (u64_at (es ! 1)) (u32_at (es ! 2))"
| "set_fields (MessageRread _) es = MessageRread (bytes_at (es ! 0))"
| "set_fields (MessageTwrite _ _ _) es =
     MessageTwrite (u32_at (es ! 0)) (u64_at (es ! 1)) (bytes_at (es ! 2))"
| "set_fields (MessageRwrite _) es = MessageRwrite (u32_at (es ! 0))"
| "set_fields (MessageTclunk _) es = MessageTclunk (u32_at (es ! 0))"
| "set_fields MessageRclunk es = MessageRclunk"
| "set_fields (MessageTremove _) es = MessageTremove (u32_at (es ! 0))"
| "set_fields MessageRremove es = MessageRremove"
| "set_fields (MessageTstat _) es = MessageTstat (u32_at (es ! 0))"
| "set_fields (MessageRstat _) es = MessageRstat (dir_at (es ! 0))"
| "set_fields (MessageTwstat _ _) es = MessageTwstat (u32_at (es ! 0)) (dir_at (es ! 1))"
| "set_fields MessageRwstat es = MessageRwstat"
| "set_fields (MessageRerror _) es = MessageRerror (string_at (es ! 0))"

definition set_dir_fields :: "gval list \<Rightarrow> Dir" where
  "set_dir_fields es =
     \<lparr>d_Type = u16_at (es ! 0), d_Dev = u32_at (es ! 1), d_Qid = qid_at (es ! 2),
      d_Mode = u32_at (es ! 3), d_AccessTime = time_at (es ! 4), d_ModTime = time_at (es ! 5),
      d_Length = u64_at (es ! 6), d_Name = string_at (es ! 7), d_UID = string_at (es ! 8),
      d_GID = string_at (es ! 9), d_MUID = string_at (es ! 10)\<rparr>"

text \<open>
  The nesting depth of a value: the recursion of the codec goes from a value to the values it
  is made of, whose rank is smaller.
\<close>

fun rank :: "gval \<Rightarrow> nat" where
  "rank (VU8 _) = 0"
| "rank (VU16 _) = 0"
| "rank (VU32 _) = 0"
| "rank (VU64 _) = 0"
| "rank (VBytes _) = 1"
| "rank (VString _) = 1"
| "rank (VStrings _) = 2"
| "rank (VTime _) = 1"
| "rank (VQid _) = 1"
| "rank (VQids _) = 3"
| "rank (VDir _) = 2"
| "rank (VDirs _) = 4"
| "rank (VMessage _) = 5"
| "rank (VFcall _) = 6"
| "rank (VPtr v) = Suc (rank v)"
| "rank VNil = 0"
| "rank VOther = 0"

primrec max_rank :: "gval list \<Rightarrow> nat" where
  "max_rank [] = 0"
| "max_rank (v # vs) = max (rank v) (max_rank vs)"

lemma max_rank_map: "(\<And>x. rank (f x) < n) \<Longrightarrow> 0 < n \<Longrightarrow> max_rank (map f xs) < n"
  by (induction xs) auto

lemma max_rank_replicate: "rank v < n \<Longrightarrow> 0 < n \<Longrightarrow> max_rank (replicate k v) < n"
  by (induction k) auto

lemma message_fields_rank:
  "max_rank (message_fields m) < 5"
  "max_rank (map VPtr (message_fields m)) < 6"
  by (cases m; simp)+

lemma dir_fields_rank:
  "max_rank (dir_fields d) < 2"
  "max_rank (map VPtr (dir_fields d)) < 3"
  by (simp_all add: dir_fields_def)

lemma fields9p_rank: "fields9p v = Inr els \<Longrightarrow> max_rank els < rank v"
  by (induction v rule: fields9p.induct) (auto simp: message_fields_rank dir_fields_rank)

lemmas rank_bounds = max_rank_map max_rank_replicate message_fields_rank dir_fields_rank

section \<open>size9p\<close>

text \<open>
  The size is accumulated in a \<open>uint32\<close>.  \<open>fields9p\<close> does not fail on a struct, so the
  code's \<open>panic\<close> in the struct cases is not reached.
\<close>

function (sequential) size1 :: "gval \<Rightarrow> u32" and size9p :: "gval list \<Rightarrow> u32" where
  "size9p [] = 0"
| "size9p (v # vs) = size1 v + size9p vs"
| "size1 VNil = 0"
| "size1 (VU8 _) = 1"
| "size1 (VU16 _) = 2"
| "size1 (VU32 _) = 4"
| "size1 (VU64 _) = 8"
| "size1 (VPtr (VU8 _)) = 1"
| "size1 (VPtr (VU16 _)) = 2"
| "size1 (VPtr (VU32 _)) = 4"
| "size1 (VPtr (VU64 _)) = 8"
| "size1 (VBytes b) = word_of_nat (4 + length b)"
| "size1 (VPtr (VBytes b)) = size9p [VU32 0, VBytes b]"
| "size1 (VString s) = word_of_nat (2 + length s)"
| "size1 (VPtr (VString s)) = size9p [VString s]"
| "size1 (VStrings ss) = size9p [VU16 0] + size9p (map VString ss)"
| "size1 (VPtr (VStrings ss)) = size9p [VStrings ss]"
| "size1 (VTime _) = size9p [VU32 0]"
| "size1 (VPtr (VTime _)) = size9p [VU32 0]"
| "size1 (VQid q) = size9p [VU8 (q_Type q), VU32 (q_Version q), VU64 (q_Path q)]"
| "size1 (VPtr (VQid q)) = size9p [VQid q]"
| "size1 (VQids qs) = size9p [VU16 0] + size9p (map (\<lambda>q. VPtr (VQid q)) qs)"
| "size1 (VPtr (VQids qs)) = size9p [VQids qs]"
| "size1 (VDir d) =
     (case fields9p (VDir d) of
        Inl _ \<Rightarrow> 0
      | Inr elements \<Rightarrow> size9p elements + size9p [VU16 0])"
| "size1 (VPtr (VDir d)) = size9p [VDir d]"
| "size1 (VDirs ds) = size9p (map (\<lambda>d. VPtr (VDir d)) ds)"
| "size1 (VPtr (VDirs ds)) = size9p [VDirs ds]"
| "size1 (VFcall f) =
     size9p [VU8 (fc_Type f), VU16 (fc_Tag f),
             (case fc_Message f of None \<Rightarrow> VNil | Some m \<Rightarrow> VMessage m)]"
| "size1 (VPtr (VFcall f)) = size9p [VFcall f]"
| "size1 (VMessage m) =
     (case m of
        MessageRstat _ \<Rightarrow> size9p [VU16 0]
      | MessageTwstat _ _ \<Rightarrow> size9p [VU16 0]
      | _ \<Rightarrow> 0) +
     (case fields9p (VMessage m) of Inl _ \<Rightarrow> 0 | Inr elements \<Rightarrow> size9p elements)"
| "size1 (VPtr (VMessage m)) =
     (case m of
        MessageRstat _ \<Rightarrow> size9p [VU16 0]
      | MessageTwstat _ _ \<Rightarrow> size9p [VU16 0]
      | _ \<Rightarrow> 0) +
     (case fields9p (VPtr (VMessage m)) of Inl _ \<Rightarrow> 0 | Inr elements \<Rightarrow> size9p elements)"
| "size1 _ = 0"
  by pat_completeness auto
termination
  by (relation "measures [\<lambda>x. case x of Inl v \<Rightarrow> rank v | Inr vs \<Rightarrow> max_rank vs,
                          \<lambda>x. case x of Inl _ \<Rightarrow> 0 | Inr vs \<Rightarrow> Suc (length vs)]")
     (auto simp: rank_bounds split: option.splits)

section \<open>encode\<close>

text \<open>
  A local size prefix (\<^verbatim>\<open>e.encode(uint16(len(v)))\<close>) is written as its bytes; every other
  recursive call of the code is a recursive call here.
\<close>

function (sequential) encode1 :: "gval \<Rightarrow> error + byte list"
    and encode :: "gval list \<Rightarrow> error + byte list" where
  "encode [] = Inr []"
| "encode (v # vs) =
     bind_result (encode1 v) (\<lambda>a. bind_result (encode vs) (\<lambda>b. Inr (a @ b)))"
| "encode1 (VU8 w) = Inr (put_le w)"
| "encode1 (VU16 w) = Inr (put_le w)"
| "encode1 (VU32 w) = Inr (put_le w)"
| "encode1 (VU64 w) = Inr (put_le w)"
| "encode1 (VPtr (VU8 w)) = Inr (put_le w)"
| "encode1 (VPtr (VU16 w)) = Inr (put_le w)"
| "encode1 (VPtr (VU32 w)) = Inr (put_le w)"
| "encode1 (VPtr (VU64 w)) = Inr (put_le w)"
| "encode1 (VBytes b) = Inr (put_le (word_of_nat (length b) :: u32) @ b)"
| "encode1 (VPtr (VBytes b)) = encode [VBytes b]"
| "encode1 (VString s) = Inr (put_le (word_of_nat (length s) :: u16) @ bytes_of_string s)"
| "encode1 (VPtr (VString s)) = encode [VString s]"
| "encode1 (VStrings ss) =
     bind_result (encode (map VString ss))
       (\<lambda>b. Inr (put_le (word_of_nat (length ss) :: u16) @ b))"
| "encode1 (VPtr (VStrings ss)) = encode [VStrings ss]"
| "encode1 (VTime t) = encode [VU32 (word_of_int (t_unix t))]"
| "encode1 (VPtr (VTime t)) = encode [VTime t]"
| "encode1 (VQid q) = encode [VU8 (q_Type q), VU32 (q_Version q), VU64 (q_Path q)]"
| "encode1 (VPtr (VQid q)) = encode [VQid q]"
| "encode1 (VQids qs) =
     bind_result (encode (map (\<lambda>q. VPtr (VQid q)) qs))
       (\<lambda>b. Inr (put_le (word_of_nat (length qs) :: u16) @ b))"
| "encode1 (VPtr (VQids qs)) = encode [VQids qs]"
| "encode1 (VDir d) =
     bind_result (fields9p (VDir d)) (\<lambda>elements.
       bind_result (encode elements) (\<lambda>b.
         Inr (put_le (ucast (size9p elements) :: u16) @ b)))"
| "encode1 (VPtr (VDir d)) = encode [VDir d]"
| "encode1 (VDirs ds) = encode (map (\<lambda>d. VPtr (VDir d)) ds)"
| "encode1 (VPtr (VDirs ds)) = encode [VDirs ds]"
| "encode1 (VFcall f) =
     encode [VU8 (fc_Type f), VU16 (fc_Tag f),
             (case fc_Message f of None \<Rightarrow> VNil | Some m \<Rightarrow> VMessage m)]"
| "encode1 (VPtr (VFcall f)) = encode [VFcall f]"
| "encode1 (VMessage m) =
     bind_result (fields9p (VMessage m)) (\<lambda>elements.
       case m of
         MessageRstat _ \<Rightarrow>
           bind_result (encode elements) (\<lambda>b.
             Inr (put_le (ucast (size9p elements) :: u16) @ b))
       | MessageTwstat _ _ \<Rightarrow>
           bind_result (encode (take 1 elements)) (\<lambda>a.
             bind_result (encode (drop 1 elements)) (\<lambda>b.
               Inr (a @ put_le (ucast (size9p (drop 1 elements)) :: u16) @ b)))
       | _ \<Rightarrow> encode elements)"
| "encode1 (VPtr (VMessage m)) =
     bind_result (fields9p (VPtr (VMessage m))) (\<lambda>elements.
       case m of
         MessageRstat _ \<Rightarrow>
           bind_result (encode elements) (\<lambda>b.
             Inr (put_le (ucast (size9p elements) :: u16) @ b))
       | MessageTwstat _ _ \<Rightarrow>
           bind_result (encode (take 1 elements)) (\<lambda>a.
             bind_result (encode (drop 1 elements)) (\<lambda>b.
               Inr (a @ put_le (ucast (size9p (drop 1 elements)) :: u16) @ b)))
       | _ \<Rightarrow> encode elements)"
| "encode1 _ = Inr []"
  by pat_completeness auto
termination
  by (relation "measures [\<lambda>x. case x of Inl v \<Rightarrow> rank v | Inr vs \<Rightarrow> max_rank vs,
                          \<lambda>x. case x of Inl _ \<Rightarrow> 0 | Inr vs \<Rightarrow> Suc (length vs)]")
     (auto simp: rank_bounds split: option.splits)

section \<open>decode\<close>

text \<open>
  The loop of the \<^verbatim>\<open>*[]Dir\<close> case: entries are read until the reader reports \<open>EOF\<close>.  An
  entry takes at least the two bytes of its size, so the loop ends within as many iterations
  as there are bytes; \<open>n\<close> counts them down.
\<close>

fun dirs_loop :: "(byte list \<Rightarrow> error + Dir \<times> byte list) \<Rightarrow> nat \<Rightarrow> Dir list \<Rightarrow> byte list
    \<Rightarrow> error + Dir list" where
  "dirs_loop dec 0 acc r = Inl (Panic ''out of fuel'')"
| "dirs_loop dec (Suc n) acc r =
     (case dec r of
        Inl e \<Rightarrow> if e = EOF then Inr acc else Inl e
      | Inr (d, r') \<Rightarrow> dirs_loop dec n (acc @ [d]) r')"

definition is_dirs :: "gval \<Rightarrow> bool" where
  "is_dirs v = (case v of VPtr u \<Rightarrow> (case u of VDirs _ \<Rightarrow> True | _ \<Rightarrow> False) | _ \<Rightarrow> False)"

text \<open>
  \<open>decode\<close> stores into the targets of its arguments and returns them, with the bytes left
  in the reader.  A \<^verbatim>\<open>*[]Dir\<close> target ends the whole call, since its case returns when the
  reader is exhausted.  Arguments that are not pointers match no case (a message value matches
  the last one, but its fields do not) and are left alone.
\<close>

function (sequential) decode1 :: "gval \<Rightarrow> byte list \<Rightarrow> error + gval \<times> byte list"
    and decode :: "gval list \<Rightarrow> byte list \<Rightarrow> error + gval list \<times> byte list" where
  "decode [] r = Inr ([], r)"
| "decode (v # vs) r =
     bind_result (decode1 v r) (\<lambda>(t, r1).
       if is_dirs v then Inr (t # vs, r1)
       else bind_result (decode vs r1) (\<lambda>(ts, r2). Inr (t # ts, r2)))"
| "decode1 (VPtr (VU8 _)) r = bind_result (read_uint r) (\<lambda>(w, r'). Inr (VPtr (VU8 w), r'))"
| "decode1 (VPtr (VU16 _)) r = bind_result (read_uint r) (\<lambda>(w, r'). Inr (VPtr (VU16 w), r'))"
| "decode1 (VPtr (VU32 _)) r = bind_result (read_uint r) (\<lambda>(w, r'). Inr (VPtr (VU32 w), r'))"
| "decode1 (VPtr (VU64 _)) r = bind_result (read_uint r) (\<lambda>(w, r'). Inr (VPtr (VU64 w), r'))"
| "decode1 (VPtr (VBytes cur)) r =
     bind_result (read_uint r) (\<lambda>(ll :: u32, r1).
       bind_result (ReadFull EOF (if 0 < ll then unat ll else length cur) r1) (\<lambda>(b, r2).
         Inr (VPtr (VBytes b), r2)))"
| "decode1 (VPtr (VString _)) r =
     bind_result (read_uint r) (\<lambda>(ll :: u16, r1).
       bind_result (ReadFull EOF (unat ll) r1) (\<lambda>(b, r2).
         Inr (VPtr (VString (string_of_bytes b)), r2)))"
| "decode1 (VPtr (VStrings _)) r =
     bind_result (read_uint r) (\<lambda>(ll :: u16, r1).
       bind_result (decode (replicate (unat ll) (VPtr (VString []))) r1) (\<lambda>(es, r2).
         Inr (VPtr (VStrings (map string_at es)), r2)))"
| "decode1 (VPtr (VTime _)) r =
     bind_result (read_uint r) (\<lambda>(epoch :: u32, r1).
       Inr (VPtr (VTime (time_unix_utc epoch)), r1))"
| "decode1 (VPtr (VQid q)) r =
     bind_result (decode [VPtr (VU8 (q_Type q)), VPtr (VU32 (q_Version q)), VPtr (VU64 (q_Path q))] r)
       (\<lambda>(es, r1).
         Inr (VPtr (VQid \<lparr>q_Type = u8_at (es ! 0), q_Version = u32_at (es ! 1),
                           q_Path = u64_at (es ! 2)\<rparr>), r1))"
| "decode1 (VPtr (VQids _)) r =
     bind_result (read_uint r) (\<lambda>(ll :: u16, r1).
       bind_result (decode (replicate (unat ll) (VPtr (VQid zero_Qid))) r1) (\<lambda>(es, r2).
         Inr (VPtr (VQids (map qid_at es)), r2)))"
| "decode1 (VPtr (VDir d)) r =
     bind_result (read_uint r) (\<lambda>(ll :: u16, r1).
       bind_result (ReadFull EOF (unat ll) r1) (\<lambda>(b, r2).
         bind_result (fields9p (VPtr (VDir d))) (\<lambda>elements.
           bind_result (decode elements b) (\<lambda>(es, _).
             Inr (VPtr (VDir (set_dir_fields es)), r2)))))"
| "decode1 (VPtr (VDirs _)) r =
     bind_result
       (dirs_loop
         (\<lambda>r. bind_result (decode1 (VPtr (VDir zero_Dir)) r) (\<lambda>(t, r'). Inr (dir_at t, r')))
         (Suc (length r)) [] r)
       (\<lambda>ds. Inr (VPtr (VDirs ds), []))"
| "decode1 (VPtr (VFcall f)) r =
     bind_result (decode [VPtr (VU8 (fc_Type f)), VPtr (VU16 (fc_Tag f))] r) (\<lambda>(es, r1).
       bind_result (newMessage (u8_at (es ! 0))) (\<lambda>message.
         bind_result (decode [VPtr (VMessage message)] r1) (\<lambda>(ms, r2).
           Inr (VPtr (VFcall \<lparr>fc_Type = u8_at (es ! 0), fc_Tag = u16_at (es ! 1),
                               fc_Message = message_at (ms ! 0)\<rparr>), r2))))"
| "decode1 (VPtr (VMessage m)) r =
     bind_result (fields9p (VPtr (VMessage m))) (\<lambda>elements.
       case m of
         MessageRstat _ \<Rightarrow>
           bind_result (read_uint r) (\<lambda>(ll :: u16, r1).
             bind_result (decode elements r1) (\<lambda>(es, r2).
               Inr (VPtr (VMessage (set_fields m es)), r2)))
       | MessageTwstat _ _ \<Rightarrow>
           bind_result (decode (take 1 elements) r) (\<lambda>(e0, r1).
             bind_result (read_uint r1) (\<lambda>(ll :: u16, r2).
               bind_result (decode (drop 1 elements) r2) (\<lambda>(es, r3).
                 Inr (VPtr (VMessage (set_fields m (e0 @ es))), r3))))
       | _ \<Rightarrow>
           bind_result (decode elements r) (\<lambda>(es, r1).
             Inr (VPtr (VMessage (set_fields m es)), r1)))"
| "decode1 (VMessage m) r =
     bind_result (fields9p (VMessage m)) (\<lambda>elements.
       case m of
         MessageRstat _ \<Rightarrow>
           bind_result (read_uint r) (\<lambda>(ll :: u16, r1).
             bind_result (decode elements r1) (\<lambda>(es, r2). Inr (VMessage m, r2)))
       | MessageTwstat _ _ \<Rightarrow>
           bind_result (decode (take 1 elements) r) (\<lambda>(e0, r1).
             bind_result (read_uint r1) (\<lambda>(ll :: u16, r2).
               bind_result (decode (drop 1 elements) r2) (\<lambda>(es, r3). Inr (VMessage m, r3))))
       | _ \<Rightarrow> bind_result (decode elements r) (\<lambda>(es, r1). Inr (VMessage m, r1)))"
| "decode1 v r = Inr (v, r)"
  by pat_completeness auto
termination
  by (relation "measures [\<lambda>x. case x of Inl (v, _) \<Rightarrow> rank v | Inr (vs, _) \<Rightarrow> max_rank vs,
                          \<lambda>x. case x of Inl _ \<Rightarrow> 0 | Inr (vs, _) \<Rightarrow> Suc (length vs)]")
     (auto simp: rank_bounds)

section \<open>The codec\<close>

definition Marshal :: "gval \<Rightarrow> error + byte list" where
  "Marshal v = encode [v]"

definition Unmarshal :: "byte list \<Rightarrow> gval \<Rightarrow> error + gval" where
  "Unmarshal data v = bind_result (decode [v] data) (\<lambda>(ts, _). Inr (ts ! 0))"

definition Size :: "gval \<Rightarrow> int" where
  "Size v = uint (size9p [v])"

text \<open>
  \<open>DecodeDir\<close> reads one directory entry from a stream.  The buffer is made with
  \<^verbatim>\<open>make([]byte, ll+2)\<close>, a sum in \<open>uint16\<close>; \<^verbatim>\<open>PutUint16\<close> panics when it is shorter than
  two bytes.
\<close>

definition DecodeDir :: "byte list \<Rightarrow> error + Dir \<times> byte list" where
  "DecodeDir r =
     bind_result (read_uint r) (\<lambda>(ll :: u16, r1).
       let n = unat (ll + 2) in
       if n < 2 then Inl (Panic ''index out of range'')
       else bind_result (ReadFull EOF (n - 2) r1) (\<lambda>(b, r2).
         bind_result (Unmarshal (put_le ll @ b) (VPtr (VDir zero_Dir))) (\<lambda>t.
           Inr (dir_at t, r2))))"

definition EncodeDir :: "Dir \<Rightarrow> error + byte list" where
  "EncodeDir d = Marshal (VPtr (VDir d))"

end
