(* ===== verification/P9_Codec_Correct.thy ===== *)
theory P9_Codec_Correct
  imports P9_Codec
begin

text \<open>
  The codec implements the wire format: \<open>encode\<close> never fails and writes exactly the
  specified bytes, \<open>size9p\<close> predicts their number, and \<open>decode\<close> reads them back.
\<close>

section \<open>The bytes of an interface value\<close>

fun wire1 :: "gval \<Rightarrow> byte list" where
  "wire1 (VU8 w) = put_le w"
| "wire1 (VU16 w) = put_le w"
| "wire1 (VU32 w) = put_le w"
| "wire1 (VU64 w) = put_le w"
| "wire1 (VBytes b) = w_bytes b"
| "wire1 (VString s) = w_string s"
| "wire1 (VStrings ss) = w_strings ss"
| "wire1 (VTime t) = w_time t"
| "wire1 (VQid q) = w_qid q"
| "wire1 (VQids qs) = w_qids qs"
| "wire1 (VDir d) = w_dir d"
| "wire1 (VDirs ds) = concat (map w_dir ds)"
| "wire1 (VFcall f) = w_fcall f"
| "wire1 (VMessage m) = w_message m"
| "wire1 (VPtr v) = (case v of VPtr _ \<Rightarrow> [] | _ \<Rightarrow> wire1 v)"
| "wire1 VNil = []"
| "wire1 VOther = []"

definition wire :: "gval list \<Rightarrow> byte list" where
  "wire vs = concat (map wire1 vs)"

lemma wire_simps [simp]:
  "wire [] = []"
  "wire (v # vs) = wire1 v @ wire vs"
  "wire (us @ vs) = wire us @ wire vs"
  by (simp_all add: wire_def)

lemma wire_map [simp]:
  "wire (map VString ss) = concat (map w_string ss)"
  "wire (map (\<lambda>q. VPtr (VQid q)) qs) = concat (map w_qid qs)"
  "wire (map (\<lambda>d. VPtr (VDir d)) ds) = concat (map w_dir ds)"
  by (simp_all add: wire_def comp_def)

lemma wire_dir_fields [simp]: "wire (dir_fields d) = w_dir_body d"
  by (simp add: dir_fields_def w_dir_body_def)

lemma wire_message_fields:
  "w_message m =
     (case m of
        MessageRstat d \<Rightarrow> put_le (word_of_nat (length (w_dir d)) :: u16) @ wire (message_fields m)
      | MessageTwstat fid d \<Rightarrow>
          put_le fid @ put_le (word_of_nat (length (w_dir d)) :: u16) @ wire [VDir d]
      | _ \<Rightarrow> wire (message_fields m))"
  by (cases m) simp_all

section \<open>Sizes\<close>

text \<open>
  The values whose size is computed right: all but a pointer to a byte slice, and the pointers
  to messages with such a field.
\<close>

fun plain :: "gval \<Rightarrow> bool" where
  "plain (VPtr v) =
     (case v of
        VBytes _ \<Rightarrow> False
      | VMessage m \<Rightarrow> (case m of MessageRread _ \<Rightarrow> False | MessageTwrite _ _ _ \<Rightarrow> False | _ \<Rightarrow> True)
      | _ \<Rightarrow> True)"
| "plain _ = True"

lemma plain_fields:
  "list_all plain (message_fields m)"
  "list_all plain (dir_fields d)"
  by (cases m; simp) (simp add: dir_fields_def)

lemma plain_map:
  "list_all plain (map VString ss)"
  "list_all plain (map (\<lambda>q. VPtr (VQid q)) qs)"
  "list_all plain (map (\<lambda>d. VPtr (VDir d)) ds)"
  by (simp_all add: list_all_iff)

lemma plain_ptr_fields:
  "(case m of MessageRread _ \<Rightarrow> False | MessageTwrite _ _ _ \<Rightarrow> False | _ \<Rightarrow> True) \<Longrightarrow>
     list_all plain (map VPtr (message_fields m))"
  by (cases m) simp_all

lemma wire_ptr_fields [simp]:
  "wire (map VPtr (message_fields m)) = wire (message_fields m)"
  "wire (map VPtr (dir_fields d)) = wire (dir_fields d)"
  by (cases m; simp) (simp add: dir_fields_def)

lemma length_w_message:
  "length (w_message m) =
     (case m of MessageRstat _ \<Rightarrow> 2 | MessageTwstat _ _ \<Rightarrow> 2 | _ \<Rightarrow> 0) +
     length (wire (message_fields m))"
  by (cases m) simp_all

lemma stat_prefix_size:
  "(case m of MessageRstat _ \<Rightarrow> size9p [VU16 0] | MessageTwstat _ _ \<Rightarrow> size9p [VU16 0] | _ \<Rightarrow> 0) =
     word_of_nat (case m of MessageRstat _ \<Rightarrow> 2 | MessageTwstat _ _ \<Rightarrow> 2 | _ \<Rightarrow> 0)"
  by (cases m) simp_all

lemma size_exact:
  "plain v \<Longrightarrow> size1 v = word_of_nat (length (wire1 v))"
  "list_all plain vs \<Longrightarrow> size9p vs = word_of_nat (length (wire vs))"
proof (induction v and vs rule: size1_size9p.induct)
qed (auto simp: plain_fields plain_map w_strings_def w_qids_def w_fcall_def length_w_message
       stat_prefix_size plain_ptr_fields simp del: list.pred_map
       split: option.splits)

lemma ucast_of_nat_u16: "(ucast (word_of_nat n :: u32) :: u16) = word_of_nat n"
proof -
  have "n mod 4294967296 mod 65536 = n mod (65536 :: nat)" by (rule mod_mod_cancel) simp
  then have "unat (ucast (word_of_nat n :: u32) :: u16) = unat (word_of_nat n :: u16)"
    by (simp add: unsigned_ucast_eq unat_of_nat take_bit_eq_mod)
  then show ?thesis by (simp only: word_unat_eq_iff)
qed

lemma ucast_size_exact:
  "list_all plain vs \<Longrightarrow> (ucast (size9p vs) :: u16) = word_of_nat (length (wire vs))"
  by (simp add: size_exact ucast_of_nat_u16)

section \<open>Encoding\<close>

lemmas w_defs =
  w_string_def w_bytes_def w_strings_def w_time_def w_qid_def w_qids_def w_dir_def

lemma encode_maps [simp]:
  "encode (map VString ss) = Inr (concat (map w_string ss))"
  "encode (map (\<lambda>q. VPtr (VQid q)) qs) = Inr (concat (map w_qid qs))"
  by (induction ss, simp_all add: w_defs) (induction qs, simp_all add: w_defs)

lemma encode_dir_fields [simp]: "encode (dir_fields d) = Inr (w_dir_body d)"
  by (simp add: dir_fields_def w_dir_body_def w_defs)

lemma encode_dirs [simp]: "encode (map (\<lambda>d. VPtr (VDir d)) ds) = Inr (concat (map w_dir ds))"
  by (induction ds) (simp_all add: w_defs ucast_size_exact plain_fields)

lemma encode1_message [simp]:
  "encode1 (VMessage m) = Inr (w_message m)"
  "encode1 (VPtr (VMessage m)) = Inr (w_message m)"
  by (cases m; simp add: w_defs ucast_size_exact plain_fields del: size9p.simps size1.simps)+

lemma encode1_wire: "encode1 v = Inr (wire1 v)"
proof (cases v)
  case (VPtr u)
  then show ?thesis
    by (cases u) (simp_all add: w_defs w_fcall_def ucast_size_exact plain_fields
        del: encode1.simps(27,28) split: option.splits)
qed (simp_all add: w_defs w_fcall_def ucast_size_exact plain_fields
       del: encode1.simps(27,28) split: option.splits)

lemma encode_wire: "encode vs = Inr (wire vs)"
  by (induction vs) (simp_all add: encode1_wire del: encode1.simps)

section \<open>Decoding what was encoded\<close>

text \<open>The field values of messages, the zero value that a fresh target holds, and validity.\<close>

fun is_field :: "gval \<Rightarrow> bool" where
  "is_field (VDirs _) = False"
| "is_field (VFcall _) = False"
| "is_field (VMessage _) = False"
| "is_field (VPtr _) = False"
| "is_field VNil = False"
| "is_field VOther = False"
| "is_field _ = True"

fun zero_of :: "gval \<Rightarrow> gval" where
  "zero_of (VU8 _) = VU8 0"
| "zero_of (VU16 _) = VU16 0"
| "zero_of (VU32 _) = VU32 0"
| "zero_of (VU64 _) = VU64 0"
| "zero_of (VBytes _) = VBytes []"
| "zero_of (VString _) = VString []"
| "zero_of (VStrings _) = VStrings []"
| "zero_of (VTime _) = VTime zero_time"
| "zero_of (VQid _) = VQid zero_Qid"
| "zero_of (VQids _) = VQids []"
| "zero_of (VDir _) = VDir zero_Dir"
| "zero_of v = v"

fun wf_val :: "gval \<Rightarrow> bool" where
  "wf_val (VBytes b) = (length b < 4294967296)"
| "wf_val (VString s) = wf_string s"
| "wf_val (VStrings ss) = (length ss < 65536 \<and> list_all wf_string ss)"
| "wf_val (VTime t) = wf_time t"
| "wf_val (VQids qs) = (length qs < 65536)"
| "wf_val (VDir d) = wf_dir d"
| "wf_val _ = True"

lemma not_is_dirs [simp]: "is_field v \<Longrightarrow> \<not> is_dirs (VPtr v)"
  by (cases v) (simp_all add: is_dirs_def)

lemma is_field_zero_of [simp]: "is_field (zero_of v) = is_field v"
  by (cases v) simp_all

lemma decode_string:
  "wf_string s \<Longrightarrow> decode1 (VPtr (VString t)) (w_string s @ r) = Inr (VPtr (VString s), r)"
  by (simp add: w_string_def wf_string_def unat_word_of_nat_u16)

lemma decode_strings:
  "list_all wf_string ss \<Longrightarrow>
     decode (replicate (length ss) (VPtr (VString []))) (concat (map w_string ss) @ r) =
       Inr (map (\<lambda>s. VPtr (VString s)) ss, r)"
  by (induction ss) (simp_all add: decode_string del: decode1.simps(6))

lemma decode_qid: "decode1 (VPtr (VQid t)) (w_qid q @ r) = Inr (VPtr (VQid q), r)"
  by (cases q) (simp add: w_qid_def is_dirs_def)

lemma decode_qids:
  "decode (replicate (length qs) (VPtr (VQid zero_Qid))) (concat (map w_qid qs) @ r) =
     Inr (map (\<lambda>q. VPtr (VQid q)) qs, r)"
  by (induction qs) (simp_all add: decode_qid del: decode1.simps(9))

lemma decode_time:
  "wf_time t \<Longrightarrow> decode1 (VPtr (VTime u)) (w_time t @ r) = Inr (VPtr (VTime t), r)"
  by (simp add: w_time_def time_unix_utc_wf)

lemma decode_bytes:
  "length b < 4294967296 \<Longrightarrow>
     decode1 (VPtr (VBytes [])) (w_bytes b @ r) = Inr (VPtr (VBytes b), r)"
  by (cases "b = []")
     (simp_all add: w_bytes_def word_less_nat_alt unat_word_of_nat_u32)

lemma wf_dir_strings:
  assumes "wf_dir d"
  shows "wf_string (d_Name d)" "wf_string (d_UID d)" "wf_string (d_GID d)" "wf_string (d_MUID d)"
    "wf_time (d_AccessTime d)" "wf_time (d_ModTime d)"
  using assms by (simp_all add: wf_dir_def wf_string_def length_w_dir_body)

lemma decode_dir_fields:
  assumes "wf_dir d"
  shows "decode (map VPtr (dir_fields t)) (w_dir_body d @ r) = Inr (map VPtr (dir_fields d), r)"
  using wf_dir_strings [OF assms]
  by (simp add: dir_fields_def w_dir_body_def decode_string decode_qid decode_time
      del: decode1.simps(6,8,9))

lemma set_dir_fields [simp]: "set_dir_fields (map VPtr (dir_fields d)) = d"
  by (simp add: set_dir_fields_def dir_fields_def)

lemma decode_dir:
  assumes "wf_dir d"
  shows "decode1 (VPtr (VDir t)) (w_dir d @ r) = Inr (VPtr (VDir d), r)"
proof -
  have "length (w_dir_body d) < 65536" using assms by (simp add: wf_dir_def)
  with decode_dir_fields [OF assms, of t "[]"] show ?thesis
    by (simp add: w_dir_def unat_word_of_nat_u16)
qed

lemma decode_strings_field:
  "length ss < 65536 \<Longrightarrow> list_all wf_string ss \<Longrightarrow>
     decode1 (VPtr (VStrings t)) (w_strings ss @ r) = Inr (VPtr (VStrings ss), r)"
  by (simp add: w_strings_def decode_strings unat_word_of_nat_u16 comp_def)

lemma decode_qids_field:
  "length qs < 65536 \<Longrightarrow>
     decode1 (VPtr (VQids t)) (w_qids qs @ r) = Inr (VPtr (VQids qs), r)"
  by (simp add: w_qids_def decode_qids unat_word_of_nat_u16 comp_def)

lemmas decode_values =
  decode_bytes decode_string decode_time decode_qid decode_dir decode_strings_field
  decode_qids_field

lemma decode_field:
  "is_field v \<Longrightarrow> wf_val v \<Longrightarrow>
     decode1 (VPtr (zero_of v)) (wire1 v @ r) = Inr (VPtr v, r)"
  by (cases v)
     (simp_all add: decode_values del: decode1.simps(5-11))

lemma decode_fields:
  "list_all is_field vs \<Longrightarrow> list_all wf_val vs \<Longrightarrow>
     decode (map VPtr (map zero_of vs)) (wire vs @ r) = Inr (map VPtr vs, r)"
  by (induction vs) (simp_all add: decode_field del: decode1.simps)

lemma decode_single:
  "\<not> is_dirs v \<Longrightarrow> decode [v] r = bind_result (decode1 v r) (\<lambda>(t, r1). Inr ([t], r1))"
  by simp

text \<open>A fresh message has zero fields, and storing the fields of a message gives the message.\<close>

lemma new_message_fields:
  "newMessage (message_type m) = Inr m0 \<Longrightarrow>
     message_fields m0 = map zero_of (message_fields m) \<and>
     set_fields m0 (map VPtr (message_fields m)) = m"
  by (cases m) (auto simp: newMessage_def)

lemma message_fields_ok:
  "list_all is_field (message_fields m)"
  "wf_message m \<Longrightarrow> list_all wf_val (message_fields m)"
  by (cases m; simp)+

lemma decode_message:
  assumes "wf_message m" and "newMessage (message_type m) = Inr m0"
  shows "decode1 (VPtr (VMessage m0)) (w_message m @ r) = Inr (VPtr (VMessage m), r)"
proof -
  note f = new_message_fields [OF assms(2)]
  have d: "decode (map VPtr (message_fields m0)) (wire (message_fields m) @ r) =
      Inr (map VPtr (message_fields m), r)"
    using f decode_fields [OF message_fields_ok(1) message_fields_ok(2) [OF assms(1)]] by simp
  from assms(1) assms(2) f d show ?thesis
    by (cases m) (auto simp: newMessage_def decode_single decode_dir
        simp del: decode.simps decode1.simps(4-11))
qed

lemma decode_fcall:
  assumes "wf_fcall f"
  shows "decode1 (VPtr (VFcall t)) (w_fcall f @ r) = Inr (VPtr (VFcall f), r)"
proof -
  from assms obtain m where f: "f = newFcall (fc_Tag f) m" and m: "wf_message m"
    by (rule wf_fcallE)
  obtain m0 where m0: "newMessage (message_type m) = Inr m0"
    using newMessage_total by blast
  have "decode1 (VPtr (VFcall t)) (w_fcall (newFcall g m) @ r) =
      Inr (VPtr (VFcall (newFcall g m)), r)" for g
    by (simp add: w_fcall_def m0 decode_message [OF m m0] is_dirs_def newFcall_def
        del: decode1.simps(14))
  with f show ?thesis by metis
qed

section \<open>Decoding arbitrary bytes\<close>

text \<open>
  Whatever bytes arrive, a value that is decoded without error is one the format can carry, and
  apart from directory entries the bytes consumed are exactly its encoding.
\<close>

lemma zero_of_eq:
  "zero_of u = VU8 0 \<longleftrightarrow> (\<exists>w. u = VU8 w)"
  "zero_of u = VU16 0 \<longleftrightarrow> (\<exists>w. u = VU16 w)"
  "zero_of u = VU32 0 \<longleftrightarrow> (\<exists>w. u = VU32 w)"
  "zero_of u = VU64 0 \<longleftrightarrow> (\<exists>w. u = VU64 w)"
  "zero_of u = VBytes [] \<longleftrightarrow> (\<exists>w. u = VBytes w)"
  "zero_of u = VString [] \<longleftrightarrow> (\<exists>w. u = VString w)"
  "zero_of u = VStrings [] \<longleftrightarrow> (\<exists>w. u = VStrings w)"
  "zero_of u = VTime zero_time \<longleftrightarrow> (\<exists>w. u = VTime w)"
  "zero_of u = VQid zero_Qid \<longleftrightarrow> (\<exists>w. u = VQid w)"
  "zero_of u = VQids [] \<longleftrightarrow> (\<exists>w. u = VQids w)"
  "zero_of u = VDir zero_Dir \<longleftrightarrow> (\<exists>w. u = VDir w)"
  by (cases u; simp)+

lemma decode_string_inv:
  "decode1 (VPtr (VString t)) r = Inr (v, r') \<Longrightarrow>
     \<exists>s. v = VPtr (VString s) \<and> wf_string s \<and> r = w_string s @ r'"
  by (auto simp: bind_result_eq_Inr read_uint_eq_Inr_u ReadFull_eq_Inr wf_string_def w_string_def
      unat_u16_bound)

lemma decode_strings_inv:
  "decode (replicate n (VPtr (VString []))) r = Inr (es, r') \<Longrightarrow>
     \<exists>ss. es = map (\<lambda>s. VPtr (VString s)) ss \<and> length ss = n \<and> list_all wf_string ss \<and>
          r = concat (map w_string ss) @ r'"
proof (induction n arbitrary: r es)
  case 0
  then show ?case by simp
next
  case (Suc n)
  then obtain v r1 ts where v: "decode1 (VPtr (VString [])) r = Inr (v, r1)"
    and ts: "decode (replicate n (VPtr (VString []))) r1 = Inr (ts, r')" and es: "es = v # ts"
    by (auto simp: bind_result_eq_Inr simp del: decode1.simps)
  from decode_string_inv [OF v] obtain s where
    "v = VPtr (VString s)" "wf_string s" "r = w_string s @ r1" by blast
  moreover from Suc.IH [OF ts] obtain ss where
    "ts = map (\<lambda>s. VPtr (VString s)) ss" "length ss = n" "list_all wf_string ss"
    "r1 = concat (map w_string ss) @ r'" by blast
  ultimately show ?case using es by (intro exI [of _ "s # ss"]) simp
qed

lemma decode_qid_inv:
  "decode1 (VPtr (VQid t)) r = Inr (v, r') \<Longrightarrow> \<exists>q. v = VPtr (VQid q) \<and> r = w_qid q @ r'"
  by (auto simp: bind_result_eq_Inr read_uint_eq_Inr_u w_qid_def is_dirs_def)

lemma decode_qids_inv:
  "decode (replicate n (VPtr (VQid zero_Qid))) r = Inr (es, r') \<Longrightarrow>
     \<exists>qs. es = map (\<lambda>q. VPtr (VQid q)) qs \<and> length qs = n \<and> r = concat (map w_qid qs) @ r'"
proof (induction n arbitrary: r es)
  case 0
  then show ?case by simp
next
  case (Suc n)
  then obtain v r1 ts where v: "decode1 (VPtr (VQid zero_Qid)) r = Inr (v, r1)"
    and ts: "decode (replicate n (VPtr (VQid zero_Qid))) r1 = Inr (ts, r')" and es: "es = v # ts"
    by (auto simp: bind_result_eq_Inr simp del: decode1.simps)
  from decode_qid_inv [OF v] obtain q where "v = VPtr (VQid q)" "r = w_qid q @ r1" by blast
  moreover from Suc.IH [OF ts] obtain qs where
    "ts = map (\<lambda>q. VPtr (VQid q)) qs" "length qs = n" "r1 = concat (map w_qid qs) @ r'" by blast
  ultimately show ?case using es by (intro exI [of _ "q # qs"]) simp
qed

lemma decode_atom_inv:
  assumes "is_field z" and "zero_of z = z" and "z \<noteq> VDir zero_Dir"
    and "decode1 (VPtr z) r = Inr (t, r')"
  shows "\<exists>u. t = VPtr u \<and> zero_of u = z \<and> wf_val u \<and> r = wire1 u @ r'"
proof (cases z)
  case (VBytes b)
  with assms show ?thesis
    by (auto simp: bind_result_eq_Inr read_uint_eq_Inr_u ReadFull_eq_Inr w_bytes_def
        unat_u32_bound word_less_nat_alt unat_0_iff split: if_splits)
next
  case (VString s)
  with assms decode_string_inv [of s r t r'] show ?thesis by auto
next
  case (VStrings ss)
  with assms obtain ll r1 es where "r = put_le (ll :: u16) @ r1"
    and es: "decode (replicate (unat ll) (VPtr (VString []))) r1 = Inr (es, r')"
    and "t = VPtr (VStrings (map string_at es))"
    by (auto simp: bind_result_eq_Inr read_uint_eq_Inr_u)
  with decode_strings_inv [OF es] VStrings assms(2) show ?thesis
    by (auto simp: w_strings_def comp_def unat_u16_bound)
next
  case (VQid q)
  with assms decode_qid_inv [of q r t r'] show ?thesis by auto
next
  case (VQids qs)
  with assms obtain ll r1 es where "r = put_le (ll :: u16) @ r1"
    and es: "decode (replicate (unat ll) (VPtr (VQid zero_Qid))) r1 = Inr (es, r')"
    and "t = VPtr (VQids (map qid_at es))"
    by (auto simp: bind_result_eq_Inr read_uint_eq_Inr_u)
  with decode_qids_inv [OF es] VQids assms(2) show ?thesis
    by (auto simp: w_qids_def comp_def unat_u16_bound)
qed (use assms in \<open>auto simp: bind_result_eq_Inr read_uint_eq_Inr_u wf_time_unix_utc\<close>)

lemma decode_atoms_inv:
  assumes "list_all is_field zs" and "map zero_of zs = zs" and "VDir zero_Dir \<notin> set zs"
    and "decode (map VPtr zs) r = Inr (ts, r')"
  shows "\<exists>us. ts = map VPtr us \<and> map zero_of us = zs \<and> list_all wf_val us \<and> r = wire us @ r'"
  using assms
proof (induction zs arbitrary: r ts)
  case Nil
  then show ?case by simp
next
  case (Cons z zs)
  from Cons.prems obtain t r1 ts' where t: "decode1 (VPtr z) r = Inr (t, r1)"
    and ts': "decode (map VPtr zs) r1 = Inr (ts', r')" and ts: "ts = t # ts'"
    by (auto simp: bind_result_eq_Inr simp del: decode1.simps)
  from decode_atom_inv [OF _ _ _ t] Cons.prems obtain u where
    u: "t = VPtr u" "zero_of u = z" "wf_val u" "r = wire1 u @ r1" by auto
  from Cons.IH [OF _ _ _ ts'] Cons.prems obtain us where
    "ts' = map VPtr us" "map zero_of us = zs" "list_all wf_val us" "r1 = wire us @ r'" by auto
  with u ts show ?case by (intro exI [of _ "u # us"]) simp
qed

lemma dir_fields_shape:
  assumes "map zero_of us = dir_fields zero_Dir"
  shows "\<exists>d. us = dir_fields d"
proof -
  from assms have "us = dir_fields (set_dir_fields (map VPtr us))"
    by (auto simp: dir_fields_def zero_Dir_def zero_of_eq set_dir_fields_def
        Cons_eq_map_conv map_eq_Cons_conv)
  then show ?thesis by blast
qed

lemma decode_dir_inv:
  assumes "decode1 (VPtr (VDir zero_Dir)) r = Inr (t, r')"
  shows "\<exists>d ll junk. t = VPtr (VDir d) \<and> wf_dir d \<and> r = put_le (ll :: u16) @ w_dir_body d @ junk @ r' \<and>
           unat ll = length (w_dir_body d @ junk)"
proof -
  from assms obtain ll b es junk where r: "r = put_le (ll :: u16) @ b @ r'" "length b = unat ll"
    and es: "decode (map VPtr (dir_fields zero_Dir)) b = Inr (es, junk)"
    and t: "t = VPtr (VDir (set_dir_fields es))"
    by (auto simp: bind_result_eq_Inr read_uint_eq_Inr_u ReadFull_eq_Inr)
  have "list_all is_field (dir_fields zero_Dir)" "map zero_of (dir_fields zero_Dir) = dir_fields zero_Dir"
    "VDir zero_Dir \<notin> set (dir_fields zero_Dir)"
    by (simp_all add: dir_fields_def zero_Dir_def)
  from decode_atoms_inv [OF this es] obtain us where
    us: "es = map VPtr us" "map zero_of us = dir_fields zero_Dir" "list_all wf_val us"
      "b = wire us @ junk" by blast
  from dir_fields_shape [OF us(2)] obtain d where d: "us = dir_fields d" by blast
  have "length (w_dir_body d) \<le> length b" using us(4) d by simp
  then have "length (w_dir_body d) < 65536" using r(2) unat_u16_bound [of ll] by simp
  with us(3) d have "wf_dir d" by (simp add: dir_fields_def wf_dir_def)
  with r t us d show ?thesis by auto
qed

definition is_stat :: "Message \<Rightarrow> bool" where
  "is_stat m = (case m of MessageRstat _ \<Rightarrow> True | MessageTwstat _ _ \<Rightarrow> True | _ \<Rightarrow> False)"

text \<open>
  The bytes that decode to a message.  In a stat message the size before the entry is not looked
  at, and the entry may be longer than its fields; otherwise they are the message's wire form.
\<close>

definition loose_dir :: "Dir \<Rightarrow> byte list \<Rightarrow> bool" where
  "loose_dir d b \<longleftrightarrow>
     (\<exists>(n :: u16) (ll :: u16) junk. b = put_le n @ put_le ll @ w_dir_body d @ junk \<and>
        unat ll = length (w_dir_body d @ junk))"

fun loose_message :: "Message \<Rightarrow> byte list \<Rightarrow> bool" where
  "loose_message (MessageRstat d) b \<longleftrightarrow> loose_dir d b"
| "loose_message (MessageTwstat fid d) b \<longleftrightarrow> (\<exists>b'. b = put_le fid @ b' \<and> loose_dir d b')"
| "loose_message m b \<longleftrightarrow> b = w_message m"

lemma loose_message_exact: "\<not> is_stat m \<Longrightarrow> loose_message m b \<longleftrightarrow> b = w_message m"
  by (cases m) (simp_all add: is_stat_def)

lemma new_message_zero:
  "newMessage ty = Inr m0 \<Longrightarrow> map zero_of (message_fields m0) = message_fields m0"
  using newMessage_type [of ty m0] new_message_fields [of m0 m0] by auto

lemma message_fields_shape:
  assumes "newMessage ty = Inr m0" and "map zero_of us = message_fields m0"
  shows "message_fields (set_fields m0 (map VPtr us)) = us"
    and "message_type (set_fields m0 (map VPtr us)) = message_type m0"
    and "is_stat (set_fields m0 (map VPtr us)) = is_stat m0"
proof -
  have "\<exists>m1. newMessage (message_type m0) = Inr m1 \<and> m1 = m0"
    using assms(1) newMessage_type [OF assms(1)] by simp
  with assms(2) show "message_fields (set_fields m0 (map VPtr us)) = us"
    by (cases m0) (auto simp: newMessage_def zero_of_eq map_eq_Cons_conv)
  show "message_type (set_fields m0 (map VPtr us)) = message_type m0"
    and "is_stat (set_fields m0 (map VPtr us)) = is_stat m0"
    by (cases m0; simp add: is_stat_def)+
qed

lemma wf_message_fields: "list_all wf_val (message_fields m) \<Longrightarrow> wf_message m"
  by (cases m) simp_all

lemma no_stat_fields:
  "\<not> is_stat m \<Longrightarrow> VDir zero_Dir \<notin> set (message_fields m)"
  "\<not> is_stat m \<Longrightarrow> w_message m = wire (message_fields m)"
  by (cases m; simp add: is_stat_def)+

lemma decode1_message_fields:
  "\<not> is_stat m \<Longrightarrow> decode1 (VPtr (VMessage m)) r =
     bind_result (decode (map VPtr (message_fields m)) r) (\<lambda>(es, r1).
       Inr (VPtr (VMessage (set_fields m es)), r1))"
  by (cases m) (simp_all add: is_stat_def del: decode.simps)

lemma decode_dir_loose:
  assumes "decode1 (VPtr (VDir zero_Dir)) r = Inr (t, r')"
  shows "\<exists>d b. t = VPtr (VDir d) \<and> wf_dir d \<and> put_le (n :: u16) @ r = b @ r' \<and> loose_dir d b"
proof -
  from decode_dir_inv [OF assms] obtain d ll junk where "t = VPtr (VDir d)" "wf_dir d"
    "r = put_le (ll :: u16) @ w_dir_body d @ junk @ r'" "unat ll = length (w_dir_body d @ junk)" by blast
  then show ?thesis
    unfolding loose_dir_def
    by (intro exI [of _ d] exI [of _ "put_le n @ put_le ll @ w_dir_body d @ junk"]) auto
qed

lemma decode_message_inv:
  assumes m0: "newMessage ty = Inr m0" and dec: "decode1 (VPtr (VMessage m0)) r = Inr (t, r')"
  shows "\<exists>m. t = VPtr (VMessage m) \<and> message_type m = ty \<and> wf_message m \<and>
           (\<exists>b. r = b @ r' \<and> loose_message m b)"
proof (cases "is_stat m0")
  case False
  with dec obtain es where es: "decode (map VPtr (message_fields m0)) r = Inr (es, r')"
    and t: "t = VPtr (VMessage (set_fields m0 es))"
    by (auto simp: decode1_message_fields bind_result_eq_Inr simp del: decode1.simps(14))
  from decode_atoms_inv [OF message_fields_ok(1) new_message_zero [OF m0]
      no_stat_fields(1) [OF False] es] obtain us where
    us: "es = map VPtr us" "map zero_of us = message_fields m0" "list_all wf_val us"
      "r = wire us @ r'" by blast
  define m where "m = set_fields m0 (map VPtr us)"
  note shape = message_fields_shape [OF m0 us(2), folded m_def]
  from shape newMessage_type [OF m0] us(3) have "message_type m = ty" "wf_message m"
    by (simp_all add: wf_message_fields)
  moreover have "r = w_message m @ r' \<and> loose_message m (w_message m)"
    using us(4) shape False by (simp add: no_stat_fields(2) loose_message_exact)
  ultimately show ?thesis using t us(1) m_def by blast
next
  case True
  then show ?thesis
  proof (cases m0)
    case (MessageRstat d0)
    with m0 have "ty = Rstat" and d0: "d0 = zero_Dir"
      by (auto simp: newMessage_def split: if_splits)
    moreover from dec MessageRstat d0 obtain n r1 v where
      d: "r = put_le (n :: u16) @ r1" "decode1 (VPtr (VDir zero_Dir)) r1 = Inr (v, r')"
        "t = VPtr (VMessage (MessageRstat (dir_at v)))"
      by (auto simp: bind_result_eq_Inr read_uint_eq_Inr_u is_dirs_def simp del: decode1.simps(11))
    moreover from decode_dir_loose [OF d(2)] obtain d b where
      "v = VPtr (VDir d)" "wf_dir d" "put_le n @ r1 = b @ r'" "loose_dir d b" by blast
    ultimately show ?thesis by (intro exI [of _ "MessageRstat d"]) auto
  next
    case (MessageTwstat fid0 d0)
    with m0 have "ty = Twstat" and d0: "d0 = zero_Dir"
      by (auto simp: newMessage_def split: if_splits)
    moreover from dec MessageTwstat d0 obtain n r1 v fid where
      d: "r = put_le (fid :: u32) @ put_le (n :: u16) @ r1" "decode1 (VPtr (VDir zero_Dir)) r1 = Inr (v, r')"
        "t = VPtr (VMessage (MessageTwstat fid (dir_at v)))"
      by (auto simp: bind_result_eq_Inr read_uint_eq_Inr_u is_dirs_def simp del: decode1.simps(11))
    moreover from decode_dir_loose [OF d(2)] obtain d b where
      "v = VPtr (VDir d)" "wf_dir d" "put_le n @ r1 = b @ r'" "loose_dir d b" by blast
    ultimately show ?thesis by (intro exI [of _ "MessageTwstat fid d"]) (auto intro!: exI [of _ "put_le fid @ b"])
  qed (simp_all add: is_stat_def)
qed

lemma decode_fcall_inv:
  assumes "decode1 (VPtr (VFcall t0)) r = Inr (t, r')"
  shows "\<exists>tag m. t = VPtr (VFcall (newFcall tag m)) \<and> wf_message m \<and>
           (\<exists>b. r = put_le (message_type m) @ put_le tag @ b @ r' \<and> loose_message m b)"
proof -
  from assms obtain ty tag r1 m0 v where r: "r = put_le (ty :: byte) @ put_le (tag :: u16) @ r1"
    and m0: "newMessage ty = Inr m0" and v: "decode1 (VPtr (VMessage m0)) r1 = Inr (v, r')"
    and t: "t = VPtr (VFcall \<lparr>fc_Type = ty, fc_Tag = tag, fc_Message = message_at v\<rparr>)"
    by (auto simp: bind_result_eq_Inr read_uint_eq_Inr_u is_dirs_def simp del: decode1.simps(14))
  from decode_message_inv [OF m0 v] obtain m where "v = VPtr (VMessage m)" "message_type m = ty"
    "wf_message m" "\<exists>b. r1 = b @ r' \<and> loose_message m b" by blast
  with r t show ?thesis by (auto simp: newFcall_def)
qed

section \<open>Errors of the decoder\<close>

definition io_errors :: "error set" where
  "io_errors = {EOF, UnexpectedEOF}"

lemma ReadFull_error: "ReadFull EOF n r = Inl e \<Longrightarrow> e \<in> io_errors"
  by (auto simp: ReadFull_def io_errors_def split: if_splits)

lemma read_uint_error: "read_uint r = Inl e \<Longrightarrow> e \<in> io_errors"
  by (auto simp: read_uint_def bind_result_eq_Inl dest: ReadFull_error)

lemmas io_error_dests = ReadFull_error read_uint_error

text \<open>A target whose decoding fails in no other way than at the end of the input.\<close>

definition io_only :: "gval \<Rightarrow> bool" where
  "io_only v \<longleftrightarrow> (\<forall>r e. decode1 v r = Inl e \<longrightarrow> e \<in> io_errors)"

lemma decode_list_error: "list_all io_only vs \<Longrightarrow> decode vs r = Inl e \<Longrightarrow> e \<in> io_errors"
  by (induction vs arbitrary: r)
     (auto simp: io_only_def bind_result_eq_Inl simp del: decode1.simps split: if_splits)

lemma list_all_replicate: "list_all P (replicate n x) \<longleftrightarrow> n = 0 \<or> P x"
  by (induction n) auto

lemma io_only_atoms [simp]:
  "io_only (VPtr (VU8 a))" "io_only (VPtr (VU16 b))" "io_only (VPtr (VU32 c))"
  "io_only (VPtr (VU64 d))" "io_only (VPtr (VBytes bs))" "io_only (VPtr (VString s))"
  "io_only (VPtr (VTime t))" "io_only (VPtr (VQid q))"
  by (auto simp: io_only_def bind_result_eq_Inl is_dirs_def dest: io_error_dests)

lemma io_only_lists [simp]: "io_only (VPtr (VStrings ss))" "io_only (VPtr (VQids qs))"
proof -
  have "list_all io_only (replicate n (VPtr (VString [])))"
    "list_all io_only (replicate n (VPtr (VQid zero_Qid)))" for n
    by (simp_all add: list_all_replicate)
  from this [THEN decode_list_error]
  show "io_only (VPtr (VStrings ss))" "io_only (VPtr (VQids qs))"
    by (auto simp: io_only_def bind_result_eq_Inl dest: io_error_dests)
qed

lemma io_only_dir [simp]: "io_only (VPtr (VDir d))"
proof -
  have "list_all io_only (map VPtr (dir_fields d))" by (simp add: dir_fields_def)
  from decode_list_error [OF this] show ?thesis
    by (auto simp: io_only_def bind_result_eq_Inl dest: io_error_dests)
qed

lemma io_only_field: "is_field z \<Longrightarrow> io_only (VPtr z)"
  by (cases z) simp_all

lemma io_only_message: "io_only (VPtr (VMessage m))"
proof (cases "is_stat m")
  case False
  have "list_all io_only (map VPtr (message_fields m))"
    using message_fields_ok(1) [of m] by (simp add: list_all_iff io_only_field)
  from decode_list_error [OF this] False show ?thesis
    by (auto simp: io_only_def decode1_message_fields bind_result_eq_Inl simp del: decode1.simps)
next
  case True
  have e: "decode [VPtr (VDir d)] r = Inl e \<Longrightarrow> e \<in> io_errors"
    "decode [VPtr (VU32 w)] r = Inl e \<Longrightarrow> e \<in> io_errors" for d w r e
    by (rule decode_list_error [rotated], assumption, simp)+
  from True show ?thesis
    by (cases m) (auto simp: io_only_def is_stat_def bind_result_eq_Inl
        simp del: decode.simps dest: io_error_dests e)
qed

lemma decode_fcall_error:
  "decode1 (VPtr (VFcall t)) r = Inl e \<Longrightarrow>
     e \<in> io_errors \<or> e = Errorf ''unknown message type''"
  using io_only_message
  by (auto simp: bind_result_eq_Inl io_only_def is_dirs_def newMessage_def
      simp del: decode1.simps(14) dest: io_error_dests split: if_splits)

section \<open>Lists of directory entries\<close>

abbreviation decode_entry :: "byte list \<Rightarrow> error + Dir \<times> byte list" where
  "decode_entry r \<equiv>
     bind_result (decode1 (VPtr (VDir zero_Dir)) r) (\<lambda>(t, r'). Inr (dir_at t, r'))"

lemma decode_entry_shrinks: "decode_entry r = Inr (d, r') \<Longrightarrow> length r' < length r"
  using decode_dir_inv [of r] by (auto simp: bind_result_eq_Inr simp del: decode1.simps)

lemma dirs_loop_fuel:
  "length r < n \<Longrightarrow> dirs_loop decode_entry n acc r = Inl e \<Longrightarrow> e \<in> io_errors"
proof (induction n arbitrary: acc r)
  case 0
  then show ?case by simp
next
  case (Suc n)
  show ?case
  proof (cases "decode_entry r")
    case (Inl e')
    with Suc.prems(2) have "decode1 (VPtr (VDir zero_Dir)) r = Inl e"
      by (auto simp: bind_result_eq_Inl simp del: decode1.simps split: if_splits)
    with io_only_dir [of zero_Dir] show ?thesis unfolding io_only_def by blast
  next
    case (Inr p)
    then obtain d r' where p: "decode_entry r = Inr (d, r')" by (cases p) auto
    from decode_entry_shrinks [OF p] Suc.prems(1) have "length r' < n" by simp
    moreover from p Suc.prems(2) have "dirs_loop decode_entry n (acc @ [d]) r' = Inl e"
      by (simp del: decode1.simps)
    ultimately show ?thesis by (rule Suc.IH)
  qed
qed

text \<open>What ends a listing without an error: no bytes, or a size with no entry behind it.\<close>

definition entry_end :: "byte list \<Rightarrow> bool" where
  "entry_end r \<longleftrightarrow> r = [] \<or> (\<exists>ll :: u16. r = put_le ll)"

lemma read_uint_Nil: "8 \<le> LENGTH('a::len) \<Longrightarrow> read_uint [] = (Inl EOF :: error + 'a word \<times> byte list)"
  by (simp add: read_uint_def ReadFull_def)

lemma decode_entry_end:
  assumes "entry_end r"
  shows "decode_entry r = Inl EOF"
proof (cases "r = []")
  case True
  then show ?thesis by (simp add: read_uint_Nil)
next
  case False
  with assms obtain ll :: u16 where r: "r = put_le ll" by (auto simp: entry_end_def)
  have "decode (map VPtr (dir_fields zero_Dir)) [] = Inl EOF"
    by (simp add: dir_fields_def read_uint_Nil)
  moreover have "read_uint (put_le ll) = Inr (ll, [])"
    using read_put_le_u(2) [of ll "[]"] by simp
  ultimately show ?thesis
    by (cases "unat ll = 0") (simp_all add: r ReadFull_def)
qed

lemma dirs_loop_entries:
  assumes "list_all wf_dir ds" and "entry_end r" and "length ds < n"
  shows "dirs_loop decode_entry n acc (concat (map w_dir ds) @ r) = Inr (acc @ ds)"
  using assms
proof (induction ds arbitrary: n acc)
  case Nil
  then show ?case by (cases n) (simp_all add: decode_entry_end del: decode1.simps)
next
  case (Cons d ds)
  then show ?case by (cases n) (simp_all add: decode_dir del: decode1.simps)
qed

section \<open>Properties of the codec\<close>

lemma Marshal_fcall: "Marshal (VPtr (VFcall f)) = Inr (w_fcall f)"
  by (simp add: Marshal_def encode_wire del: encode.simps)

lemma Unmarshal_fcall:
  "wf_fcall f \<Longrightarrow> Unmarshal (w_fcall f @ junk) (VPtr (VFcall t)) = Inr (VPtr (VFcall f))"
  by (simp add: Unmarshal_def decode_single is_dirs_def decode_fcall del: decode.simps decode1.simps)

lemma Unmarshal_fcall_eq:
  "Unmarshal data (VPtr (VFcall t)) =
     bind_result (decode1 (VPtr (VFcall t)) data) (\<lambda>(v, _). Inr v)"
  by (simp add: Unmarshal_def decode_single is_dirs_def bind_result_def split: sum.splits
      del: decode.simps decode1.simps)

text \<open>
  C1: marshalling a frame and unmarshalling the result gives the frame back, for every frame the
  wire format can carry, whatever bytes follow it and whatever the target held.
\<close>

theorem fcall_roundtrip:
  assumes "wf_fcall f"
  shows "\<exists>p. Marshal (VPtr (VFcall f)) = Inr p \<and>
             Unmarshal (p @ junk) (VPtr (VFcall t)) = Inr (VPtr (VFcall f))"
  using assms by (simp add: Marshal_fcall Unmarshal_fcall)

definition sample_walk :: Fcall where
  "sample_walk = newFcall 5666 (MessageTwalk 1010 1011 [''a'', ''b'', ''c''])"

definition sample_dir :: Dir where
  "sample_dir = zero_Dir
     \<lparr>d_Name := ''somedir'', d_AccessTime := time_unix_utc 1136171045,
      d_ModTime := time_unix_utc 1136171045\<rparr>"

lemma wf_sample_walk: "wf_fcall sample_walk"
  by (simp add: sample_walk_def wf_string_def)

lemma wf_sample_dir: "wf_dir sample_dir"
  by (simp add: sample_dir_def zero_Dir_def wf_dir_def wf_time_def time_unix_utc_def length_w_dir_body)

theorem fcall_roundtrip_witness:
  "wf_fcall sample_walk \<and>
   (\<exists>p. Marshal (VPtr (VFcall sample_walk)) = Inr p \<and>
        Unmarshal (p @ [0, 0, 0, 0]) (VPtr (VFcall zero_Fcall)) = Inr (VPtr (VFcall sample_walk)))"
  using wf_sample_walk fcall_roundtrip [OF wf_sample_walk] by blast



text \<open>
  C8: the reflective encoder implements the wire format and never fails, and the size it
  announces is the number of bytes it writes, modulo the width of the \<open>uint32\<close> it is counted in.
\<close>

theorem marshal_refines_wire:
  "Marshal (VPtr (VFcall f)) = Inr (w_fcall f) \<and>
   Size (VPtr (VFcall f)) = int (length (w_fcall f) mod 2 ^ 32)"
  by (simp add: Marshal_fcall Size_def size_exact uint_nat unat_of_nat take_bit_eq_mod
      del: size9p.simps size1.simps)

text \<open>
  C10: unmarshalling a frame always returns, and it fails in three ways only: at the end of the
  input, in the middle of a value, or on a type byte that is no message type.
\<close>

theorem unmarshal_errors:
  assumes "Unmarshal data (VPtr (VFcall t)) = Inl e"
  shows "e \<in> {EOF, UnexpectedEOF, Errorf ''unknown message type''}"
  using assms decode_fcall_error [of t data e]
  by (auto simp: Unmarshal_fcall_eq bind_result_eq_Inl io_errors_def simp del: decode1.simps)

theorem unmarshal_errors_witness:
  "\<exists>e. Unmarshal [] (VPtr (VFcall zero_Fcall)) = Inl e \<and>
       e \<in> {EOF, UnexpectedEOF, Errorf ''unknown message type''}"
proof -
  have "Unmarshal [] (VPtr (VFcall zero_Fcall)) = Inl EOF"
    by (simp add: Unmarshal_def read_uint_Nil)
  with unmarshal_errors [OF this] show ?thesis by blast
qed

lemma Marshal_dirs: "Marshal (VDirs ds) = Inr (concat (map w_dir ds))"
  by (simp add: Marshal_def encode_wire del: encode.simps)

lemma length_concat_dirs: "length ds \<le> length (concat (map w_dir ds))"
  by (induction ds) simp_all

lemma Unmarshal_dirs:
  assumes "list_all wf_dir ds" and "entry_end r"
  shows "Unmarshal (concat (map w_dir ds) @ r) (VPtr (VDirs t)) = Inr (VPtr (VDirs ds))"
proof -
  have "length ds < Suc (length (concat (map w_dir ds) @ r))"
    using length_concat_dirs [of ds] by simp
  from dirs_loop_entries [OF assms this, of "[]"] show ?thesis
    by (simp add: Unmarshal_def is_dirs_def del: decode1.simps(11) dirs_loop.simps)
qed

text \<open>C30: a list of directory entries is read back as it was written.\<close>

theorem dirs_roundtrip:
  assumes "list_all wf_dir ds"
  shows "\<exists>p. Marshal (VDirs ds) = Inr p \<and> Unmarshal p (VPtr (VDirs t)) = Inr (VPtr (VDirs ds))"
  using Unmarshal_dirs [OF assms, of "[]"] by (simp add: Marshal_dirs entry_end_def)

theorem dirs_roundtrip_witness:
  "list_all wf_dir [sample_dir, sample_dir] \<and>
   (\<exists>p. Marshal (VDirs [sample_dir, sample_dir]) = Inr p \<and>
        Unmarshal p (VPtr (VDirs [])) = Inr (VPtr (VDirs [sample_dir, sample_dir])))"
proof -
  have "list_all wf_dir [sample_dir, sample_dir]" by (simp add: wf_sample_dir)
  with dirs_roundtrip [OF this] show ?thesis by blast
qed

text \<open>
  A listing that is cut off right behind the size of an entry is accepted as if it had ended
  before that entry: the \<open>EOF\<close> met inside the entry is taken for the end of the list.
\<close>

theorem dirs_truncation_unnoticed:
  assumes "list_all wf_dir ds"
  shows "Unmarshal (concat (map w_dir ds) @ put_le (ll :: u16)) (VPtr (VDirs t)) =
           Inr (VPtr (VDirs ds))"
  using Unmarshal_dirs [OF assms, of "put_le ll"] by (auto simp: entry_end_def)

theorem dirs_truncation_unnoticed_witness:
  "list_all wf_dir [sample_dir] \<and>
   Unmarshal (concat (map w_dir [sample_dir]) @ put_le (54 :: u16)) (VPtr (VDirs [])) =
     Inr (VPtr (VDirs [sample_dir]))"
proof -
  have "list_all wf_dir [sample_dir]" by (simp add: wf_sample_dir)
  with dirs_truncation_unnoticed [OF this] show ?thesis by blast
qed

lemma DecodeDir_size: "unat (ll + 2 :: u16) < 2 \<longleftrightarrow> 65534 \<le> unat ll"
proof -
  have s: "unat (ll + 2) = (unat ll + 2) mod 65536" by (simp add: unat_word_ariths)
  show ?thesis
  proof (cases "65534 \<le> unat ll")
    case True
    then have "(unat ll + 2) mod 65536 = unat ll + 2 - 65536"
      using unat_u16_bound [of ll] by (simp add: le_mod_geq)
    with True s unat_u16_bound [of ll] show ?thesis by simp
  next
    case False
    then show ?thesis by (simp add: s)
  qed
qed

lemma DecodeDir_entry:
  assumes "wf_dir d" and "length (w_dir_body d) < 65534"
  shows "DecodeDir (w_dir d @ r) = Inr (d, r)"
proof -
  let ?n = "length (w_dir_body d)" and ?ll = "word_of_nat (length (w_dir_body d)) :: u16"
  have ll: "unat ?ll = ?n" using assms(2) by (simp add: unat_word_of_nat_u16)
  then have n: "unat (?ll + 2) = ?n + 2" using assms(2) by (simp add: unat_word_ariths)
  have "Unmarshal (w_dir d) (VPtr (VDir zero_Dir)) = Inr (VPtr (VDir d))"
    using decode_dir [OF assms(1), of zero_Dir "[]"]
    by (simp add: Unmarshal_def is_dirs_def del: decode1.simps)
  with n show ?thesis by (simp add: DecodeDir_def w_dir_def)
qed

lemma EncodeDir_entry: "EncodeDir d = Inr (w_dir d)"
  by (simp add: EncodeDir_def Marshal_def encode_wire del: encode.simps)

lemma DecodeDir_panic:
  "DecodeDir (put_le (ll :: u16) @ r) = Inl (Panic ''index out of range'') \<longleftrightarrow> 65534 \<le> unat ll"
proof -
  have "Unmarshal p (VPtr (VDir zero_Dir)) \<noteq> Inl (Panic s)" for p s
    using io_only_dir [of zero_Dir]
    by (auto simp: Unmarshal_def decode_single is_dirs_def bind_result_eq_Inl io_only_def io_errors_def
        simp del: decode.simps decode1.simps)
  moreover have "ReadFull EOF n r \<noteq> Inl (Panic s)" for n s
    using ReadFull_error [of n r "Panic s"] by (auto simp: io_errors_def)
  ultimately show ?thesis
    by (auto simp: DecodeDir_def DecodeDir_size bind_result_eq_Inl Let_def)
qed

text \<open>
  C31: reading an entry from a stream gives back the entry that was encoded there and leaves the
  stream behind it, but the buffer size overflows \<open>uint16\<close> for the two largest sizes, and the
  reader panics on exactly those.
\<close>

theorem decodedir_stream:
  "(wf_dir d \<and> length (w_dir_body d) < 65534 \<longrightarrow>
      (\<exists>p. EncodeDir d = Inr p \<and> DecodeDir (p @ r) = Inr (d, r))) \<and>
   (DecodeDir (put_le (ll :: u16) @ r) = Inl (Panic ''index out of range'') \<longleftrightarrow> 65534 \<le> unat ll)"
  by (simp add: EncodeDir_entry DecodeDir_entry DecodeDir_panic)

theorem decodedir_stream_witness:
  "(\<exists>p. EncodeDir sample_dir = Inr p \<and> DecodeDir (p @ [1, 2, 3]) = Inr (sample_dir, [1, 2, 3])) \<and>
   DecodeDir (put_le (65535 :: u16) @ [1, 2, 3]) = Inl (Panic ''index out of range'')"
proof -
  have "length (w_dir_body sample_dir) < 65534"
    by (simp add: length_w_dir_body sample_dir_def zero_Dir_def)
  moreover have "65534 \<le> unat (65535 :: u16)" by simp
  ultimately show ?thesis
    using decodedir_stream [of sample_dir "[1, 2, 3]" 65535] wf_sample_dir by blast
qed

text \<open>
  For a pointer to a byte slice the announced size counts the length prefix twice: it is four
  more than the number of bytes written.
\<close>

theorem ptr_bytes_size_overcounts:
  assumes "length b + 8 < 2 ^ 32"
  shows "\<exists>p. Marshal (VPtr (VBytes b)) = Inr p \<and> Size (VPtr (VBytes b)) = int (length p) + 4"
proof -
  have "size9p [VPtr (VBytes b)] = word_of_nat (length b + 8)" by simp
  moreover have "unat (word_of_nat (length b + 8) :: u32) = length b + 8"
    by (rule unat_word_of_nat_u32) (use assms in simp)
  ultimately have "Size (VPtr (VBytes b)) = int (length b + 8)"
    by (simp only: Size_def uint_nat)
  then show ?thesis
    by (simp add: Marshal_def encode_wire del: encode.simps)
qed

theorem ptr_bytes_size_overcounts_witness:
  "length [1, 2, 3 :: byte] + 8 < 2 ^ 32 \<and>
   (\<exists>p. Marshal (VPtr (VBytes [1, 2, 3])) = Inr p \<and>
        Size (VPtr (VBytes [1, 2, 3])) = int (length p) + 4)"
  using ptr_bytes_size_overcounts [of "[1, 2, 3]"] by simp

end
