(* ===== verification/P9_Channel.thy ===== *)
theory P9_Channel
  imports P9_Codec_Correct
begin

text \<open>
  The message channel of \<^verbatim>\<open>channel.go\<close>: framing of marshalled messages by a 4-byte size,
  the limit \<open>msize\<close> on the size of a frame, and the truncation of messages that exceed it.

  The state of a channel holds the codec, the bytes that are still to come from the connection
  and the error the connection reports behind them (\<open>EOF\<close>, a time-out), the bytes the
  connection has taken and, if it will fail, the number of bytes that it still takes and the error
  that it then reports, the \<open>closed\<close> flag, \<open>msize\<close> and the read buffer.  A context is the error it has been cancelled with, if any; setting the
  deadline of the connection only logs its errors and is left out.
\<close>

section \<open>State\<close>

record codec =
  co_Marshal :: "gval \<Rightarrow> error + byte list"
  co_Unmarshal :: "byte list \<Rightarrow> gval \<Rightarrow> error + gval"
  co_Size :: "gval \<Rightarrow> int"

definition codec9p :: codec where
  "codec9p = \<lparr>co_Marshal = Marshal, co_Unmarshal = Unmarshal, co_Size = Size\<rparr>"

type_synonym Context = "error option"

record channel =
  ch_codec :: codec
  ch_in :: "byte list"
  ch_in_end :: error
  ch_out :: "byte list"
  ch_out_err :: "(nat \<times> error) option"
  ch_closed :: bool
  ch_msize :: int
  ch_rdbuf :: "byte list"

definition channelMessageHeaderSize :: int where
  "channelMessageHeaderSize = 4"

definition fresh_channel :: "codec \<Rightarrow> int \<Rightarrow> channel" where
  "fresh_channel cd msize =
     \<lparr>ch_codec = cd, ch_in = [], ch_in_end = EOF, ch_out = [], ch_out_err = None,
      ch_closed = False, ch_msize = msize, ch_rdbuf = replicate (nat msize) 0\<rparr>"

text \<open>\<^verbatim>\<open>make([]byte, msize)\<close> panics for a negative size.\<close>

definition newChannel :: "codec \<Rightarrow> int \<Rightarrow> error + channel" where
  "newChannel cd msize =
     (if msize < 0 then Inl (Panic ''makeslice: len out of range'') else Inr (fresh_channel cd msize))"

definition MSize :: "channel \<Rightarrow> int" where
  "MSize ch = ch_msize ch"

definition SetMSize :: "int \<Rightarrow> channel \<Rightarrow> channel" where
  "SetMSize msize ch =
     (let ch' = ch\<lparr>ch_msize := msize\<rparr> in
      if msize < int (length (ch_rdbuf ch'))
      then ch'\<lparr>ch_rdbuf := take (nat msize) (ch_rdbuf ch')\<rparr>
      else ch'\<lparr>ch_rdbuf := replicate (nat msize) 0\<rparr>)"

section \<open>Framing\<close>

text \<open>
  \<open>readmsg\<close> reads a frame from the stream \<open>r\<close> (which ends in the error \<open>e\<close>) into the
  buffer \<open>p\<close>.  It returns the number of bytes of the frame or the error, the buffer and the
  rest of the stream; the count that the code returns beside an error is not used by its
  caller.  A size below 4 makes the body size negative, and slicing \<open>p\<close> with it panics.
\<close>

definition readmsg :: "error \<Rightarrow> byte list \<Rightarrow> byte list \<Rightarrow> (error + nat) \<times> byte list \<times> byte list" where
  "readmsg e r p =
     (case ReadFull e 4 r of
        Inl err \<Rightarrow> (Inl err, p, [])
      | Inr (hdr, r1) \<Rightarrow>
          (let mbody = uint (get_le hdr :: u32) - 4 in
           if mbody < 0 then (Inl (Panic ''slice bounds out of range''), p, r1)
           else
             (let n = nat mbody; k = min n (length p) in
              case ReadFull e k r1 of
                Inl err \<Rightarrow> (Inl err, r1 @ drop (length r1) p, [])
              | Inr (b, r2) \<Rightarrow>
                  (let p' = b @ drop k p in
                   if length p < n
                   then (if n - length p \<le> length r2
                         then (Inr (4 + n), p', drop (n - length p) r2)
                         else (Inl e, p', []))
                   else (Inr (4 + k), p', r2)))))"

text \<open>\<open>sendmsg\<close>: the bytes that are put on the wire for a marshalled message.\<close>

definition sendmsg :: "byte list \<Rightarrow> byte list" where
  "sendmsg p = put_le (word_of_nat (length p + 4) :: u32) @ p"

section \<open>Truncation\<close>

definition msgmsize :: "channel \<Rightarrow> Fcall \<Rightarrow> int" where
  "msgmsize ch fcall = channelMessageHeaderSize + co_Size (ch_codec ch) (VPtr (VFcall fcall))"

definition maybeTruncate :: "channel \<Rightarrow> Fcall \<Rightarrow> error + Fcall" where
  "maybeTruncate ch fcall =
     (case fc_Message fcall of
        Some (MessageTread fid offset count) \<Rightarrow>
          (let resp = newFcall (fc_Tag fcall) (MessageRread []);
               overflow = word_of_int (msgmsize ch resp) + count - word_of_int (ch_msize ch) in
           if count < overflow then Inr fcall
           else Inr (fcall\<lparr>fc_Message := Some (MessageTread fid offset (count - overflow))\<rparr>))
      | Some (MessageTwrite fid offset data) \<Rightarrow>
          (let size = msgmsize ch fcall in
           if size \<le> ch_msize ch then Inr fcall
           else
             (let overflow = size - ch_msize ch in
              if int (length data) < overflow then Inl (OverflowErr overflow)
              else Inr (fcall\<lparr>fc_Message :=
                Some (MessageTwrite fid offset (take (nat (int (length data) - overflow)) data))\<rparr>)))
      | _ \<Rightarrow>
          (let size = msgmsize ch fcall in
           if ch_msize ch < size then Inl (OverflowErr (size - ch_msize ch)) else Inr fcall))"

section \<open>Reading and writing frames\<close>

definition ReadFcall :: "Context \<Rightarrow> channel \<Rightarrow> (error + Fcall) \<times> channel" where
  "ReadFcall ctx ch =
     (case ctx of
        Some err \<Rightarrow> (Inl err, ch)
      | None \<Rightarrow>
          if ch_closed ch then (Inl ErrClosed, ch)
          else
            (case readmsg (ch_in_end ch) (ch_in ch) (ch_rdbuf ch) of
               (res, p, rest) \<Rightarrow>
                 (let ch' = ch\<lparr>ch_in := rest, ch_rdbuf := p\<rparr> in
                  case res of
                    Inl err \<Rightarrow> (Inl err, ch')
                  | Inr n \<Rightarrow>
                      if length (ch_rdbuf ch') < n
                      then (Inl (OverflowErr (int n - int (length (ch_rdbuf ch')))), ch')
                      else
                        (case co_Unmarshal (ch_codec ch') (take n (ch_rdbuf ch'))
                                (VPtr (VFcall zero_Fcall)) of
                           Inr (VPtr (VFcall fcall)) \<Rightarrow> (maybeTruncate ch' fcall, ch')
                         | Inr _ \<Rightarrow> (Inl (Panic ''decode changed the type of its target''), ch')
                         | Inl err \<Rightarrow> (Inl err, ch')))))"

text \<open>
  \<open>WriteFcall\<close> returns the frame as it was sent, since \<open>maybeTruncate\<close> changes it in place.
  The writes go through a \<^verbatim>\<open>bufio.Writer\<close>.  A connection that fails may have taken a part of the
  frame, or all of it; the writer keeps the error, so that every later write and flush reports it
  and nothing more reaches the connection.
\<close>

definition WriteFcall :: "Context \<Rightarrow> channel \<Rightarrow> Fcall \<Rightarrow> (error + Fcall) \<times> channel" where
  "WriteFcall ctx ch fcall =
     (case ctx of
        Some err \<Rightarrow> (Inl err, ch)
      | None \<Rightarrow>
          if ch_closed ch then (Inl ErrClosed, ch)
          else
            (case maybeTruncate ch fcall of
               Inl err \<Rightarrow> (Inl err, ch)
             | Inr fcall' \<Rightarrow>
                 (case co_Marshal (ch_codec ch) (VPtr (VFcall fcall')) of
                    Inl err \<Rightarrow> (Inl err, ch)
                  | Inr p \<Rightarrow>
                      (case ch_out_err ch of
                         None \<Rightarrow> (Inr fcall', ch\<lparr>ch_out := ch_out ch @ sendmsg p\<rparr>)
                       | Some (room, err) \<Rightarrow>
                           if length (sendmsg p) < room
                           then (Inr fcall', ch\<lparr>ch_out := ch_out ch @ sendmsg p,
                                                ch_out_err := Some (room - length (sendmsg p), err)\<rparr>)
                           else (Inl err, ch\<lparr>ch_out := ch_out ch @ take room (sendmsg p),
                                             ch_out_err := Some (0, err)\<rparr>)))))"


section \<open>Framing is lossless\<close>

lemma readmsg_sendmsg:
  assumes "length p + 4 < 4294967296"
  shows "readmsg e (sendmsg p @ rest) buf =
           (Inr (4 + length p), take (length buf) p @ drop (length p) buf, rest)"
proof -
  have "uint (word_of_nat (length p + 4) :: u32) = int (length p) + 4"
    using unat_word_of_nat_u32 [OF assms] by (metis int_plus of_nat_numeral uint_nat)
  then have sz: "uint (word_of_nat (length p + 4) :: u32) - 4 = int (length p)" by simp
  have "ReadFull e (min (length p) (length buf)) (p @ rest) =
          Inr (take (length buf) p, drop (length buf) p @ rest)"
    by (cases "length p \<le> length buf") (simp_all add: ReadFull_def)
  with sz show ?thesis
    by (cases "length p \<le> length buf") (simp_all add: readmsg_def sendmsg_def Let_def diff_le_mono)
qed

lemma readmsg_panic:
  assumes "uint (sz :: u32) < 4"
  shows "readmsg e (put_le sz @ rest) buf = (Inl (Panic ''slice bounds out of range''), buf, rest)"
  using assms by (simp add: readmsg_def Let_def)

lemma readmsg_no_panic:
  assumes "e \<noteq> Panic s" and "4 \<le> length r \<Longrightarrow> 4 \<le> uint (get_le (take 4 r) :: u32)"
  shows "fst (readmsg e r buf) \<noteq> Inl (Panic s)"
  using assms by (auto simp: readmsg_def ReadFull_def Let_def)

section \<open>What a channel promises\<close>

text \<open>
  The contract of \<open>maybeTruncate\<close>, in unbounded arithmetic: the count of a read is limited so
  that the reply fits, the data of a write is cut so that the request fits, any other message
  must fit.  An \<open>Rread\<close> reply has 11 bytes beside its data, a \<open>Twrite\<close> request 23.
\<close>

definition fit_frame :: "int \<Rightarrow> Fcall \<Rightarrow> error + Fcall" where
  "fit_frame msize f =
     (case fc_Message f of
        Some (MessageTread fid offset count) \<Rightarrow>
          Inr (f\<lparr>fc_Message := Some (MessageTread fid offset
                  (word_of_int (min (uint count) (msize - 11))))\<rparr>)
      | Some (MessageTwrite fid offset data) \<Rightarrow>
          if 23 \<le> msize
          then Inr (f\<lparr>fc_Message := Some (MessageTwrite fid offset (take (nat (msize - 23)) data))\<rparr>)
          else Inl (OverflowErr (23 + int (length data) - msize))
      | _ \<Rightarrow>
          if 4 + int (length (w_fcall f)) \<le> msize then Inr f
          else Inl (OverflowErr (4 + int (length (w_fcall f)) - msize)))"

text \<open>A channel as \<open>newChannel\<close> and \<open>SetMSize\<close> leave it, with room for a \<open>Tread\<close> frame.\<close>

definition chan_ready :: "codec \<Rightarrow> channel \<Rightarrow> bool" where
  "chan_ready cd ch \<longleftrightarrow>
     ch_codec ch = cd \<and> \<not> ch_closed ch \<and> 23 \<le> ch_msize ch \<and> ch_msize ch < 4294967296 \<and>
     int (length (ch_rdbuf ch)) = ch_msize ch"

text \<open>Writing frames one after the other (those that are sent are returned), and reading \<open>n\<close>.\<close>

fun send_all :: "channel \<Rightarrow> Fcall list \<Rightarrow> Fcall list \<times> channel" where
  "send_all ch [] = ([], ch)"
| "send_all ch (f # fs) =
     (case WriteFcall None ch f of
        (Inl _, ch') \<Rightarrow> send_all ch' fs
      | (Inr f', ch') \<Rightarrow> (case send_all ch' fs of (sent, ch'') \<Rightarrow> (f' # sent, ch'')))"

fun recv_n :: "nat \<Rightarrow> channel \<Rightarrow> (error + Fcall) list \<times> channel" where
  "recv_n 0 ch = ([], ch)"
| "recv_n (Suc n) ch =
     (case ReadFcall None ch of
        (res, ch') \<Rightarrow> (case recv_n n ch' of (ress, ch'') \<Rightarrow> (res # ress, ch'')))"

lemma chan_ready_new:
  "23 \<le> msize \<Longrightarrow> msize < 4294967296 \<Longrightarrow>
     newChannel cd msize = Inr (fresh_channel cd msize) \<and> chan_ready cd (fresh_channel cd msize)"
  by (simp add: chan_ready_def newChannel_def fresh_channel_def)

lemma chan_ready_SetMSize:
  "chan_ready cd ch \<Longrightarrow> 23 \<le> msize \<Longrightarrow> msize < 4294967296 \<Longrightarrow> chan_ready cd (SetMSize msize ch)"
  by (auto simp: chan_ready_def SetMSize_def Let_def min_def)

section \<open>The codec a channel relies on\<close>

lemma word_of_int_mono_u32:
  assumes "0 \<le> a" and "a \<le> b" and "b < 4294967296"
  shows "(word_of_int a :: u32) \<le> word_of_int b"
  using assms by (simp add: word_le_def unsigned_of_int take_bit_int_eq_self)

lemma sub_overflow_min: "(if c < c - x then c else x) = min c (x :: 'a::len word)"
proof (cases "c < x")
  case True
  then have "uint (c - x) = uint c - uint x + 2 ^ LENGTH('a)"
    by (simp add: uint_sub_if' word_less_def)
  moreover have "uint x < 2 ^ LENGTH('a)" by (rule uint_lt2p)
  ultimately have "c < c - x" by (simp add: word_less_def)
  with True show ?thesis by (simp add: min.absorb1 order.strict_implies_order)
next
  case False
  then have "c - x \<le> c" by (simp add: word_sub_le)
  with False show ?thesis by (auto simp: min_def)
qed

text \<open>
  The laws of the interface \<^verbatim>\<open>Codec\<close>: frames are marshalled to the wire format, \<open>Size\<close> is
  the length of the result in \<open>uint32\<close> arithmetic, and unmarshalling reads a frame back and
  ignores what follows it.
\<close>

locale codec_laws =
  fixes cd :: codec
  assumes marshal_wire: "co_Marshal cd (VPtr (VFcall f)) = Inr (w_fcall f)"
    and size_wire: "co_Size cd (VPtr (VFcall f)) = int (length (w_fcall f) mod 4294967296)"
    and unmarshal_wire: "wf_fcall f \<Longrightarrow>
      co_Unmarshal cd (w_fcall f @ junk) (VPtr (VFcall zero_Fcall)) = Inr (VPtr (VFcall f))"
begin

lemma msgmsize_wire:
  assumes "ch_codec ch = cd" and "length (w_fcall f) < 4294967296"
  shows "msgmsize ch f = 4 + int (length (w_fcall f))"
  using assms by (simp add: msgmsize_def channelMessageHeaderSize_def size_wire)

lemma truncate_tread:
  assumes "ch_codec ch = cd" and "fc_Message f = Some (MessageTread fid offset count)"
  shows "maybeTruncate ch f =
    Inr (f\<lparr>fc_Message := Some (MessageTread fid offset (min count (word_of_int (ch_msize ch - 11))))\<rparr>)"
proof -
  let ?x = "word_of_int (ch_msize ch - 11) :: u32"
  have resp: "msgmsize ch (newFcall (fc_Tag f) (MessageRread [])) = 11"
    using assms(1) by (simp add: msgmsize_wire w_newFcall)
  have ov: "word_of_int 11 + count - word_of_int (ch_msize ch) = count - ?x" by simp
  have same: "f\<lparr>fc_Message := Some (MessageTread fid offset count)\<rparr> = f"
    using assms(2) by (cases f) simp
  show ?thesis
    unfolding maybeTruncate_def assms(2) option.case Message.case Let_def resp ov
      sub_overflow_min [of count ?x, symmetric]
    by (simp add: same)
qed

lemma truncate_twrite:
  assumes "ch_codec ch = cd" and "fc_Message f = Some (MessageTwrite fid offset data)"
    and "length (w_fcall f) < 4294967296"
  shows "maybeTruncate ch f =
    (if 23 \<le> ch_msize ch
     then Inr (f\<lparr>fc_Message := Some (MessageTwrite fid offset (take (nat (ch_msize ch - 23)) data))\<rparr>)
     else Inl (OverflowErr (23 + int (length data) - ch_msize ch)))"
proof -
  have "length (w_fcall f) = 19 + length data" using assms(2) by (simp add: w_fcall_def)
  then have "msgmsize ch f = 23 + int (length data)" using assms by (simp add: msgmsize_wire)
  moreover have "f\<lparr>fc_Message := Some (MessageTwrite fid offset data)\<rparr> = f"
    using assms(2) by (cases f) simp
  ultimately show ?thesis
    using assms(2) by (auto simp: maybeTruncate_def Let_def nat_diff_distrib)
qed

lemma truncate_other:
  assumes "ch_codec ch = cd" and "length (w_fcall f) < 4294967296"
    and "\<forall>fid offset count. fc_Message f \<noteq> Some (MessageTread fid offset count)"
    and "\<forall>fid offset data. fc_Message f \<noteq> Some (MessageTwrite fid offset data)"
  shows "maybeTruncate ch f =
    (if 4 + int (length (w_fcall f)) \<le> ch_msize ch then Inr f
     else Inl (OverflowErr (4 + int (length (w_fcall f)) - ch_msize ch)))"
  using assms by (auto simp: maybeTruncate_def Let_def msgmsize_wire split: option.splits Message.splits)

lemma truncate_cases:
  assumes ch: "ch_codec ch = cd" and len: "length (w_fcall f) < 4294967296"
    and t: "maybeTruncate ch f = Inr f'"
  obtains (tread) fid off c where "fc_Message f = Some (MessageTread fid off c)"
      "f' = f\<lparr>fc_Message := Some (MessageTread fid off (min c (word_of_int (ch_msize ch - 11))))\<rparr>"
  | (twrite) fid off d where "fc_Message f = Some (MessageTwrite fid off d)"
      "f' = f\<lparr>fc_Message := Some (MessageTwrite fid off (take (nat (ch_msize ch - 23)) d))\<rparr>"
      "23 \<le> ch_msize ch"
  | (other) "\<forall>fid off c. fc_Message f \<noteq> Some (MessageTread fid off c)"
      "\<forall>fid off d. fc_Message f \<noteq> Some (MessageTwrite fid off d)"
      "f' = f" "4 + int (length (w_fcall f)) \<le> ch_msize ch"
proof -
  consider (r) fid off c where "fc_Message f = Some (MessageTread fid off c)"
    | (w) fid off d where "fc_Message f = Some (MessageTwrite fid off d)"
    | (o) "\<forall>fid off c. fc_Message f \<noteq> Some (MessageTread fid off c)"
        "\<forall>fid off d. fc_Message f \<noteq> Some (MessageTwrite fid off d)"
    by blast
  then show ?thesis
  proof cases
    case r
    show ?thesis by (rule tread [OF r]) (use t truncate_tread [OF ch r] in simp)
  next
    case w
    show ?thesis
      by (rule twrite [OF w]) (use t truncate_twrite [OF ch w len] in \<open>simp_all split: if_splits\<close>)
  next
    case o
    show ?thesis
      by (rule other [OF o]) (use t truncate_other [OF ch len o] in \<open>simp_all split: if_splits\<close>)
  qed
qed

lemma truncate_wf:
  assumes "ch_codec ch = cd" and "wf_fcall f" and "length (w_fcall f) < 4294967296"
    and "maybeTruncate ch f = Inr f'"
  shows "wf_fcall f' \<and> fc_Tag f' = fc_Tag f \<and> fc_Type f' = fc_Type f \<and>
         length (w_fcall f') \<le> length (w_fcall f)"
  using assms(1,3,4)
  by (cases rule: truncate_cases) (use assms(2) in \<open>simp_all add: wf_fcall_def w_fcall_def min.strict_coboundedI1\<close>)

lemma truncate_fits:
  assumes "ch_codec ch = cd" and "length (w_fcall f) < 4294967296" and "maybeTruncate ch f = Inr f'"
    and "23 \<le> ch_msize ch"
  shows "4 + int (length (w_fcall f')) \<le> ch_msize ch"
  using assms(1-3)
  by (cases rule: truncate_cases) (use assms(4) in \<open>simp_all add: w_fcall_def\<close>)

lemma truncate_stable:
  assumes ch: "ch_codec ch = cd" "ch_codec ch2 = cd" and len: "length (w_fcall f) < 4294967296"
    and m: "23 \<le> ch_msize ch" "ch_msize ch \<le> ch_msize ch2" "ch_msize ch2 < 4294967296"
    and t: "maybeTruncate ch f = Inr f'"
  shows "maybeTruncate ch2 f' = Inr f'"
  using ch(1) len t
proof (cases rule: truncate_cases)
  case (tread fid off c)
  let ?c = "min c (word_of_int (ch_msize ch - 11))"
  have "(word_of_int (ch_msize ch - 11) :: u32) \<le> word_of_int (ch_msize ch2 - 11)"
    by (rule word_of_int_mono_u32) (use m in simp_all)
  then have "min ?c (word_of_int (ch_msize ch2 - 11)) = ?c"
    by (intro min.absorb1) (rule order_trans [OF min.cobounded2])
  moreover have "fc_Message f' = Some (MessageTread fid off ?c)" using tread(2) by simp
  moreover have "f'\<lparr>fc_Message := Some (MessageTread fid off ?c)\<rparr> = f'" using tread(2) by simp
  ultimately show ?thesis
    using truncate_tread [OF ch(2), of f' fid off ?c] by metis
next
  case (twrite fid off d)
  have "length (w_fcall f') < 4294967296" using len twrite by (simp add: w_fcall_def)
  from truncate_twrite [OF ch(2) _ this] show ?thesis
    using m twrite by (simp add: min.absorb2 nat_mono)
next
  case other
  with m truncate_other [OF ch(2) len] show ?thesis by simp
qed

lemma truncate_spec:
  assumes "ch_codec ch = cd" and "length (w_fcall f) < 4294967296" and "11 \<le> ch_msize ch"
    and "ch_msize ch < 4294967296"
  shows "maybeTruncate ch f = fit_frame (ch_msize ch) f"
proof -
  have "uint (word_of_int (ch_msize ch - 11) :: u32) = ch_msize ch - 11"
    using assms(3,4) by (simp add: unsigned_of_int take_bit_int_eq_self del: of_int_diff)
  then have tr: "min c (word_of_int (ch_msize ch - 11)) = word_of_int (min (uint c) (ch_msize ch - 11))"
    for c :: u32
    by (simp add: min_def word_le_def del: of_int_diff)
  consider (r) fid off c where "fc_Message f = Some (MessageTread fid off c)"
    | (w) fid off d where "fc_Message f = Some (MessageTwrite fid off d)"
    | (o) "\<forall>fid off c. fc_Message f \<noteq> Some (MessageTread fid off c)"
        "\<forall>fid off d. fc_Message f \<noteq> Some (MessageTwrite fid off d)"
    by blast
  then show ?thesis
  proof cases
    case r
    then show ?thesis unfolding truncate_tread [OF assms(1) r] tr by (simp add: fit_frame_def)
  next
    case w
    then show ?thesis unfolding truncate_twrite [OF assms(1) w assms(2)] by (simp add: fit_frame_def)
  next
    case o
    then show ?thesis unfolding truncate_other [OF assms(1,2) o] fit_frame_def
      by (simp split: option.splits Message.splits)
  qed
qed

lemma write_ok:
  assumes "chan_ready cd ch" and "ch_out_err ch = None" and "maybeTruncate ch f = Inr f'"
  shows "WriteFcall None ch f = (Inr f', ch\<lparr>ch_out := ch_out ch @ sendmsg (w_fcall f')\<rparr>)"
  using assms by (simp add: WriteFcall_def chan_ready_def marshal_wire)

lemma write_fails:
  assumes "maybeTruncate ch f = Inl e" and "chan_ready cd ch"
  shows "WriteFcall None ch f = (Inl e, ch)"
  using assms by (simp add: WriteFcall_def chan_ready_def)

lemma write_fit:
  assumes "chan_ready cd ch" and "ch_out_err ch = None" and "length (w_fcall f) < 4294967296"
  shows "WriteFcall None ch f =
    (case fit_frame (ch_msize ch) f of
       Inl e \<Rightarrow> (Inl e, ch)
     | Inr f' \<Rightarrow> (Inr f', ch\<lparr>ch_out := ch_out ch @ sendmsg (w_fcall f')\<rparr>))"
  using truncate_spec [of ch f] assms
  by (auto simp: write_ok write_fails chan_ready_def split: sum.splits)

lemma read_frame:
  assumes "chan_ready cd ch" and "ch_in ch = sendmsg p @ rest" and "length p + 4 < 4294967296"
  shows "ReadFcall None ch =
    (let ch' = ch\<lparr>ch_in := rest, ch_rdbuf := take (length (ch_rdbuf ch)) p @ drop (length p) (ch_rdbuf ch)\<rparr>
     in (if length (ch_rdbuf ch) < 4 + length p
         then Inl (OverflowErr (4 + int (length p) - int (length (ch_rdbuf ch))))
         else (case co_Unmarshal cd (p @ take 4 (drop (length p) (ch_rdbuf ch))) (VPtr (VFcall zero_Fcall)) of
                 Inr (VPtr (VFcall fcall)) \<Rightarrow> maybeTruncate ch' fcall
               | Inr _ \<Rightarrow> Inl (Panic ''decode changed the type of its target'')
               | Inl err \<Rightarrow> Inl err), ch'))"
proof -
  have "length (take (length (ch_rdbuf ch)) p @ drop (length p) (ch_rdbuf ch)) = length (ch_rdbuf ch)"
    by simp
  then show ?thesis
    using assms(1)
    by (auto simp: ReadFcall_def assms(2) readmsg_sendmsg [OF assms(3)] Let_def chan_ready_def
        split: sum.splits gval.splits)
qed

lemma read_ok:
  assumes "chan_ready cd ch" and "ch_in ch = sendmsg p @ rest" and "length p + 4 < 4294967296"
    and "4 + int (length p) \<le> ch_msize ch" and "wf_fcall f"
    and "p @ take 4 (drop (length p) (ch_rdbuf ch)) = w_fcall f @ junk"
  shows "ReadFcall None ch =
    (maybeTruncate ch f, ch\<lparr>ch_in := rest, ch_rdbuf := p @ drop (length p) (ch_rdbuf ch)\<rparr>)"
proof -
  have "4 + length p \<le> length (ch_rdbuf ch)" using assms(1,4) by (simp add: chan_ready_def)
  moreover have "maybeTruncate (ch\<lparr>ch_in := rest, ch_rdbuf := b\<rparr>) f = maybeTruncate ch f" for b
    by (simp add: maybeTruncate_def msgmsize_def Let_def split: option.split Message.split)
  ultimately show ?thesis
    using assms(6) unmarshal_wire [OF assms(5), of junk]
    by (simp add: read_frame [OF assms(1-3)] Let_def)
qed

lemma delivery1:
  assumes "chan_ready cd s" and "chan_ready cd r" and "ch_out_err s = None"
    and "ch_msize s \<le> ch_msize r" and "wf_fcall f" and "length (w_fcall f) + 4 < 4294967296"
    and "maybeTruncate s f = Inr f'" and "ch_in r = sendmsg (w_fcall f') @ rest"
  shows "ReadFcall None r =
    (Inr f', r\<lparr>ch_in := rest, ch_rdbuf := w_fcall f' @ drop (length (w_fcall f')) (ch_rdbuf r)\<rparr>)"
proof -
  have cd: "ch_codec s = cd" "ch_codec r = cd" and m: "23 \<le> ch_msize s" "ch_msize r < 4294967296"
    using assms(1,2) by (simp_all add: chan_ready_def)
  have len: "length (w_fcall f) < 4294967296" using assms(6) by simp
  have wf: "wf_fcall f'" "length (w_fcall f') \<le> length (w_fcall f)"
    using truncate_wf [OF cd(1) assms(5) len assms(7)] by simp_all
  have fit: "4 + int (length (w_fcall f')) \<le> ch_msize s"
    by (rule truncate_fits [OF cd(1) len assms(7) m(1)])
  have "maybeTruncate r f' = Inr f'"
    by (rule truncate_stable [OF cd len m(1) assms(4) m(2) assms(7)])
  with read_ok [OF assms(2,8) _ _ wf(1) refl] wf(2) fit assms(4,6) show ?thesis by simp
qed

lemma delivery:
  assumes "chan_ready cd s" and "chan_ready cd r" and "ch_out_err s = None"
    and "ch_msize s \<le> ch_msize r"
    and "\<forall>f\<in>set fs. wf_fcall f \<and> length (w_fcall f) + 4 < 4294967296"
    and "send_all s fs = (sent, s')"
  shows "\<exists>bytes. ch_out s' = ch_out s @ bytes \<and>
    (\<forall>rest. ch_in r = bytes @ rest \<longrightarrow>
       (\<exists>r'. recv_n (length sent) r = (map Inr sent, r') \<and> ch_in r' = rest \<and> chan_ready cd r'))"
  using assms
proof (induction fs arbitrary: s r sent)
  case Nil
  then show ?case by simp
next
  case (Cons f fs)
  show ?case
  proof (cases "maybeTruncate s f")
    case (Inl e)
    with Cons show ?thesis by (simp add: write_fails)
  next
    case (Inr f')
    let ?s = "s\<lparr>ch_out := ch_out s @ sendmsg (w_fcall f')\<rparr>"
    let ?r = "\<lambda>rest. r\<lparr>ch_in := rest, ch_rdbuf := w_fcall f' @ drop (length (w_fcall f')) (ch_rdbuf r)\<rparr>"
    have w: "WriteFcall None s f = (Inr f', ?s)"
      by (rule write_ok [OF Cons.prems(1,3) Inr])
    then obtain sent' where sent: "sent = f' # sent'" "send_all ?s fs = (sent', s')"
      using Cons.prems(6) by (auto split: prod.splits)
    have s: "chan_ready cd ?s" using Cons.prems(1) by (simp add: chan_ready_def)
    have fit: "4 + int (length (w_fcall f')) \<le> ch_msize s"
      by (rule truncate_fits [OF _ _ Inr]) (use Cons.prems(1,5) in \<open>auto simp: chan_ready_def\<close>)
    have r: "chan_ready cd (?r rest)" for rest
      using Cons.prems(2,4) fit by (auto simp: chan_ready_def)
    from Cons.IH [OF s r _ _ _ sent(2)] Cons.prems
    obtain bytes where b: "ch_out s' = ch_out ?s @ bytes" by fastforce
    have "\<exists>r'. recv_n (length sent) r = (map Inr sent, r') \<and> ch_in r' = rest \<and> chan_ready cd r'"
      if i: "ch_in r = (sendmsg (w_fcall f') @ bytes) @ rest" for rest
    proof -
      from i have i': "ch_in r = sendmsg (w_fcall f') @ (bytes @ rest)" by simp
      have rd: "ReadFcall None r = (Inr f', ?r (bytes @ rest))"
        by (rule delivery1 [OF Cons.prems(1-4) _ _ Inr i']) (use Cons.prems(5) in auto)
      from Cons.IH [OF s r _ _ _ sent(2), of "bytes @ rest"] Cons.prems b
      obtain r' where "recv_n (length sent') (?r (bytes @ rest)) = (map Inr sent', r')"
        "ch_in r' = rest" "chan_ready cd r'" by auto
      with rd show ?thesis by (simp add: sent(1))
    qed
    with b show ?thesis by auto
  qed
qed

end

lemma Size_fcall: "Size (VPtr (VFcall f)) = int (length (w_fcall f) mod 4294967296)"
  by (simp add: Size_def size_exact uint_nat unat_of_nat del: size9p.simps size1.simps)

interpretation codec9p: codec_laws codec9p
proof
  fix f junk
  show "co_Marshal codec9p (VPtr (VFcall f)) = Inr (w_fcall f)"
    by (simp add: codec9p_def Marshal_fcall)
  show "co_Size codec9p (VPtr (VFcall f)) = int (length (w_fcall f) mod 4294967296)"
    by (simp add: codec9p_def Size_fcall)
  show "wf_fcall f \<Longrightarrow>
      co_Unmarshal codec9p (w_fcall f @ junk) (VPtr (VFcall zero_Fcall)) = Inr (VPtr (VFcall f))"
    by (simp add: codec9p_def Unmarshal_fcall)
qed

text \<open>A connection that has failed takes nothing more.\<close>

lemma write_after_error:
  assumes "ch_out_err ch = Some (0, e)"
  shows "\<exists>e'. WriteFcall ctx ch f = (Inl e', ch)"
  using assms by (auto simp: WriteFcall_def split: option.splits sum.splits)

lemma keep_out_err: "(ch\<lparr>ch_out := p\<rparr> = ch\<lparr>ch_out := p, ch_out_err := q\<rparr>) \<longleftrightarrow> ch_out_err ch = q"
  by (cases ch) auto

section \<open>Properties\<close>

text \<open>
  C4: frames written to a channel, one after the other, are read from the other end unchanged
  and in order, when the receiver accepts messages as large as the sender's limit: what is read
  are exactly the frames that were sent (a frame that is refused leaves no bytes behind), and
  what follows them on the connection is left there.
\<close>

theorem channel_delivery:
  assumes "chan_ready codec9p s" and "chan_ready codec9p r" and "ch_out_err s = None"
    and "ch_msize s \<le> ch_msize r"
    and "\<forall>f\<in>set fs. wf_fcall f \<and> length (w_fcall f) + 4 < 4294967296"
    and "send_all s fs = (sent, s')"
  shows "\<exists>bytes. ch_out s' = ch_out s @ bytes \<and>
    (\<forall>rest. ch_in r = bytes @ rest \<longrightarrow>
       (\<exists>r'. recv_n (length sent) r = (map Inr sent, r') \<and> ch_in r' = rest \<and> chan_ready codec9p r'))"
  by (rule codec9p.delivery [OF assms])

definition sample_frames :: "Fcall list" where
  "sample_frames =
     [newFcall 1 (MessageTread 7 0 100), newFcall 2 (MessageTwrite 7 0 [1, 2, 3]),
      newFcall 3 (MessageRwalk [zero_Qid, zero_Qid]), newFcall 4 (MessageTclunk 7)]"

lemma sample_sent:
  "fst (send_all (fresh_channel codec9p 24) sample_frames) =
     [newFcall 1 (MessageTread 7 0 13), newFcall 2 (MessageTwrite 7 0 [1]), newFcall 4 (MessageTclunk 7)]"
  by (simp add: sample_frames_def codec9p.write_fit chan_ready_def fresh_channel_def w_newFcall
      w_qids_def fit_frame_def newFcall_def w_fcall_def)

theorem channel_delivery_witness:
  "\<exists>s' bytes. ch_out s' = bytes \<and>
     send_all (fresh_channel codec9p 24) sample_frames =
       ([newFcall 1 (MessageTread 7 0 13), newFcall 2 (MessageTwrite 7 0 [1]),
         newFcall 4 (MessageTclunk 7)], s') \<and>
     fst (recv_n 3 ((fresh_channel codec9p 24)\<lparr>ch_in := bytes\<rparr>)) =
       map Inr [newFcall 1 (MessageTread 7 0 13), newFcall 2 (MessageTwrite 7 0 [1]),
         newFcall 4 (MessageTclunk 7)]"
proof -
  let ?s = "fresh_channel codec9p 24"
  let ?sent = "[newFcall 1 (MessageTread 7 0 13), newFcall 2 (MessageTwrite 7 0 [1]),
         newFcall 4 (MessageTclunk 7)]"
  obtain s' where s': "send_all ?s sample_frames = (?sent, s')"
    using sample_sent by (metis prod.collapse)
  have wf: "\<forall>f\<in>set sample_frames. wf_fcall f \<and> length (w_fcall f) + 4 < 4294967296"
    by (simp add: sample_frames_def w_newFcall w_qids_def)
  have "chan_ready codec9p ?s" "ch_out_err ?s = None" "ch_out ?s = []"
    by (simp_all add: chan_ready_new) (simp_all add: fresh_channel_def)
  moreover have "chan_ready codec9p (?s\<lparr>ch_in := ch_out s'\<rparr>)"
    by (simp add: chan_ready_def fresh_channel_def)
  ultimately obtain r' where
    "recv_n (length ?sent) (?s\<lparr>ch_in := ch_out s'\<rparr>) = (map Inr ?sent, r')"
    using channel_delivery [OF _ _ _ _ wf s', of "?s\<lparr>ch_in := ch_out s'\<rparr>"] by force
  then show ?thesis using s' by (auto simp: numeral_3_eq_3)
qed

text \<open>
  C12: \<open>maybeTruncate\<close>, computed with wrapping 32-bit subtraction, meets its contract for every
  limit from 11 bytes up: a read is clamped to \<open>msize - 11\<close> bytes, a write loses exactly what
  exceeds the limit, any other message is passed on or refused with the number of excess bytes.
\<close>

theorem truncate_refines_fit:
  assumes "ch_codec ch = codec9p" and "length (w_fcall f) < 4294967296"
    and "11 \<le> ch_msize ch" and "ch_msize ch < 4294967296"
  shows "maybeTruncate ch f = fit_frame (ch_msize ch) f"
  by (rule codec9p.truncate_spec [OF assms])

theorem truncate_refines_fit_witness:
  "maybeTruncate (fresh_channel codec9p 24) (newFcall 2 (MessageTwrite 7 0 [1, 2, 3])) =
     fit_frame 24 (newFcall 2 (MessageTwrite 7 0 [1, 2, 3])) \<and>
   fit_frame 24 (newFcall 2 (MessageTwrite 7 0 [1, 2, 3])) =
     Inr (newFcall 2 (MessageTwrite 7 0 [1]))"
  using truncate_refines_fit [of "fresh_channel codec9p 24" "newFcall 2 (MessageTwrite 7 0 [1, 2, 3])"]
  by (simp add: fresh_channel_def w_newFcall) (simp add: fit_frame_def newFcall_def)



text \<open>
  C29: a frame that is too large for the read buffer is reported as an overflow of the number of
  bytes by which it (with its size) exceeds the buffer, is consumed entirely, and leaves the
  channel ready for the next frame.
\<close>

theorem read_overflow_resync:
  assumes "chan_ready codec9p ch" and "ch_in ch = sendmsg p @ rest"
    and "length p + 4 < 4294967296" and "ch_msize ch < 4 + int (length p)"
  shows "\<exists>ch'. ReadFcall None ch = (Inl (OverflowErr (4 + int (length p) - ch_msize ch)), ch') \<and>
           ch_in ch' = rest \<and> chan_ready codec9p ch'"
  using assms(1,4) codec9p.read_frame [OF assms(1-3)] by (auto simp: chan_ready_def Let_def)

theorem read_overflow_resync_witness:
  "\<exists>ch'. ReadFcall None ((fresh_channel codec9p 24)\<lparr>ch_in := sendmsg (replicate 30 0) @ [7]\<rparr>) =
       (Inl (OverflowErr 10), ch') \<and> ch_in ch' = [7] \<and> chan_ready codec9p ch'"
  using read_overflow_resync
    [of "(fresh_channel codec9p 24)\<lparr>ch_in := sendmsg (replicate 30 0) @ [7]\<rparr>" "replicate 30 0" "[7]"]
  by (simp add: chan_ready_def fresh_channel_def)

text \<open>
  Reading from a connection panics (in \<open>readmsg\<close>, slicing with a negative bound) exactly
  when the next four bytes announce a size below 4: four bytes from a peer stop the reader.
\<close>

theorem short_size_panics:
  assumes "\<forall>s. e \<noteq> Panic s"
  shows "(\<exists>s. fst (readmsg e r buf) = Inl (Panic s)) \<longleftrightarrow>
           4 \<le> length r \<and> uint (get_le (take 4 r) :: u32) < 4"
  using assms by (auto simp: readmsg_def ReadFull_def Let_def)

theorem short_size_panics_witness:
  "(\<exists>s. fst (readmsg EOF [3, 0, 0, 0] (replicate 24 0)) = Inl (Panic s)) \<longleftrightarrow>
     4 \<le> length [3, 0, 0, 0 :: byte] \<and> uint (get_le (take 4 [3, 0, 0, 0]) :: u32) < 4"
  by (rule short_size_panics) simp

text \<open>
  A frame that is cut short by up to four bytes is not noticed.  \<open>ReadFcall\<close> unmarshals
  four bytes more than it has read, so what an earlier message left in the buffer completes the
  frame.
\<close>

theorem read_completes_with_stale_bytes:
  assumes "chan_ready codec9p ch" and "wf_fcall f" and "w_fcall f = p @ stale" and "length stale \<le> 4"
    and "take (length stale) (drop (length p) (ch_rdbuf ch)) = stale"
    and "4 + int (length p) \<le> ch_msize ch" and "ch_in ch = sendmsg p @ rest"
  shows "fst (ReadFcall None ch) = maybeTruncate ch f"
proof -
  let ?b = "drop (length p) (ch_rdbuf ch)"
  have "take (length stale) (take 4 ?b) = stale" using assms(4,5) by (simp add: min_absorb1)
  then have "take 4 ?b = stale @ drop (length stale) (take 4 ?b)"
    using append_take_drop_id [of "length stale" "take 4 ?b"] by simp
  then have "p @ take 4 ?b = w_fcall f @ drop (length stale) (take 4 ?b)" by (simp add: assms(3))
  moreover have "length p + 4 < 4294967296" using assms(1,6) by (simp add: chan_ready_def)
  ultimately show ?thesis using codec9p.read_ok [OF assms(1,7) _ assms(6,2)] by simp
qed

theorem read_completes_with_stale_bytes_witness:
  "fst (ReadFcall None ((fresh_channel codec9p 24)
      \<lparr>ch_in := sendmsg (put_le Tclunk @ put_le (9 :: u16)),
       ch_rdbuf := w_fcall (newFcall 8 (MessageTclunk 7)) @ replicate 17 0\<rparr>)) =
     maybeTruncate ((fresh_channel codec9p 24)
      \<lparr>ch_in := sendmsg (put_le Tclunk @ put_le (9 :: u16)),
       ch_rdbuf := w_fcall (newFcall 8 (MessageTclunk 7)) @ replicate 17 0\<rparr>)
      (newFcall 9 (MessageTclunk 7))"
  by (rule read_completes_with_stale_bytes [where p = "put_le Tclunk @ put_le (9 :: u16)"
        and stale = "put_le (7 :: u32)" and rest = "[]"])
    (simp_all add: chan_ready_def fresh_channel_def w_newFcall)

end
