(* ===== verification/P9_Version.thy ===== *)
theory P9_Version
  imports P9_Channel
begin

text \<open>
  Version negotiation (\<^verbatim>\<open>version.go\<close>): the two ends exchange \<open>Tversion\<close> and \<open>Rversion\<close> to
  agree on the protocol version and on the limit \<open>msize\<close>.  The bytes that the peer will send
  are in the channel's \<open>ch_in\<close> from the start, and the context keeps its state.
\<close>

definition clientnegotiate :: "Context \<Rightarrow> channel \<Rightarrow> string \<Rightarrow> (error + string) \<times> channel" where
  "clientnegotiate ctx ch version =
     (case WriteFcall ctx ch (newFcall NOTAG (MessageTversion (word_of_int (MSize ch)) version)) of
        (Inl err, ch1) \<Rightarrow> (Inl err, ch1)
      | (Inr _, ch1) \<Rightarrow>
          (case ReadFcall ctx ch1 of
             (Inl err, ch2) \<Rightarrow> (Inl err, ch2)
           | (Inr resp, ch2) \<Rightarrow>
               (case fc_Message resp of
                  Some (MessageRversion vMSize vVersion) \<Rightarrow>
                    if vVersion \<noteq> version
                    then (Inl (Errorf (''unsupported server version: '' @ version)), ch2)
                    else (Inr vVersion, if uint vMSize < MSize ch2 then SetMSize (uint vMSize) ch2 else ch2)
                | Some (MessageRerror ename) \<Rightarrow> (Inl (Rerr ename), ch2)
                | _ \<Rightarrow> (Inl ErrUnexpectedMsg, ch2))))"

definition servernegotiate :: "Context \<Rightarrow> channel \<Rightarrow> string \<Rightarrow> error option \<times> channel" where
  "servernegotiate ctx ch version =
     (case ReadFcall ctx ch of
        (Inl err, ch1) \<Rightarrow> (Some err, ch1)
      | (Inr req, ch1) \<Rightarrow>
          (case fc_Message req of
             Some (MessageTversion mvMSize mvVersion) \<Rightarrow>
               (let respVersion = (if mvVersion \<noteq> version then ''9P2000'' else version);
                    (ch2, respMSize) =
                      (if uint mvMSize < MSize ch1 then (SetMSize (uint mvMSize) ch1, mvMSize)
                       else (ch1, word_of_int (MSize ch1)))
                in case WriteFcall ctx ch2 (newFcall NOTAG (MessageRversion respMSize respVersion)) of
                     (Inl err, ch3) \<Rightarrow> (Some err, ch3)
                   | (Inr _, ch3) \<Rightarrow>
                       (if respVersion = ''unknown'' then Some (Errorf ''bad version negotiation'') else None,
                        ch3))
           | _ \<Rightarrow> (Some (Errorf ''expected version message: {0 }''), ch1)))"

section \<open>Exchanging version messages\<close>

text \<open>A message of the negotiation, and the size of its frame.\<close>

definition is_version :: "Message \<Rightarrow> string \<Rightarrow> bool" where
  "is_version m v \<longleftrightarrow> (\<exists>ms. m = MessageTversion ms v \<or> m = MessageRversion ms v)"

lemma version_fits:
  assumes "is_version m v" and "13 + int (length v) \<le> msize" and "msize < 4294967296"
  shows "length (w_fcall (newFcall t m)) = 9 + length v"
    and "fit_frame msize (newFcall t m) = Inr (newFcall t m)"
  using assms by (auto simp: is_version_def w_newFcall fit_frame_def)

lemma write_version:
  assumes "chan_ready codec9p ch" and "ch_out_err ch = None" and "is_version m v"
    and "13 + int (length v) \<le> ch_msize ch"
  shows "WriteFcall None ch (newFcall t m) =
    (Inr (newFcall t m), ch\<lparr>ch_out := ch_out ch @ sendmsg (w_fcall (newFcall t m))\<rparr>)"
proof -
  have "ch_msize ch < 4294967296" using assms(1) by (simp add: chan_ready_def)
  then show ?thesis
    using version_fits [OF assms(3,4)] codec9p.write_fit [OF assms(1,2), of "newFcall t m"] assms(4)
    by simp
qed

lemma read_version:
  assumes "chan_ready codec9p ch" and "is_version m v" and "wf_string v"
    and "13 + int (length v) \<le> ch_msize ch"
    and "ch_in ch = sendmsg (w_fcall (newFcall t m)) @ rest"
  obtains b where "ReadFcall None ch = (Inr (newFcall t m), ch\<lparr>ch_in := rest, ch_rdbuf := b\<rparr>)"
    and "length b = length (ch_rdbuf ch)"
proof -
  let ?f = "newFcall t m" and ?b = "ch_rdbuf ch"
  have m: "ch_msize ch < 4294967296" "ch_codec ch = codec9p" "23 \<le> ch_msize ch"
    "int (length ?b) = ch_msize ch"
    using assms(1) by (simp_all add: chan_ready_def)
  note f = version_fits [OF assms(2,4) m(1)]
  have "maybeTruncate ch ?f = Inr ?f"
    using f m assms(4) by (simp add: codec9p.truncate_spec)
  moreover have "wf_fcall ?f" using assms(2,3) by (auto simp: is_version_def)
  ultimately have "ReadFcall None ch =
      (Inr ?f, ch\<lparr>ch_in := rest, ch_rdbuf := w_fcall ?f @ drop (length (w_fcall ?f)) ?b\<rparr>)"
    using codec9p.read_ok [OF assms(1,5) _ _ _ refl] f m assms(4) by simp
  then show thesis by (rule that) (use f m assms(4) in simp)
qed

section \<open>The two ends\<close>

lemma frame_of_result:
  "ch_out (snd (ReadFcall ctx ch)) = ch_out ch"
  "ch_out (SetMSize n ch) = ch_out ch"
  "ch_in (SetMSize n ch) = ch_in ch"
  "ch_out_err (SetMSize n ch) = ch_out_err ch"
  "ch_msize (SetMSize n ch) = n"
  by (auto simp: ReadFcall_def SetMSize_def Let_def split: option.splits prod.splits sum.splits gval.splits)

lemma client_request:
  assumes "chan_ready codec9p c" and "ch_out_err c = None" and "13 + int (length v) \<le> ch_msize c"
    and "clientnegotiate None c v = (res, c')"
  shows "ch_out c' = ch_out c @
           sendmsg (w_fcall (newFcall NOTAG (MessageTversion (word_of_int (ch_msize c)) v)))"
proof -
  let ?m = "MessageTversion (word_of_int (ch_msize c)) v"
  let ?c1 = "c\<lparr>ch_out := ch_out c @ sendmsg (w_fcall (newFcall NOTAG ?m))\<rparr>"
  have "WriteFcall None c (newFcall NOTAG ?m) = (Inr (newFcall NOTAG ?m), ?c1)"
    by (rule write_version [OF assms(1,2) _ assms(3)]) (simp add: is_version_def)
  moreover obtain x c2 where r: "ReadFcall None ?c1 = (x, c2)" by fastforce
  ultimately have "c' = c2 \<or> (\<exists>n. c' = SetMSize n c2)"
    using assms(4)
    by (auto simp: clientnegotiate_def MSize_def
        split: sum.splits option.splits Message.splits if_splits)
  moreover have "ch_out c2 = ch_out ?c1" using frame_of_result(1) [of None ?c1] r by simp
  ultimately show ?thesis by (auto simp: frame_of_result)
qed

lemma client_reply:
  assumes "chan_ready codec9p c" and "ch_out_err c = None" and "13 + int (length v) \<le> ch_msize c"
    and "ch_in c = sendmsg (w_fcall (newFcall t (MessageRversion ms rv))) @ rest"
    and "wf_string rv" and "13 + int (length rv) \<le> ch_msize c" and "23 \<le> uint ms"
    and "clientnegotiate None c v = (res, c')"
  shows "ch_in c' = rest \<and> chan_ready codec9p c' \<and>
    (if rv = v then res = Inr v \<and> ch_msize c' = min (ch_msize c) (uint ms)
     else res = Inl (Errorf (''unsupported server version: '' @ v)) \<and> ch_msize c' = ch_msize c)"
proof -
  let ?m = "MessageTversion (word_of_int (ch_msize c)) v"
  let ?c1 = "c\<lparr>ch_out := ch_out c @ sendmsg (w_fcall (newFcall NOTAG ?m))\<rparr>"
  have w: "WriteFcall None c (newFcall NOTAG ?m) = (Inr (newFcall NOTAG ?m), ?c1)"
    by (rule write_version [OF assms(1,2) _ assms(3)]) (simp add: is_version_def)
  have c1: "chan_ready codec9p ?c1" using assms(1) by (simp add: chan_ready_def)
  obtain b where b: "ReadFcall None ?c1 =
      (Inr (newFcall t (MessageRversion ms rv)), ?c1\<lparr>ch_in := rest, ch_rdbuf := b\<rparr>)"
    "length b = length (ch_rdbuf ?c1)"
    by (rule read_version [OF c1 _ assms(5)]) (use assms(4,6) in \<open>auto simp: is_version_def\<close>)
  have c2: "chan_ready codec9p (?c1\<lparr>ch_in := rest, ch_rdbuf := b\<rparr>)"
    using c1 b(2) by (simp add: chan_ready_def)
  have "uint ms < 4294967296" using uint_lt2p [of ms] by simp
  from chan_ready_SetMSize [OF c2 assms(7) this] show ?thesis
    using assms(8) c2 by (auto simp: clientnegotiate_def MSize_def w b(1) frame_of_result min_def)
qed

definition agreed_version :: "string \<Rightarrow> string \<Rightarrow> string" where
  "agreed_version cv sv = (if cv = sv then sv else ''9P2000'')"

lemma server_reply:
  assumes "chan_ready codec9p s" and "ch_out_err s = None" and "13 + int (length cv) \<le> ch_msize s"
    and "ch_in s = sendmsg (w_fcall (newFcall t (MessageTversion ms cv))) @ rest"
    and "wf_string cv" and "23 \<le> uint ms"
    and "13 + int (length (agreed_version cv sv)) \<le> min (ch_msize s) (uint ms)"
    and "servernegotiate None s sv = (err, s')"
  shows "ch_in s' = rest \<and> chan_ready codec9p s' \<and> ch_msize s' = min (ch_msize s) (uint ms) \<and>
    ch_out s' = ch_out s @ sendmsg (w_fcall (newFcall NOTAG
      (MessageRversion (word_of_int (min (ch_msize s) (uint ms))) (agreed_version cv sv)))) \<and>
    err = (if agreed_version cv sv = ''unknown'' then Some (Errorf ''bad version negotiation'') else None)"
proof -
  let ?v = "agreed_version cv sv"
  obtain b where b: "ReadFcall None s =
      (Inr (newFcall t (MessageTversion ms cv)), s\<lparr>ch_in := rest, ch_rdbuf := b\<rparr>)"
    "length b = length (ch_rdbuf s)"
    by (rule read_version [OF assms(1) _ assms(5,3,4)]) (auto simp: is_version_def)
  let ?s1 = "s\<lparr>ch_in := rest, ch_rdbuf := b\<rparr>"
  let ?s2 = "if uint ms < ch_msize s then SetMSize (uint ms) ?s1 else ?s1"
  let ?ms = "word_of_int (min (ch_msize s) (uint ms)) :: u32"
  have s1: "chan_ready codec9p ?s1" using assms(1) b(2) by (simp add: chan_ready_def)
  have "uint ms < 4294967296" using uint_lt2p [of ms] by simp
  with s1 chan_ready_SetMSize [OF s1 assms(6)] have s2: "chan_ready codec9p ?s2" by simp
  have m2: "ch_msize ?s2 = min (ch_msize s) (uint ms)" by (simp add: frame_of_result min_def)
  have w: "WriteFcall None ?s2 (newFcall NOTAG (MessageRversion ?ms ?v)) =
      (Inr (newFcall NOTAG (MessageRversion ?ms ?v)),
       ?s2\<lparr>ch_out := ch_out ?s2 @ sendmsg (w_fcall (newFcall NOTAG (MessageRversion ?ms ?v)))\<rparr>)"
    by (rule write_version [OF s2 _ _ assms(7) [folded m2]])
      (use assms(2) in \<open>simp_all add: is_version_def frame_of_result\<close>)
  have "servernegotiate None s sv =
      (if ?v = ''unknown'' then Some (Errorf ''bad version negotiation'') else None,
       ?s2\<lparr>ch_out := ch_out ?s2 @ sendmsg (w_fcall (newFcall NOTAG (MessageRversion ?ms ?v)))\<rparr>)"
    using w by (auto simp: servernegotiate_def MSize_def b(1) Let_def agreed_version_def min_def)
  with assms(8) s2 m2 show ?thesis by (auto simp: chan_ready_def frame_of_result)
qed

section \<open>Agreement\<close>

text \<open>
  C11: when a client and a server whose channels are connected negotiate, both channels end with
  the smaller of the two limits.  The server answers with the version both asked for, or else
  with \<open>9P2000\<close>; the client accepts exactly when that is the version it asked for, and no bytes
  beyond the two messages are consumed.
\<close>

theorem negotiation_agreement:
  assumes "chan_ready codec9p c" and "ch_out_err c = None"
    and "chan_ready codec9p s" and "ch_out_err s = None"
    and "wf_string cv" and "wf_string sv"
    and "\<forall>v\<in>{cv, sv, ''9P2000''}. 13 + int (length v) \<le> min (ch_msize c) (ch_msize s)"
    and "clientnegotiate None c cv = (res, c')" and "ch_out c' = ch_out c @ b1"
    and "ch_in s = b1 @ rest_s"
    and "servernegotiate None s sv = (err, s')" and "ch_out s' = ch_out s @ b2"
    and "ch_in c = b2 @ rest_c"
  shows "ch_in c' = rest_c \<and> ch_in s' = rest_s \<and> ch_msize s' = min (ch_msize c) (ch_msize s) \<and>
    (if agreed_version cv sv = cv
     then res = Inr cv \<and> ch_msize c' = ch_msize s'
     else res = Inl (Errorf (''unsupported server version: '' @ cv))) \<and>
    (err = None \<longleftrightarrow> agreed_version cv sv \<noteq> ''unknown'')"
proof -
  let ?mc = "word_of_int (ch_msize c) :: u32"
  have c: "13 + int (length cv) \<le> ch_msize c" "13 + int (length cv) \<le> ch_msize s"
    using assms(7) by simp_all
  have mc: "uint ?mc = ch_msize c" "23 \<le> uint ?mc"
    using assms(1) by (simp_all add: chan_ready_def unsigned_of_int take_bit_int_eq_self)
  have ms: "23 \<le> min (ch_msize s) (ch_msize c)" "min (ch_msize s) (ch_msize c) < 4294967296"
    using assms(1,3) by (auto simp: chan_ready_def)
  then have mw: "uint (word_of_int (min (ch_msize s) (ch_msize c)) :: u32) = min (ch_msize s) (ch_msize c)"
    by (simp add: unsigned_of_int take_bit_int_eq_self)
  have a: "13 + int (length (agreed_version cv sv)) \<le> min (ch_msize s) (ch_msize c)"
    "wf_string (agreed_version cv sv)"
    using assms(5-7) by (auto simp: agreed_version_def wf_string_def)
  have "b1 = sendmsg (w_fcall (newFcall NOTAG (MessageTversion ?mc cv)))"
    using client_request [OF assms(1,2) c(1) assms(8)] assms(9) by simp
  then have i: "ch_in s = sendmsg (w_fcall (newFcall NOTAG (MessageTversion ?mc cv))) @ rest_s"
    using assms(10) by simp
  note s' = server_reply [OF assms(3,4) c(2) i assms(5) mc(2) _ assms(11), unfolded mc(1), OF a(1)]
  then have "ch_in c = sendmsg (w_fcall (newFcall NOTAG (MessageRversion
      (word_of_int (min (ch_msize s) (ch_msize c))) (agreed_version cv sv)))) @ rest_c"
    using assms(12,13) by simp
  from client_reply [OF assms(1,2) c(1) this a(2) _ _ assms(8), unfolded mw] s' a(1) ms(1)
  show ?thesis by (simp add: min.commute split: if_splits)
qed

definition sample_client :: channel where
  "sample_client = (fresh_channel codec9p 100)\<lparr>ch_in :=
     sendmsg (w_fcall (newFcall NOTAG (MessageRversion 80 ''9P2000'')))\<rparr>"

definition sample_server :: channel where
  "sample_server = (fresh_channel codec9p 80)\<lparr>ch_in :=
     sendmsg (w_fcall (newFcall NOTAG (MessageTversion 100 ''9P2000''))) @ [1]\<rparr>"

lemma sample_ready:
  "chan_ready codec9p sample_client" "ch_out_err sample_client = None" "ch_out sample_client = []"
  "ch_msize sample_client = 100" "ch_msize sample_server = 80"
  "chan_ready codec9p sample_server" "ch_out_err sample_server = None" "ch_out sample_server = []"
  by (simp_all add: sample_client_def sample_server_def chan_ready_def fresh_channel_def)

lemma sample_in:
  "ch_in sample_client = sendmsg (w_fcall (newFcall NOTAG (MessageRversion 80 ''9P2000'')))"
  "ch_in sample_server = sendmsg (w_fcall (newFcall NOTAG (MessageTversion 100 ''9P2000''))) @ [1]"
  by (simp_all add: sample_client_def sample_server_def fresh_channel_def)

theorem negotiation_agreement_witness:
  "\<exists>c' s'. clientnegotiate None sample_client ''9P2000'' = (Inr ''9P2000'', c') \<and>
     servernegotiate None sample_server ''9P2000'' = (None, s') \<and>
     ch_msize c' = 80 \<and> ch_msize s' = 80 \<and> ch_in s' = [1]"
proof -
  obtain rc c' where c: "clientnegotiate None sample_client ''9P2000'' = (rc, c')" by fastforce
  obtain es s' where s: "servernegotiate None sample_server ''9P2000'' = (es, s')" by fastforce
  let ?b1 = "sendmsg (w_fcall (newFcall NOTAG (MessageTversion 100 ''9P2000'')))"
  let ?b2 = "sendmsg (w_fcall (newFcall NOTAG (MessageRversion 80 ''9P2000'')))"
  have o1: "ch_out c' = ch_out sample_client @ ?b1"
    using client_request [OF sample_ready(1,2) _ c] by (simp add: sample_ready)
  have o2: "ch_out s' = ch_out sample_server @ ?b2"
    using server_reply [OF sample_ready(6,7) _ _ _ _ _ s, of "''9P2000''" NOTAG 100 "[1]"]
    by (simp add: sample_ready sample_in wf_string_def agreed_version_def)
  show ?thesis
    using negotiation_agreement [OF sample_ready(1,2,6,7) _ _ _ c o1 _ s o2, of "[1]" "[]"] c s
    by (simp add: sample_ready sample_in wf_string_def agreed_version_def)
qed

lemma read_msize: "ReadFcall ctx ch = (x, ch') \<Longrightarrow> ch_msize ch' = ch_msize ch"
  by (auto simp: ReadFcall_def Let_def split: option.splits prod.splits sum.splits gval.splits if_splits)

lemma write_msize: "WriteFcall ctx ch f = (x, ch') \<Longrightarrow> ch_msize ch' = ch_msize ch"
  by (auto simp: WriteFcall_def split: option.splits sum.splits if_splits)

text \<open>
  Negotiation never raises a limit.  Whatever the peer sends, and whether or not it succeeds,
  neither end finishes with a larger \<open>msize\<close> than its channel had before.
\<close>

theorem negotiation_never_grows:
  "ch_msize (snd (servernegotiate ctx ch v)) \<le> ch_msize ch \<and>
   ch_msize (snd (clientnegotiate ctx ch v)) \<le> ch_msize ch"
proof -
  obtain x ch1 where r: "ReadFcall ctx ch = (x, ch1)" by fastforce
  have "ch_msize (snd (servernegotiate ctx ch v)) \<le> ch_msize ch1"
    by (auto simp: servernegotiate_def r MSize_def Let_def frame_of_result
        split: prod.splits sum.splits option.splits Message.splits if_splits dest!: write_msize)
  then have 1: "ch_msize (snd (servernegotiate ctx ch v)) \<le> ch_msize ch"
    using read_msize [OF r] by simp
  obtain y ch2 where w: "WriteFcall ctx ch
      (newFcall NOTAG (MessageTversion (word_of_int (ch_msize ch)) v)) = (y, ch2)" by fastforce
  obtain z ch3 where r2: "ReadFcall ctx ch2 = (z, ch3)" by fastforce
  have "ch_msize (snd (clientnegotiate ctx ch v)) \<le> ch_msize ch"
    using write_msize [OF w] read_msize [OF r2]
    by (auto simp: clientnegotiate_def w r2 MSize_def frame_of_result
        split: sum.splits option.splits Message.splits)
  with 1 show ?thesis by simp
qed

text \<open>
  A client that offers a limit too small for the server's own reply is refused: the server
  returns the overflow error and sends nothing.
\<close>

theorem tiny_msize_refused:
  assumes "chan_ready codec9p s" and "ch_out_err s = None"
    and "ch_in s = sendmsg (w_fcall (newFcall t (MessageTversion ms sv))) @ rest"
    and "wf_string sv" and "13 + int (length sv) \<le> ch_msize s" and "uint ms < 13 + int (length sv)"
  shows "\<exists>s'. servernegotiate None s sv =
           (Some (OverflowErr (13 + int (length sv) - uint ms)), s') \<and> ch_out s' = ch_out s"
proof -
  obtain b where b: "ReadFcall None s =
      (Inr (newFcall t (MessageTversion ms sv)), s\<lparr>ch_in := rest, ch_rdbuf := b\<rparr>)"
    "length b = length (ch_rdbuf s)"
    by (rule read_version [OF assms(1) _ assms(4,5,3)]) (auto simp: is_version_def)
  let ?s2 = "SetMSize (uint ms) (s\<lparr>ch_in := rest, ch_rdbuf := b\<rparr>)"
  have c: "ch_codec ?s2 = codec9p" "\<not> ch_closed ?s2"
    using assms(1) by (simp_all add: SetMSize_def Let_def chan_ready_def)
  have "maybeTruncate ?s2 (newFcall NOTAG (MessageRversion ms sv)) =
      Inl (OverflowErr (13 + int (length sv) - uint ms))"
    using codec9p.truncate_other [OF c(1), of "newFcall NOTAG (MessageRversion ms sv)"] assms(4,6)
    by (simp add: w_newFcall wf_string_def frame_of_result)
  then show ?thesis
    using c(2) assms(5,6) by (simp add: servernegotiate_def b(1) MSize_def Let_def WriteFcall_def
        frame_of_result)
qed

theorem tiny_msize_refused_witness:
  "\<exists>s'. servernegotiate None ((fresh_channel codec9p 80)\<lparr>ch_in :=
       sendmsg (w_fcall (newFcall NOTAG (MessageTversion 10 ''9P2000''))) @ [1]\<rparr>) ''9P2000'' =
     (Some (OverflowErr 9), s') \<and> ch_out s' = []"
  using tiny_msize_refused [of "(fresh_channel codec9p 80)\<lparr>ch_in :=
       sendmsg (w_fcall (newFcall NOTAG (MessageTversion 10 ''9P2000''))) @ [1]\<rparr>"
       NOTAG 10 "''9P2000''" "[1]"]
  by (simp add: chan_ready_def fresh_channel_def wf_string_def)

end
