(* ===== verification/P9_ServeConn.thy ===== *)
theory P9_ServeConn
  imports P9_Version
begin

text \<open>
  The server side of a connection (\<^verbatim>\<open>serveconn.go\<close>).  \<open>serve\<close> is a loop that receives requests
  and completed responses, with one goroutine per request in between.  The model is a step
  function on the state of the loop and its goroutines; an event names the branch of a
  \<^verbatim>\<open>select\<close> that is taken, so that a list of events is an interleaving.  Responses count as sent
  when the writer goroutine takes them, for which it has to be running: sending on \<open>responses\<close>
  and receiving from it are one joint step.  A wait of the loop in one of its inner selects is a
  state of its own only where it may never end; elsewhere the step happens when the wait ends,
  since the loop does nothing else meanwhile.
\<close>

section \<open>State\<close>

text \<open>
  A request's goroutine calls the handler and then offers its response to the loop.  Goroutines
  are numbered in the order of their requests; the number stands for the context and the cancel
  function of the \<open>activeRequest\<close> too.
\<close>

datatype goroutine =
    Handling Fcall
  | Completing Fcall Fcall
  | Finished Fcall

fun g_request :: "goroutine \<Rightarrow> Fcall" where
  "g_request (Handling req) = req"
| "g_request (Completing req _) = req"
| "g_request (Finished req) = req"

text \<open>
  \<open>sv_closed\<close> is \<open>c.err\<close> once the connection is closed, \<open>sv_ctx\<close> the error of the connection's
  context once that is cancelled, \<open>sv_writer\<close> tells whether the writer goroutine is running, and
  \<open>sv_result\<close> is what \<open>serve\<close> returned.  \<open>sv_waiting\<close> is set while the loop holds a completed
  response that no writer takes, to the active request and the response.  The last five fields
  record history: the requests received, the tags that a flush removed, for each response from a
  goroutine the active request that it was delivered for and the goroutine it came from, the tags
  whose response was dropped, and the request that the loop had in hand when it returned.
\<close>

record serve_state =
  sv_tags :: "Tag \<Rightarrow> nat option"
  sv_reqs :: "nat \<Rightarrow> goroutine option"
  sv_next :: nat
  sv_cancelled :: "nat set"
  sv_responses :: "Fcall list"
  sv_closed :: "error option"
  sv_ctx :: "error option"
  sv_writer :: bool
  sv_waiting :: "(nat \<times> Fcall) option"
  sv_result :: "error option"
  sv_received :: "Fcall list"
  sv_flushed :: "Tag list"
  sv_delivered :: "(nat \<times> nat) list"
  sv_dropped :: "Tag list"
  sv_left :: "Fcall list"

definition serve_init :: serve_state where
  "serve_init =
     \<lparr>sv_tags = (\<lambda>_. None), sv_reqs = (\<lambda>_. None), sv_next = 0, sv_cancelled = {},
      sv_responses = [], sv_closed = None, sv_ctx = None, sv_writer = True,
      sv_waiting = None, sv_result = None, sv_received = [], sv_flushed = [], sv_delivered = [],
      sv_dropped = [], sv_left = []\<rparr>"

text \<open>The two ways in which a select of the loop ends it: \<^verbatim>\<open>c.ctx.Done()\<close> and \<^verbatim>\<open>c.closed\<close>.\<close>

datatype loop_exit = ByContext | ByClosed

fun exit_error :: "loop_exit \<Rightarrow> serve_state \<Rightarrow> error option" where
  "exit_error ByContext st = sv_ctx st"
| "exit_error ByClosed st = sv_closed st"

datatype serve_event =
    GotRequest Fcall
  | HandlerReturns nat "error + Message"
  | GotCompleted nat
  | DropsCompleted nat
  | DropsWaiting
  | QuitsRequest Fcall loop_exit
  | Abandons nat
  | Closes "error option"
  | WriterStops "error option"
  | CtxDone error
  | Returns loop_exit

section \<open>Operations\<close>

definition respond :: "Fcall \<Rightarrow> serve_state \<Rightarrow> serve_state" where
  "respond resp st = st\<lparr>sv_responses := sv_responses st @ [resp]\<rparr>"

definition reqMap_remove :: "Tag \<Rightarrow> serve_state \<Rightarrow> bool \<times> serve_state" where
  "reqMap_remove t st =
     (case sv_tags st t of
        None \<Rightarrow> (False, st)
      | Some i \<Rightarrow>
          (True, st\<lparr>sv_cancelled := insert i (sv_cancelled st), sv_tags := (sv_tags st)(t := None),
                    sv_flushed := sv_flushed st @ [t]\<rparr>))"

text \<open>
  The branch \<^verbatim>\<open>case req := <-requests\<close>, up to the inner select: the state, and the response that is
  offered to the writer past the management of tags.  A request for the handler has none.
\<close>

definition serve_request :: "Fcall \<Rightarrow> serve_state \<Rightarrow> Fcall option \<times> serve_state" where
  "serve_request req st0 =
     (let st = st0\<lparr>sv_received := sv_received st0 @ [req]\<rparr> in
      if sv_tags st (fc_Tag req) \<noteq> None then (Some (newErrorFcall (fc_Tag req) ErrDuptag), st)
      else
        (case fc_Message req of
           Some (MessageTflush oldtag) \<Rightarrow>
             (case reqMap_remove oldtag st of
                (True, st') \<Rightarrow> (Some (newFcall (fc_Tag req) MessageRflush), st')
              | (False, st') \<Rightarrow> (Some (newErrorFcall (fc_Tag req) ErrUnknownTag), st'))
         | _ \<Rightarrow>
             (None,
              st\<lparr>sv_tags := (sv_tags st)(fc_Tag req := Some (sv_next st)),
                 sv_reqs := (sv_reqs st)(sv_next st := Some (Handling req)),
                 sv_next := sv_next st + 1\<rparr>)))"

text \<open>The goroutine's response to what \<open>Handle\<close> returned.\<close>

definition reply :: "Fcall \<Rightarrow> error + Message \<Rightarrow> Fcall" where
  "reply req res =
     (case res of Inl err \<Rightarrow> newErrorFcall (fc_Tag req) err | Inr msg \<Rightarrow> newFcall (fc_Tag req) msg)"

text \<open>
  The branch \<^verbatim>\<open>case resp := <-completed\<close>, where \<open>i\<close> is the goroutine that sends: the writer takes the
  response, or (\<open>dropped\<close>) the context of the active request is found to be done.  This select has
  no case for a closed connection, so that the loop waits when the writer has stopped.
\<close>

definition serve_drop :: "Fcall \<Rightarrow> serve_state \<Rightarrow> serve_state" where
  "serve_drop resp st =
     st\<lparr>sv_tags := (sv_tags st)(fc_Tag resp := None), sv_dropped := sv_dropped st @ [fc_Tag resp],
        sv_waiting := None\<rparr>"

definition serve_completed :: "bool \<Rightarrow> nat \<Rightarrow> Fcall \<Rightarrow> Fcall \<Rightarrow> serve_state \<Rightarrow> serve_state" where
  "serve_completed dropped i req resp st0 =
     (let st = st0\<lparr>sv_reqs := (sv_reqs st0)(i := Some (Finished req))\<rparr> in
      case sv_tags st (fc_Tag resp) of
        None \<Rightarrow> st
      | Some a \<Rightarrow>
          if dropped then serve_drop resp st
          else if sv_writer st
          then (respond resp st)\<lparr>sv_delivered := sv_delivered st @ [(a, i)],
                                 sv_tags := (sv_tags st)(fc_Tag resp := None)\<rparr>
          else st\<lparr>sv_waiting := Some (a, resp)\<rparr>)"

definition ctx_done :: "serve_state \<Rightarrow> nat \<Rightarrow> bool" where
  "ctx_done st i \<longleftrightarrow> i \<in> sv_cancelled st \<or> sv_ctx st \<noteq> None"

text \<open>\<open>CloseWithError\<close> keeps the first error.\<close>

definition CloseWithError :: "error option \<Rightarrow> serve_state \<Rightarrow> serve_state" where
  "CloseWithError err st =
     (case sv_closed st of
        Some _ \<Rightarrow> st
      | None \<Rightarrow> st\<lparr>sv_closed := Some (case err of None \<Rightarrow> ErrClosed | Some e \<Rightarrow> e)\<rparr>)"

text \<open>The deferred function cancels the requests that are still active.\<close>

definition serve_return :: "error \<Rightarrow> serve_state \<Rightarrow> serve_state" where
  "serve_return err st =
     st\<lparr>sv_result := Some err, sv_cancelled := sv_cancelled st \<union> {i. \<exists>t. sv_tags st t = Some i}\<rparr>"

text \<open>
  One step of the loop, of a goroutine or of the environment, where it is possible.  The loop is
  at its outer select while it has not returned and does not wait for the writer.
\<close>

definition selecting :: "serve_state \<Rightarrow> bool" where
  "selecting st \<longleftrightarrow> sv_result st = None \<and> sv_waiting st = None"

fun serve_step :: "serve_event \<Rightarrow> serve_state \<Rightarrow> serve_state option" where
  "serve_step (GotRequest req) st =
     (if selecting st
      then (case serve_request req st of
              (None, st') \<Rightarrow> Some st'
            | (Some resp, st') \<Rightarrow> if sv_writer st then Some (respond resp st') else None)
      else None)"
| "serve_step (QuitsRequest req x) st =
     (if selecting st
      then (case (serve_request req st, exit_error x st) of
              ((Some resp, st'), Some err) \<Rightarrow> Some (serve_return err (st'\<lparr>sv_left := [req]\<rparr>))
            | _ \<Rightarrow> None)
      else None)"
| "serve_step (HandlerReturns i res) st =
     (case sv_reqs st i of
        Some (Handling req) \<Rightarrow>
          Some (st\<lparr>sv_reqs := (sv_reqs st)(i := Some (Completing req (reply req res)))\<rparr>)
      | _ \<Rightarrow> None)"
| "serve_step (GotCompleted i) st =
     (case sv_reqs st i of
        Some (Completing req resp) \<Rightarrow>
          if selecting st then Some (serve_completed False i req resp st) else None
      | _ \<Rightarrow> None)"
| "serve_step (DropsCompleted i) st =
     (case sv_reqs st i of
        Some (Completing req resp) \<Rightarrow>
          (case sv_tags st (fc_Tag resp) of
             Some a \<Rightarrow> if selecting st \<and> ctx_done st a
                       then Some (serve_completed True i req resp st) else None
           | None \<Rightarrow> None)
      | _ \<Rightarrow> None)"
| "serve_step DropsWaiting st =
     (case sv_waiting st of
        Some (a, resp) \<Rightarrow> if ctx_done st a then Some (serve_drop resp st) else None
      | None \<Rightarrow> None)"
| "serve_step (Abandons i) st =
     (case sv_reqs st i of
        Some (Completing req resp) \<Rightarrow>
          if ctx_done st i \<or> sv_closed st \<noteq> None
          then Some (st\<lparr>sv_reqs := (sv_reqs st)(i := Some (Finished req))\<rparr>) else None
      | _ \<Rightarrow> None)"
| "serve_step (Closes err) st = Some (CloseWithError err st)"
| "serve_step (WriterStops werr) st =
     (if sv_writer st \<and> (werr \<noteq> None \<or> sv_ctx st \<noteq> None \<or> sv_closed st \<noteq> None)
      then Some ((CloseWithError (if werr = None then sv_ctx st else werr) st)\<lparr>sv_writer := False\<rparr>)
      else None)"
| "serve_step (CtxDone err) st = (if sv_ctx st = None then Some (st\<lparr>sv_ctx := Some err\<rparr>) else None)"
| "serve_step (Returns x) st =
     (if selecting st then map_option (\<lambda>err. serve_return err st) (exit_error x st) else None)"

fun serve_run :: "serve_event list \<Rightarrow> serve_state \<Rightarrow> serve_state option" where
  "serve_run [] st = Some st"
| "serve_run (e # es) st = (case serve_step e st of None \<Rightarrow> None | Some st' \<Rightarrow> serve_run es st')"

inductive reachable :: "serve_state \<Rightarrow> bool" where
  reachable_init: "reachable serve_init"
| reachable_step: "reachable st \<Longrightarrow> serve_step e st = Some st' \<Longrightarrow> reachable st'"

text \<open>
  The reader and the writer goroutine: one round each, with the event that it gives rise to.  A
  temporary error of the connection is passed over; the writer then has dropped the response.
  Any other error closes the connection and ends the goroutine.
\<close>

fun is_temporary :: "error \<Rightarrow> bool" where
  "is_temporary (NetErr timeout temporary _) = (timeout \<or> temporary)"
| "is_temporary _ = False"

definition conn_read :: "Context \<Rightarrow> channel \<Rightarrow> serve_event option \<times> channel" where
  "conn_read ctx ch =
     (case ReadFcall ctx ch of
        (Inr req, ch') \<Rightarrow> (Some (GotRequest req), ch')
      | (Inl err, ch') \<Rightarrow>
          (if is_temporary err then None
           else Some (Closes (Some (Errorf (''error reading fcall: '' @ error_text err)))), ch'))"

definition conn_write :: "Context \<Rightarrow> Fcall \<Rightarrow> channel \<Rightarrow> serve_event option \<times> channel" where
  "conn_write ctx resp ch =
     (case WriteFcall ctx ch resp of
        (Inr _, ch') \<Rightarrow> (None, ch')
      | (Inl err, ch') \<Rightarrow>
          (if is_temporary err then None
           else Some (WriterStops (Some (Errorf (''error writing fcall: '' @ error_text err)))), ch'))"

text \<open>\<open>ServeConn\<close>: negotiation on a new channel, then the loop, whose result goes to \<open>Stop\<close>.\<close>

definition ServeConn :: "Context \<Rightarrow> channel \<Rightarrow> serve_event list \<Rightarrow> (error \<Rightarrow> error option) \<Rightarrow>
    (error option) option" where
  "ServeConn ctx ch events handler_Stop =
     (case servernegotiate ctx ch DefaultVersion of
        (Some err, _) \<Rightarrow> Some (Some (Errorf (''error negotiating version: '' @ error_text err)))
      | (None, _) \<Rightarrow>
          (case serve_run events serve_init of
             None \<Rightarrow> None
           | Some st \<Rightarrow> (case sv_result st of None \<Rightarrow> None | Some err \<Rightarrow> Some (handler_Stop err))))"

inductive_cases reachableE: "reachable st"

lemma serve_run_reachable: "reachable st \<Longrightarrow> serve_run es st = Some st' \<Longrightarrow> reachable st'"
  by (induction es arbitrary: st) (auto split: option.splits intro: reachable_step)

section \<open>Invariants\<close>

abbreviation tag_of :: "serve_state \<Rightarrow> nat \<Rightarrow> Tag" where
  "tag_of st i \<equiv> fc_Tag (g_request (the (sv_reqs st i)))"

text \<open>Goroutines exist up to \<open>sv_next\<close>, and their responses carry the tag of their request.\<close>

definition inv_reqs :: "serve_state \<Rightarrow> bool" where
  "inv_reqs st \<longleftrightarrow>
     (\<forall>i. (sv_reqs st i = None) = (sv_next st \<le> i)) \<and>
     (\<forall>i req resp. sv_reqs st i = Some (Completing req resp) \<longrightarrow> fc_Tag resp = fc_Tag req)"

text \<open>
  A tag is active for a goroutine with a request of that tag, which is not cancelled while the
  loop runs, and not finished while the connection is open.
\<close>

definition tag_ok :: "serve_state \<Rightarrow> Tag \<Rightarrow> nat \<Rightarrow> bool" where
  "tag_ok st t i \<longleftrightarrow>
     i < sv_next st \<and> tag_of st i = t \<and>
     (sv_result st = None \<longrightarrow> i \<notin> sv_cancelled st) \<and>
     (sv_result st = None \<and> sv_ctx st = None \<and> sv_closed st = None \<longrightarrow>
        (\<forall>req. sv_reqs st i \<noteq> Some (Finished req)))"

definition inv_tags :: "serve_state \<Rightarrow> bool" where
  "inv_tags st \<longleftrightarrow>
     (\<forall>t i. sv_tags st t = Some i \<longrightarrow> tag_ok st t i) \<and> (\<forall>i\<in>sv_cancelled st. i < sv_next st)"

abbreviation n_tag :: "Tag \<Rightarrow> Fcall list \<Rightarrow> nat" where
  "n_tag t fs \<equiv> count_list (map fc_Tag fs) t"

definition n_active :: "serve_state \<Rightarrow> Tag \<Rightarrow> nat" where
  "n_active st t = (if sv_tags st t = None then 0 else 1)"

definition balance :: "serve_state \<Rightarrow> Tag \<Rightarrow> nat" where
  "balance st t =
     n_tag t (sv_responses st) + count_list (sv_flushed st) t + count_list (sv_dropped st) t +
     n_active st t + n_tag t (sv_left st)"

definition inv_count :: "serve_state \<Rightarrow> bool" where
  "inv_count st \<longleftrightarrow> (\<forall>t. n_tag t (sv_received st) = balance st t)"

lemmas count_defs = inv_count_def balance_def n_active_def

text \<open>
  Responses are dropped only when the context is cancelled and a request is left only by the
  return; the writer stops after the connection was closed, and the loop waits for it only then.
\<close>

definition inv_stop :: "serve_state \<Rightarrow> bool" where
  "inv_stop st \<longleftrightarrow>
     (sv_ctx st = None \<longrightarrow> sv_dropped st = []) \<and>
     length (sv_left st) \<le> 1 \<and> (sv_result st = None \<longrightarrow> sv_left st = []) \<and>
     (sv_writer st \<or> sv_closed st \<noteq> None) \<and>
     (\<forall>a resp. sv_waiting st = Some (a, resp) \<longrightarrow>
        \<not> sv_writer st \<and> sv_result st = None \<and> sv_tags st (fc_Tag resp) = Some a)"

text \<open>With tags that are never used twice, tags identify goroutines.\<close>

definition inv_fresh :: "serve_state \<Rightarrow> bool" where
  "inv_fresh st \<longleftrightarrow>
     (\<forall>i < sv_next st. tag_of st i \<in> fc_Tag ` set (sv_received st)) \<and>
     (distinct (map fc_Tag (sv_received st)) \<longrightarrow>
        inj_on (tag_of st) {..<sv_next st} \<and> (\<forall>(a, i)\<in>set (sv_delivered st). a = i))"

lemma newErrorFcall_tag [simp]: "fc_Tag (newErrorFcall t e) = t"
  using newErrorFcall_frame [of t e] by (metis newFcall_simps(2))

lemma reply_tag [simp]: "fc_Tag (reply req res) = fc_Tag req"
  by (simp add: reply_def split: sum.splits)

lemma serve_request_cases:
  obtains (dup) "sv_tags st (fc_Tag req) \<noteq> None"
      "serve_request req st =
         (Some (newErrorFcall (fc_Tag req) ErrDuptag), st\<lparr>sv_received := sv_received st @ [req]\<rparr>)"
  | (flush) oldtag i where "sv_tags st (fc_Tag req) = None" "sv_tags st oldtag = Some i"
      "serve_request req st =
         (Some (newFcall (fc_Tag req) MessageRflush),
          st\<lparr>sv_received := sv_received st @ [req], sv_cancelled := insert i (sv_cancelled st),
             sv_tags := (sv_tags st)(oldtag := None), sv_flushed := sv_flushed st @ [oldtag]\<rparr>)"
  | (unknown) oldtag where "sv_tags st (fc_Tag req) = None" "sv_tags st oldtag = None"
      "serve_request req st =
         (Some (newErrorFcall (fc_Tag req) ErrUnknownTag), st\<lparr>sv_received := sv_received st @ [req]\<rparr>)"
  | (start) "sv_tags st (fc_Tag req) = None"
      "serve_request req st =
         (None, st\<lparr>sv_received := sv_received st @ [req],
            sv_tags := (sv_tags st)(fc_Tag req := Some (sv_next st)),
            sv_reqs := (sv_reqs st)(sv_next st := Some (Handling req)), sv_next := sv_next st + 1\<rparr>)"
proof (cases "sv_tags st (fc_Tag req)")
  case tag: None
  show ?thesis
  proof (cases "\<exists>oldtag. fc_Message req = Some (MessageTflush oldtag)")
    case True
    then obtain oldtag where o: "fc_Message req = Some (MessageTflush oldtag)" by blast
    show ?thesis
      using o tag flush [of oldtag] unknown [of oldtag]
      by (cases "sv_tags st oldtag") (simp_all add: serve_request_def reqMap_remove_def)
  next
    case False
    have "serve_request req st =
         (None, st\<lparr>sv_received := sv_received st @ [req],
            sv_tags := (sv_tags st)(fc_Tag req := Some (sv_next st)),
            sv_reqs := (sv_reqs st)(sv_next st := Some (Handling req)), sv_next := sv_next st + 1\<rparr>)"
      using False tag
      by (simp add: serve_request_def Let_def split: option.splits Message.splits)
    with tag show ?thesis by (rule start)
  qed
next
  case (Some a)
  then show ?thesis using dup by (simp add: serve_request_def)
qed

lemma request_handled:
  assumes "\<forall>old. m \<noteq> MessageTflush old" and "sv_tags st x = None"
  shows "serve_request (newFcall x m) st =
    (None, st\<lparr>sv_received := sv_received st @ [newFcall x m], sv_tags := (sv_tags st)(x := Some (sv_next st)),
       sv_reqs := (sv_reqs st)(sv_next st := Some (Handling (newFcall x m))), sv_next := sv_next st + 1\<rparr>)"
  using assms by (simp add: serve_request_def Let_def split: Message.splits)

lemma request_flush:
  assumes "sv_tags st x = None" and "sv_tags st y = Some i"
  shows "serve_request (newFcall x (MessageTflush y)) st =
    (Some (newFcall x MessageRflush), snd (reqMap_remove y (st\<lparr>sv_received :=
      sv_received st @ [newFcall x (MessageTflush y)]\<rparr>)))"
  using assms by (simp add: serve_request_def reqMap_remove_def)

text \<open>What a request leaves alone, and the tag of the response that bypasses the management of tags.\<close>

lemma request_frame:
  assumes "serve_request req st = (ro, st1)"
  shows "sv_result st1 = sv_result st" "sv_ctx st1 = sv_ctx st" "sv_closed st1 = sv_closed st"
    "sv_writer st1 = sv_writer st" "sv_waiting st1 = sv_waiting st" "sv_dropped st1 = sv_dropped st"
    "sv_left st1 = sv_left st" "sv_responses st1 = sv_responses st" "ro = Some resp \<Longrightarrow> fc_Tag resp = fc_Tag req"
  by (cases rule: serve_request_cases [of st req]; use assms in auto)+

text \<open>The steps of the loop on a request.\<close>

lemma request_step:
  assumes "serve_step (GotRequest req) st = Some st'"
  obtains (handled) "selecting st" "serve_request req st = (None, st')"
  | (answered) resp st1 where "selecting st" "serve_request req st = (Some resp, st1)" "sv_writer st"
      "st' = respond resp st1"
proof (cases "serve_request req st")
  case (Pair ro st1)
  with assms that show ?thesis by (cases ro) (auto split: if_splits)
qed

lemma quit_step:
  assumes "serve_step (QuitsRequest req x) st = Some st'"
  obtains resp st1 err where "selecting st" "serve_request req st = (Some resp, st1)"
    "exit_error x st = Some err" "st' = serve_return err (st1\<lparr>sv_left := [req]\<rparr>)"
proof (cases "serve_request req st")
  case (Pair ro st1)
  with assms that show ?thesis by (cases ro) (auto split: if_splits option.splits)
qed

lemma inv_reqs_live: "inv_reqs st \<Longrightarrow> sv_reqs st i = Some g \<Longrightarrow> i < sv_next st"
  unfolding inv_reqs_def by (metis not_le option.distinct(1))

lemma inv_reqs_completing:
  "inv_reqs st \<Longrightarrow> sv_reqs st i = Some (Completing req resp) \<Longrightarrow> fc_Tag resp = fc_Tag req"
  unfolding inv_reqs_def by blast

lemma inv_tags_tag:
  "inv_tags st \<Longrightarrow> sv_tags st t = Some i \<Longrightarrow> sv_reqs st i = Some g \<Longrightarrow> t = fc_Tag (g_request g)"
  unfolding inv_tags_def tag_ok_def by (metis option.sel)

text \<open>A goroutine moves on.\<close>

lemma goroutine_inv:
  assumes "inv_reqs st" and "inv_tags st" and "inv_count st" and "sv_reqs st i = Some g"
    and "g_request g' = g_request g"
    and "case g' of Completing req resp \<Rightarrow> fc_Tag resp = fc_Tag req | _ \<Rightarrow> True"
    and "(\<forall>t. sv_tags st t \<noteq> Some i) \<or> (\<forall>req. g' \<noteq> Finished req) \<or>
         sv_ctx st \<noteq> None \<or> sv_closed st \<noteq> None \<or> sv_result st \<noteq> None"
  shows "let st' = st\<lparr>sv_reqs := (sv_reqs st)(i := Some g')\<rparr> in
         inv_reqs st' \<and> inv_tags st' \<and> inv_count st'"
proof -
  have "i < sv_next st" using inv_reqs_live assms(1,4) by blast
  then have 1: "inv_reqs (st\<lparr>sv_reqs := (sv_reqs st)(i := Some g')\<rparr>)"
    using assms(1,6) by (auto simp: inv_reqs_def split: goroutine.splits)
  have 3: "inv_count (st\<lparr>sv_reqs := (sv_reqs st)(i := Some g')\<rparr>)"
    using assms(3) by (simp add: count_defs)
  have "tag_ok (st\<lparr>sv_reqs := (sv_reqs st)(i := Some g')\<rparr>) t j" if t: "sv_tags st t = Some j" for t j
  proof -
    have ok: "tag_ok st t j" using assms(2) t by (simp add: inv_tags_def)
    show ?thesis
    proof (cases "j = i")
      case True
      then have "sv_tags st t = Some i" using t by simp
      then show ?thesis using ok assms(4,5,7) True by (auto simp: tag_ok_def)
    next
      case False
      then show ?thesis using ok by (simp add: tag_ok_def)
    qed
  qed
  then have "inv_tags (st\<lparr>sv_reqs := (sv_reqs st)(i := Some g')\<rparr>)"
    using assms(2) by (simp add: inv_tags_def)
  with 1 3 show ?thesis by (simp add: Let_def)
qed

text \<open>A tag stops being active, because its response is sent or dropped.\<close>

lemma release_inv:
  assumes "inv_reqs st" and "inv_tags st" and "inv_count st" and "sv_tags st t = Some i"
    and "map fc_Tag resps @ drops = [t]"
  shows "let st' = st\<lparr>sv_tags := (sv_tags st)(t := None), sv_responses := sv_responses st @ resps,
                      sv_dropped := sv_dropped st @ drops, sv_delivered := d, sv_waiting := w\<rparr> in
         inv_reqs st' \<and> inv_tags st' \<and> inv_count st'"
proof -
  consider "map fc_Tag resps = [t]" "drops = []" | "resps = []" "drops = [t]"
    using assms(5) by (cases resps) auto
  then show ?thesis
    using assms(1-4) by cases (auto simp: inv_reqs_def inv_tags_def tag_ok_def count_defs Let_def)
qed

lemma request_inv:
  assumes "inv_reqs st" and "inv_tags st" and "inv_count st" and "sv_result st = None"
    and "serve_request req st = (ro, st1)"
  shows "inv_reqs st1 \<and> inv_tags st1 \<and>
         (\<forall>t. n_tag t (sv_received st1) =
                balance st1 t + (if ro \<noteq> None \<and> t = fc_Tag req then 1 else 0))"
proof (cases rule: serve_request_cases [of st req])
  case dup
  with assms(5) have "ro \<noteq> None" "st1 = st\<lparr>sv_received := sv_received st @ [req]\<rparr>" by auto
  with assms(1-4) show ?thesis
    by (auto simp: inv_reqs_def inv_tags_def tag_ok_def count_defs)
next
  case (flush oldtag i)
  have 1: "\<And>t. sv_tags st t = Some i \<Longrightarrow> t = oldtag"
    using flush(2) assms(2) unfolding inv_tags_def tag_ok_def by metis
  have 2: "i < sv_next st" using flush(2) assms(2) unfolding inv_tags_def tag_ok_def by metis
  from flush(3) assms(5) have "ro \<noteq> None"
    and st1: "st1 = st\<lparr>sv_received := sv_received st @ [req], sv_cancelled := insert i (sv_cancelled st),
         sv_tags := (sv_tags st)(oldtag := None), sv_flushed := sv_flushed st @ [oldtag]\<rparr>" by auto
  then show ?thesis
    using assms(1-4) flush(1,2) 2
    by (auto simp: inv_reqs_def inv_tags_def tag_ok_def count_defs dest: 1)
next
  case (unknown oldtag)
  with assms(5) have "ro \<noteq> None" "st1 = st\<lparr>sv_received := sv_received st @ [req]\<rparr>" by auto
  with assms(1-4) show ?thesis
    by (auto simp: inv_reqs_def inv_tags_def tag_ok_def count_defs)
next
  case start
  have n: "sv_reqs st (sv_next st) = None" "sv_next st \<notin> sv_cancelled st"
    using assms(1,2) by (auto simp: inv_reqs_def inv_tags_def)
  have "i \<noteq> sv_next st" if "sv_tags st t = Some i" for t i
    using that assms(2) unfolding inv_tags_def tag_ok_def by blast
  moreover from start(2) assms(5) have ro: "ro = None" and st1: "st1 = st\<lparr>sv_received := sv_received st @ [req],
      sv_tags := (sv_tags st)(fc_Tag req := Some (sv_next st)),
      sv_reqs := (sv_reqs st)(sv_next st := Some (Handling req)), sv_next := sv_next st + 1\<rparr>" by auto
  ultimately have 2: "inv_tags st1"
    using n assms(2) by (auto simp: inv_tags_def tag_ok_def less_Suc_eq)
  have "inv_reqs st1" unfolding st1 using assms(1) by (auto simp: inv_reqs_def)
  moreover have "n_tag t (sv_received st1) = balance st1 t" for t
    unfolding st1 using assms(3) start(1) by (auto simp: count_defs)
  ultimately show ?thesis using 2 ro by simp
qed

text \<open>A request that is answered past the management of tags, and one that the loop leaves.\<close>

lemma bypass_inv:
  assumes "inv_reqs st1" and "inv_tags st1"
    and "\<forall>t. n_tag t (sv_received st1) = balance st1 t + (if t = fc_Tag req then 1 else 0)"
  shows "fc_Tag resp = fc_Tag req \<Longrightarrow>
      inv_reqs (respond resp st1) \<and> inv_tags (respond resp st1) \<and> inv_count (respond resp st1)"
    and "sv_left st1 = [] \<Longrightarrow> sv_result st1 = None \<Longrightarrow>
      let st' = serve_return err (st1\<lparr>sv_left := [req]\<rparr>) in inv_reqs st' \<and> inv_tags st' \<and> inv_count st'"
  using assms
  by (auto simp: respond_def serve_return_def inv_reqs_def inv_tags_def tag_ok_def count_defs Let_def)

lemma completed_inv:
  assumes inv: "inv_reqs st" "inv_tags st" "inv_count st"
    and r: "sv_reqs st i = Some (Completing req resp)"
    and w: "sv_writer st \<or> sv_closed st \<noteq> None" and d: "sv_waiting st = None"
  shows "inv_reqs (serve_completed dropped i req resp st) \<and>
         inv_tags (serve_completed dropped i req resp st) \<and>
         inv_count (serve_completed dropped i req resp st)"
proof (cases "sv_tags st (fc_Tag resp)")
  case None
  then have "sv_tags st t \<noteq> Some i" for t
    using inv_tags_tag [OF inv(2) _ r] inv_reqs_completing [OF inv(1) r] by auto
  with goroutine_inv [OF inv r, of "Finished req"] None show ?thesis
    by (simp add: serve_completed_def Let_def)
next
  case (Some a)
  show ?thesis
  proof (cases "dropped \<or> sv_writer st")
    case True
    let ?st = "st\<lparr>sv_tags := (sv_tags st)(fc_Tag resp := None),
        sv_responses := sv_responses st @ (if dropped then [] else [resp]),
        sv_dropped := sv_dropped st @ (if dropped then [fc_Tag resp] else []),
        sv_delivered := sv_delivered st @ (if dropped then [] else [(a, i)]), sv_waiting := None\<rparr>"
    have rel: "inv_reqs ?st \<and> inv_tags ?st \<and> inv_count ?st"
      using release_inv [OF inv Some, of "if dropped then [] else [resp]"
          "if dropped then [fc_Tag resp] else []"]
      by (auto simp: Let_def)
    have "sv_tags st t = Some i \<Longrightarrow> t = fc_Tag resp" for t
      using inv_tags_tag [OF inv(2) _ r] inv_reqs_completing [OF inv(1) r] by auto
    then have "sv_tags ?st t \<noteq> Some i" for t by auto
    with goroutine_inv [of ?st i "Completing req resp" "Finished req"] rel r
    have "inv_reqs (?st\<lparr>sv_reqs := (sv_reqs ?st)(i := Some (Finished req))\<rparr>) \<and>
          inv_tags (?st\<lparr>sv_reqs := (sv_reqs ?st)(i := Some (Finished req))\<rparr>) \<and>
          inv_count (?st\<lparr>sv_reqs := (sv_reqs ?st)(i := Some (Finished req))\<rparr>)"
      by (simp add: Let_def)
    moreover have "serve_completed dropped i req resp st =
        ?st\<lparr>sv_reqs := (sv_reqs ?st)(i := Some (Finished req))\<rparr>"
      using Some True d by (auto simp: serve_completed_def serve_drop_def respond_def Let_def)
    ultimately show ?thesis by simp
  next
    case False
    let ?st = "st\<lparr>sv_reqs := (sv_reqs st)(i := Some (Finished req))\<rparr>"
    have "inv_reqs ?st \<and> inv_tags ?st \<and> inv_count ?st"
      using goroutine_inv [OF inv r, of "Finished req"] False w by (simp add: Let_def)
    then have "inv_reqs (?st\<lparr>sv_waiting := Some (a, resp)\<rparr>) \<and> inv_tags (?st\<lparr>sv_waiting := Some (a, resp)\<rparr>) \<and>
        inv_count (?st\<lparr>sv_waiting := Some (a, resp)\<rparr>)"
      by (simp add: inv_reqs_def inv_tags_def tag_ok_def count_defs)
    then show ?thesis using Some False by (simp add: serve_completed_def Let_def)
  qed
qed

text \<open>A loop that finds the context of an active request done has a cancelled connection context.\<close>

lemma ctx_done_cancelled:
  assumes "inv_tags st" and "sv_tags st t = Some a" and "sv_result st = None" and "ctx_done st a"
  shows "sv_ctx st \<noteq> None"
  using assms unfolding inv_tags_def tag_ok_def ctx_done_def by metis

lemma close_inv:
  assumes "inv_reqs st" and "inv_tags st" and "inv_count st"
  shows "inv_reqs (CloseWithError err st) \<and> inv_tags (CloseWithError err st) \<and>
         inv_count (CloseWithError err st)"
  using assms
  by (cases "sv_closed st") (auto simp: CloseWithError_def inv_reqs_def inv_tags_def tag_ok_def count_defs)

lemma drop_step:
  assumes "serve_step (DropsCompleted i) st = Some st'"
  obtains req resp a where "selecting st" "sv_reqs st i = Some (Completing req resp)"
    "sv_tags st (fc_Tag resp) = Some a" "ctx_done st a" "st' = serve_completed True i req resp st"
  using assms by (auto split: option.splits goroutine.splits if_splits)

lemma completed_step:
  assumes "serve_step (GotCompleted i) st = Some st'"
  obtains req resp where "selecting st" "sv_reqs st i = Some (Completing req resp)"
    "st' = serve_completed False i req resp st"
  using assms by (auto split: option.splits goroutine.splits if_splits)

lemma waiting_step:
  assumes "serve_step DropsWaiting st = Some st'"
  obtains a resp where "sv_waiting st = Some (a, resp)" "ctx_done st a" "st' = serve_drop resp st"
  using assms by (auto split: option.splits if_splits)

lemma step_stop:
  assumes "inv_tags st" and "inv_stop st" and e: "serve_step e st = Some st'"
  shows "inv_stop st'"
proof (cases e)
  case (GotRequest req)
  with e have "serve_step (GotRequest req) st = Some st'" by simp
  then show ?thesis
    by (cases rule: request_step)
      (use assms(2) in \<open>auto simp: selecting_def inv_stop_def respond_def dest: request_frame\<close>)
next
  case (QuitsRequest req x)
  with e have "serve_step (QuitsRequest req x) st = Some st'" by simp
  then show ?thesis
    by (cases rule: quit_step)
      (use assms(2) in \<open>auto simp: selecting_def inv_stop_def serve_return_def dest: request_frame\<close>)
next
  case (GotCompleted i)
  with e have "serve_step (GotCompleted i) st = Some st'" by simp
  then show ?thesis
    by (cases rule: completed_step)
      (use assms(2) in \<open>auto simp: selecting_def inv_stop_def serve_completed_def respond_def Let_def
        split: option.splits\<close>)
next
  case (DropsCompleted i)
  with e have "serve_step (DropsCompleted i) st = Some st'" by simp
  then show ?thesis
  proof (cases rule: drop_step)
    case (1 req resp a)
    with ctx_done_cancelled [OF assms(1) 1(3)] assms(2) show ?thesis
      by (auto simp: selecting_def inv_stop_def serve_completed_def serve_drop_def Let_def)
  qed
next
  case DropsWaiting
  with e have "serve_step DropsWaiting st = Some st'" by simp
  then show ?thesis
  proof (cases rule: waiting_step)
    case (1 a resp)
    with assms(2) have "sv_tags st (fc_Tag resp) = Some a" "sv_result st = None"
      by (simp_all add: inv_stop_def)
    with ctx_done_cancelled [OF assms(1)] 1 assms(2) show ?thesis
      by (auto simp: inv_stop_def serve_drop_def)
  qed
next
  case (Returns x)
  then show ?thesis
    using e assms(2) by (auto simp: selecting_def inv_stop_def serve_return_def split: if_splits)
qed (use e assms(2) in \<open>auto simp: inv_stop_def CloseWithError_def
      split: option.splits goroutine.splits if_splits\<close>)

lemma step_inv:
  assumes inv: "inv_reqs st" "inv_tags st" "inv_count st" and stop: "inv_stop st"
    and e: "serve_step e st = Some st'"
  shows "inv_reqs st' \<and> inv_tags st' \<and> inv_count st'"
proof (cases e)
  case (GotRequest req)
  with e have "serve_step (GotRequest req) st = Some st'" by simp
  then show ?thesis
  proof (cases rule: request_step)
    case handled
    then show ?thesis using request_inv [OF inv] by (simp add: selecting_def inv_count_def)
  next
    case (answered resp st1)
    then have "inv_reqs st1" "inv_tags st1"
      "\<forall>t. n_tag t (sv_received st1) = balance st1 t + (if t = fc_Tag req then 1 else 0)"
      using request_inv [OF inv _ answered(2)] by (simp_all add: selecting_def)
    from bypass_inv(1) [OF this] request_frame(9) [OF answered(2)] show ?thesis
      by (simp add: answered(4))
  qed
next
  case (QuitsRequest req x)
  with e have "serve_step (QuitsRequest req x) st = Some st'" by simp
  then show ?thesis
  proof (cases rule: quit_step)
    case (1 resp st1 err)
    then have "inv_reqs st1" "inv_tags st1"
      "\<forall>t. n_tag t (sv_received st1) = balance st1 t + (if t = fc_Tag req then 1 else 0)"
      using request_inv [OF inv _ 1(2)] by (simp_all add: selecting_def)
    from bypass_inv(2) [OF this] request_frame(1,7) [OF 1(2)] 1(1) stop show ?thesis
      by (simp add: 1(4) Let_def selecting_def inv_stop_def)
  qed
next
  case (HandlerReturns i res)
  then obtain req where r: "sv_reqs st i = Some (Handling req)"
    "st' = st\<lparr>sv_reqs := (sv_reqs st)(i := Some (Completing req (reply req res)))\<rparr>"
    using e by (auto split: option.splits goroutine.splits)
  from goroutine_inv [OF inv r(1), of "Completing req (reply req res)"] show ?thesis
    unfolding r(2) by (simp add: Let_def)
next
  case (GotCompleted i)
  with e have "serve_step (GotCompleted i) st = Some st'" by simp
  then show ?thesis
    by (cases rule: completed_step)
      (use stop in \<open>simp add: completed_inv [OF inv] selecting_def inv_stop_def\<close>)
next
  case (DropsCompleted i)
  with e have "serve_step (DropsCompleted i) st = Some st'" by simp
  then show ?thesis
    by (cases rule: drop_step)
      (use stop in \<open>simp add: completed_inv [OF inv] selecting_def inv_stop_def\<close>)
next
  case DropsWaiting
  with e have "serve_step DropsWaiting st = Some st'" by simp
  then show ?thesis
  proof (cases rule: waiting_step)
    case (1 a resp)
    with stop have "sv_tags st (fc_Tag resp) = Some a" by (simp add: inv_stop_def)
    from release_inv [OF inv this, where resps = "[]" and drops = "[fc_Tag resp]" and d = "sv_delivered st" and w = None] show ?thesis
      by (simp add: 1(3) serve_drop_def Let_def)
  qed
next
  case (Abandons i)
  then obtain req resp where r: "sv_reqs st i = Some (Completing req resp)"
    "st' = st\<lparr>sv_reqs := (sv_reqs st)(i := Some (Finished req))\<rparr>" "ctx_done st i \<or> sv_closed st \<noteq> None"
    using e by (auto split: option.splits goroutine.splits if_splits)
  have "i \<in> sv_cancelled st \<Longrightarrow> sv_result st = None \<Longrightarrow> sv_tags st t \<noteq> Some i" for t
    using inv(2) unfolding inv_tags_def tag_ok_def by metis
  with r(3) have "(\<forall>t. sv_tags st t \<noteq> Some i) \<or> sv_ctx st \<noteq> None \<or> sv_closed st \<noteq> None \<or>
      sv_result st \<noteq> None"
    by (auto simp: ctx_done_def)
  with goroutine_inv [OF inv r(1), of "Finished req"] show ?thesis
    unfolding r(2) by (auto simp: Let_def)
next
  case (Closes err)
  then show ?thesis using close_inv [OF inv, of err] e by auto
next
  case (WriterStops werr)
  then obtain err where "st' = (CloseWithError err st)\<lparr>sv_writer := False\<rparr>" using e by (auto split: if_splits)
  with close_inv [OF inv, of err] show ?thesis
    by (simp add: inv_reqs_def inv_tags_def tag_ok_def count_defs)
next
  case (CtxDone err)
  then have "st' = st\<lparr>sv_ctx := Some err\<rparr>" using e by (auto split: if_splits)
  with inv show ?thesis by (simp add: inv_reqs_def inv_tags_def tag_ok_def count_defs)
next
  case (Returns x)
  then obtain err where "st' = serve_return err st" "sv_result st = None"
    using e by (auto simp: selecting_def split: if_splits)
  then show ?thesis using inv
    by (auto simp: serve_return_def inv_reqs_def inv_tags_def tag_ok_def count_defs)
qed

lemma reachable_inv: "reachable st \<Longrightarrow> inv_reqs st \<and> inv_tags st \<and> inv_count st \<and> inv_stop st"
proof (induction rule: reachable.induct)
  case reachable_init
  show ?case by (simp add: serve_init_def inv_reqs_def inv_tags_def tag_ok_def count_defs inv_stop_def)
next
  case (reachable_step st e st')
  then show ?case using step_inv step_stop by blast
qed

text \<open>Tags that are never used twice: every step keeps tags and goroutines in step.\<close>

lemma inv_fresh_frame:
  assumes "inv_fresh st" and "sv_next st' = sv_next st" and "sv_received st' = sv_received st"
    and "sv_delivered st' = sv_delivered st"
    and "\<And>i. i < sv_next st \<Longrightarrow> tag_of st' i = tag_of st i"
  shows "inv_fresh st'"
proof -
  have "inj_on (tag_of st') {..<sv_next st} = inj_on (tag_of st) {..<sv_next st}"
    by (rule inj_on_cong) (simp add: assms(5))
  with assms show ?thesis unfolding inv_fresh_def by simp
qed

lemma request_fresh:
  assumes "inv_fresh st"
  shows "inv_fresh (snd (serve_request req st))"
proof (cases rule: serve_request_cases [of st req])
  case dup
  show ?thesis unfolding dup(2) using assms by (auto simp: inv_fresh_def)
next
  case (flush oldtag i)
  show ?thesis unfolding flush(3) using assms by (auto simp: inv_fresh_def)
next
  case (unknown oldtag)
  show ?thesis unfolding unknown(3) using assms by (auto simp: inv_fresh_def)
next
  case start
  let ?st = "snd (serve_request req st)"
  have t: "tag_of ?st i = (if i = sv_next st then fc_Tag req else tag_of st i)" for i
    by (simp add: start(2))
  have "inj_on (tag_of ?st) {..<Suc (sv_next st)}"
    if d: "distinct (map fc_Tag (sv_received st @ [req]))"
  proof -
    have "inj_on (tag_of ?st) {..<sv_next st} = inj_on (tag_of st) {..<sv_next st}"
      by (rule inj_on_cong) (simp add: t)
    then have "inj_on (tag_of ?st) {..<sv_next st}" using assms d by (simp add: inv_fresh_def)
    moreover have "tag_of ?st (sv_next st) \<notin> tag_of ?st ` {..<sv_next st}"
      using assms d by (auto simp: inv_fresh_def t)
    ultimately show ?thesis by (simp add: lessThan_Suc)
  qed
  moreover have "\<forall>i < Suc (sv_next st). tag_of ?st i \<in> fc_Tag ` set (sv_received st @ [req])"
    using assms by (auto simp: inv_fresh_def t less_Suc_eq)
  ultimately show ?thesis using assms by (auto simp: inv_fresh_def start(2))
qed

lemma completed_fresh:
  assumes "inv_fresh st" and "inv_reqs st" and "inv_tags st"
    and r: "sv_reqs st i = Some (Completing req resp)"
  shows "inv_fresh (serve_completed dropped i req resp st)"
proof -
  let ?st = "st\<lparr>sv_reqs := (sv_reqs st)(i := Some (Finished req))\<rparr>"
  have f: "inv_fresh ?st"
    by (rule inv_fresh_frame [OF assms(1)]) (use r in auto)
  have "a = i" if a: "sv_tags st (fc_Tag resp) = Some a" and d: "distinct (map fc_Tag (sv_received st))" for a
  proof -
    have "a < sv_next st" "tag_of st a = fc_Tag resp"
      using a assms(3) unfolding inv_tags_def tag_ok_def by blast+
    moreover have "i < sv_next st" "tag_of st i = fc_Tag resp"
      using inv_reqs_live [OF assms(2) r] inv_reqs_completing [OF assms(2) r] r by simp_all
    moreover have inj: "inj_on (tag_of st) {..<sv_next st}" using assms(1) d by (simp add: inv_fresh_def)
    ultimately show ?thesis using inj_onD [OF inj, of a i] by simp
  qed
  with f show ?thesis
    by (auto simp: serve_completed_def serve_drop_def respond_def inv_fresh_def Let_def split: option.splits)
qed

lemma reachable_fresh: "reachable st \<Longrightarrow> inv_fresh st"
proof (induction rule: reachable.induct)
  case reachable_init
  show ?case by (simp add: serve_init_def inv_fresh_def)
next
  case (reachable_step st e st')
  then have inv: "inv_reqs st" "inv_tags st" using reachable_inv by blast+
  note IH = reachable_step.IH and e = reachable_step.hyps(2)
  show ?case
  proof (cases e)
    case (GotRequest req)
    with e have "serve_step (GotRequest req) st = Some st'" by simp
    then show ?thesis
      by (cases rule: request_step)
        (use request_fresh [OF IH, of req] in \<open>auto simp: respond_def inv_fresh_def\<close>)
  next
    case (QuitsRequest req x)
    with e have "serve_step (QuitsRequest req x) st = Some st'" by simp
    then show ?thesis
      by (cases rule: quit_step)
        (use request_fresh [OF IH, of req] in \<open>auto simp: serve_return_def inv_fresh_def\<close>)
  next
    case (HandlerReturns i res)
    then show ?thesis using e
      by (auto split: option.splits goroutine.splits intro!: inv_fresh_frame [OF IH])
  next
    case (GotCompleted i)
    with e have "serve_step (GotCompleted i) st = Some st'" by simp
    then show ?thesis by (cases rule: completed_step) (simp add: completed_fresh [OF IH inv])
  next
    case (DropsCompleted i)
    with e have "serve_step (DropsCompleted i) st = Some st'" by simp
    then show ?thesis by (cases rule: drop_step) (simp add: completed_fresh [OF IH inv])
  next
    case DropsWaiting
    with e have "serve_step DropsWaiting st = Some st'" by simp
    then show ?thesis
      by (cases rule: waiting_step) (auto simp: serve_drop_def intro!: inv_fresh_frame [OF IH])
  next
    case (WriterStops werr)
    then show ?thesis using e
      by (auto simp: CloseWithError_def split: option.splits if_splits intro!: inv_fresh_frame [OF IH] IH)
  next
    case (Abandons i)
    then show ?thesis using e
      by (auto split: option.splits goroutine.splits if_splits intro!: inv_fresh_frame [OF IH])
  next
    case (Closes err)
    then show ?thesis using e
      by (auto simp: CloseWithError_def split: option.splits intro!: inv_fresh_frame [OF IH] IH)
  next
    case (CtxDone err)
    then show ?thesis using e by (auto split: if_splits intro!: inv_fresh_frame [OF IH])
  next
    case (Returns x)
    then show ?thesis using e
      by (auto simp: serve_return_def split: option.splits if_splits intro!: inv_fresh_frame [OF IH])
  qed
qed

section \<open>Properties\<close>


definition sample_events :: "serve_event list" where
  "sample_events =
     [GotRequest (newFcall 1 (MessageTclunk 7)), GotRequest (newFcall 1 (MessageTclunk 8)),
      GotRequest (newFcall 2 (MessageTclunk 9)), HandlerReturns 1 (Inl ErrUnknownfid), GotCompleted 1]"

definition sample_serve :: serve_state where
  "sample_serve = the (serve_run sample_events serve_init)"

lemma sample_serve_reachable: "reachable sample_serve"
proof -
  have "\<exists>st. serve_run sample_events serve_init = Some st"
    by (simp add: sample_events_def serve_init_def serve_request_def serve_completed_def respond_def
        reqMap_remove_def selecting_def)
  then show ?thesis
    unfolding sample_serve_def using serve_run_reachable [OF reachable_init] by force
qed

lemma sample_serve_state:
  "sv_ctx sample_serve = None" "sv_tags sample_serve 1 = Some 0" "sv_tags sample_serve 2 = None"
  "map fc_Tag (sv_received sample_serve) = [1, 1, 2]"
  "sv_closed sample_serve = None" "sv_result sample_serve = None"
  "sv_reqs sample_serve 0 = Some (Handling (newFcall 1 (MessageTclunk 7)))"
  by (simp_all add: sample_serve_def sample_events_def serve_init_def serve_request_def
      serve_completed_def respond_def reqMap_remove_def reply_def selecting_def)


text \<open>
  C25: a client that never uses a tag twice gets every response for the request it belongs to:
  each response that a handler computed was delivered for the active request whose goroutine
  computed it.
\<close>

theorem serve_fresh_tags:
  assumes "reachable st" and "distinct (map fc_Tag (sv_received st))"
    and "(a, i) \<in> set (sv_delivered st)"
  shows "a = i"
  using reachable_fresh [OF assms(1)] assms(2,3) by (auto simp: inv_fresh_def)

theorem serve_fresh_tags_witness:
  "\<exists>st. reachable st \<and> sv_delivered st = [(0, 0)] \<and> {(a, i) \<in> set (sv_delivered st). a \<noteq> i} = {}"
proof -
  let ?es = "[GotRequest (newFcall 1 (MessageTclunk 7)), HandlerReturns 0 (Inr MessageRclunk), GotCompleted 0]"
  obtain st where st: "serve_run ?es serve_init = Some st" "sv_delivered st = [(0, 0)]"
    "map fc_Tag (sv_received st) = [1]"
    by (simp add: serve_init_def serve_request_def serve_completed_def respond_def reply_def selecting_def)
  have r: "reachable st" by (rule serve_run_reachable [OF reachable_init st(1)])
  have "distinct (map fc_Tag (sv_received st))" by (simp add: st(3))
  from serve_fresh_tags [OF r this] have "{(a, i) \<in> set (sv_delivered st). a \<noteq> i} = {}" by fastforce
  with r st show ?thesis by blast
qed

text \<open>
  C32: when a tag is used again after its request was flushed, the response of the flushed
  request can be delivered as the response to the new request, whose own response is then
  dropped: a goroutine whose context is cancelled may still hand over its response, and the loop
  matches it by tag alone.
\<close>

theorem stale_response_after_flush:
  assumes "\<forall>old. mA \<noteq> MessageTflush old" and "\<forall>old. mB \<noteq> MessageTflush old" and "t \<noteq> u"
  shows "\<exists>st. serve_run
      [GotRequest (newFcall t mA), GotRequest (newFcall u (MessageTflush t)),
       GotRequest (newFcall t mB), HandlerReturns 0 (Inr rA), GotCompleted 0,
       HandlerReturns 1 (Inr rB), GotCompleted 1] serve_init = Some st \<and>
    sv_responses st = [newFcall u MessageRflush, newFcall t rA] \<and> sv_delivered st = [(1, 0)] \<and>
    sv_tags st = (\<lambda>_. None)"
  using assms(3)
  by (simp add: request_handled assms(1,2) request_flush serve_init_def respond_def reqMap_remove_def
      selecting_def serve_completed_def reply_def fun_eq_iff)

theorem stale_response_after_flush_witness:
  "\<exists>st. serve_run
      [GotRequest (newFcall 1 (MessageTread 7 0 10)), GotRequest (newFcall 2 (MessageTflush 1)),
       GotRequest (newFcall 1 (MessageTread 8 0 10)), HandlerReturns 0 (Inr (MessageRread [65])),
       GotCompleted 0, HandlerReturns 1 (Inr (MessageRread [66])), GotCompleted 1] serve_init = Some st \<and>
    sv_responses st = [newFcall 2 MessageRflush, newFcall 1 (MessageRread [65])]"
  using stale_response_after_flush [of "MessageTread 7 0 10" "MessageTread 8 0 10" 1 2
      "MessageRread [65]" "MessageRread [66]"] by (simp del: serve_run.simps) blast

text \<open>
  C27: no active request is stuck.  From every reachable state in which the loop runs and the
  connection is open, once the handler of an active request has returned or returns, the loop can
  deliver a response with its tag and free the tag.
\<close>

theorem serve_can_answer:
  assumes "reachable st" and "sv_result st = None" and "sv_ctx st = None" and "sv_closed st = None"
    and "sv_tags st t = Some i"
  shows "\<exists>es st' resp. set es \<subseteq> {HandlerReturns i res, GotCompleted i} \<and> serve_run es st = Some st' \<and>
    sv_responses st' = sv_responses st @ [resp] \<and> fc_Tag resp = t \<and> sv_tags st' t = None"
proof -
  have inv: "inv_reqs st" "inv_tags st" using reachable_inv [OF assms(1)] by blast+
  have stop: "inv_stop st" using reachable_inv [OF assms(1)] by blast
  then have w: "sv_writer st" using assms(4) by (simp add: inv_stop_def)
  with stop have "sv_waiting st = None" by (cases "sv_waiting st") (auto simp: inv_stop_def)
  with w assms(2) have run: "selecting st" "sv_writer st" by (simp_all add: selecting_def)
  have "i < sv_next st" "tag_of st i = t" "\<forall>req. sv_reqs st i \<noteq> Some (Finished req)"
    using inv(2) assms(2-5) unfolding inv_tags_def tag_ok_def by blast+
  moreover from this(1) obtain g where g: "sv_reqs st i = Some g"
    using inv(1) unfolding inv_reqs_def by (metis leD not_None_eq)
  ultimately have t: "fc_Tag (g_request g) = t" and nf: "\<And>req. g \<noteq> Finished req" by auto
  show ?thesis
  proof (cases g)
    case (Handling req)
    then show ?thesis using t g assms(5) run
      by (intro exI [of _ "[HandlerReturns i res, GotCompleted i]"])
        (simp add: serve_completed_def respond_def selecting_def)
  next
    case (Completing req resp)
    then have "fc_Tag resp = t" using t g inv_reqs_completing [OF inv(1)] by auto
    then show ?thesis using g assms(5) run Completing
      by (intro exI [of _ "[GotCompleted i]"]) (simp add: serve_completed_def respond_def)
  next
    case (Finished req)
    then show ?thesis using nf by blast
  qed
qed

theorem serve_can_answer_witness:
  "\<exists>es st' resp. set es \<subseteq> {HandlerReturns 0 (Inr MessageRclunk), GotCompleted 0} \<and>
    serve_run es sample_serve = Some st' \<and>
    sv_responses st' = sv_responses sample_serve @ [resp] \<and> fc_Tag resp = 1 \<and> sv_tags st' 1 = None"
  by (rule serve_can_answer [OF sample_serve_reachable])
    (simp_all add: sample_serve_state)

text \<open>
  \<open>serve\<close> may never return once the connection is closed.  When the writer has stopped and the loop
  takes a completed response rather than \<^verbatim>\<open>c.closed\<close>, it waits for a writer that does not exist, or for
  the context of the request, which only the loop itself or the connection's context would cancel.
\<close>

lemma waiting_stuck:
  assumes "inv_tags st" and "inv_stop st" and "sv_ctx st = None" and "sv_waiting st = Some (a, resp)"
    and "serve_step e st = Some st'" and "\<forall>err. e \<noteq> CtxDone err"
  shows "sv_ctx st' = None \<and> sv_waiting st' = Some (a, resp)"
proof -
  have "\<not> ctx_done st a"
    using assms(2-4) ctx_done_cancelled [OF assms(1)] by (auto simp: inv_stop_def)
  then show ?thesis
    using assms(3-6)
    by (cases e) (auto simp: selecting_def CloseWithError_def split: option.splits goroutine.splits if_splits)
qed

lemma waiting_run:
  assumes "reachable st" and "sv_ctx st = None" and "sv_waiting st = Some (a, resp)"
    and "serve_run es st = Some st'" and "\<forall>err. CtxDone err \<notin> set es"
  shows "sv_result st' = None"
  using assms
proof (induction es arbitrary: st)
  case Nil
  then show ?case using reachable_inv [of st] by (auto simp: inv_stop_def)
next
  case (Cons e es)
  then obtain st1 where s: "serve_step e st = Some st1" "serve_run es st1 = Some st'"
    by (auto split: option.splits)
  have "sv_ctx st1 = None \<and> sv_waiting st1 = Some (a, resp)"
    by (rule waiting_stuck [OF _ _ Cons.prems(2,3) s(1)])
      (use reachable_inv [OF Cons.prems(1)] Cons.prems(5) in auto)
  with Cons.IH [of st1] s Cons.prems(1,5) show ?case by (auto intro: reachable_step)
qed

theorem serve_hangs_after_close:
  assumes "\<forall>old. m \<noteq> MessageTflush old"
  shows "\<exists>st. serve_run [GotRequest (newFcall t m), Closes None, WriterStops None,
        HandlerReturns 0 res, GotCompleted 0] serve_init = Some st \<and> sv_closed st = Some ErrClosed \<and>
      (\<forall>es st'. serve_run es st = Some st' \<longrightarrow> (\<forall>err. CtxDone err \<notin> set es) \<longrightarrow> sv_result st' = None)"
proof -
  let ?es = "[GotRequest (newFcall t m), Closes None, WriterStops None, HandlerReturns 0 res, GotCompleted 0]"
  obtain st where st: "serve_run ?es serve_init = Some st" "sv_closed st = Some ErrClosed" "sv_ctx st = None"
    "sv_waiting st = Some (0, reply (newFcall t m) res)"
    by (simp add: serve_init_def request_handled [OF assms] serve_completed_def selecting_def
        CloseWithError_def)
  from waiting_run [OF serve_run_reachable [OF reachable_init st(1)] st(3,4)] st(1,2) show ?thesis by blast
qed

end
