(* ===== verification/P9_Transport.thy ===== *)
theory P9_Transport
  imports P9_ServeConn "HOL-Library.AList"
begin

text \<open>
  The client side of a connection (\<^verbatim>\<open>transport.go\<close>): requests are given tags, written to the
  channel and matched with the responses by tag.  The map of outstanding requests is an
  association list with distinct keys; a request is a number that stands for the caller that
  waits in \<open>send\<close>.
\<close>

section \<open>Tag allocation\<close>

definition next_tag :: "Tag \<Rightarrow> Tag" where
  "next_tag hint = (let h = hint + 1 in if h = NOTAG then 0 else h)"

fun allocateTag_loop :: "nat \<Rightarrow> (Tag \<times> 'r) list \<Rightarrow> Tag \<Rightarrow> error + Tag" where
  "allocateTag_loop 0 m hint = Inl (Errorf ''allocateTag: unexpected error'')"
| "allocateTag_loop (Suc n) m hint =
     (let h = next_tag hint in
      case map_of m h of None \<Rightarrow> Inr h | Some _ \<Rightarrow> allocateTag_loop n m h)"

definition allocateTag :: "(Tag \<times> 'r) list \<Rightarrow> Tag \<Rightarrow> error + Tag" where
  "allocateTag m hint =
     (if 0xFFFF \<le> length m then Inl (Errorf ''tag pool depleted'') else allocateTag_loop 0xFFFF m hint)"

section \<open>The transport\<close>

text \<open>
  What a caller in \<open>send\<close> has got: nothing yet, the error sent on \<open>req.err\<close> or the frame sent on
  \<open>req.response\<close>.
\<close>

datatype waiting = Pending | GotErr error | GotResp Fcall

text \<open>
  \<open>tr_written\<close> records history, the latest first: the tags of the frames that were written and
  the requests they were written for.
\<close>

record transport =
  tr_ch :: channel
  tr_outstanding :: "(Tag \<times> nat) list"
  tr_selected :: Tag
  tr_requests :: "nat \<Rightarrow> (Message \<times> waiting) option"
  tr_shutdown :: bool
  tr_closed :: bool
  tr_written :: "(Tag \<times> nat) list"

definition newTransport :: "channel \<Rightarrow> transport" where
  "newTransport ch =
     \<lparr>tr_ch = ch, tr_outstanding = [], tr_selected = 0, tr_requests = (\<lambda>_. None),
      tr_shutdown = False, tr_closed = False, tr_written = []\<rparr>"

definition req_err :: "nat \<Rightarrow> Message \<Rightarrow> error \<Rightarrow> transport \<Rightarrow> transport" where
  "req_err i msg err t = t\<lparr>tr_requests := (tr_requests t)(i := Some (msg, GotErr err))\<rparr>"

text \<open>
  The branch \<^verbatim>\<open>case req := <-t.requests\<close> of \<open>handle\<close>, for request \<open>i\<close> with its context and
  message.  When no tag can be allocated, \<open>selected\<close> is set to the 0 that comes with the error.
\<close>

definition handle_request :: "nat \<Rightarrow> Context \<Rightarrow> Message \<Rightarrow> transport \<Rightarrow> transport" where
  "handle_request i ctx msg t =
     (case allocateTag (tr_outstanding t) (tr_selected t) of
        Inl err \<Rightarrow> req_err i msg err (t\<lparr>tr_selected := 0\<rparr>)
      | Inr tag \<Rightarrow>
          (let t1 = t\<lparr>tr_selected := tag, tr_outstanding := AList.update tag i (tr_outstanding t),
                      tr_requests := (tr_requests t)(i := Some (msg, Pending)),
                      tr_written := (tag, i) # tr_written t\<rparr> in
           case WriteFcall ctx (tr_ch t1) (newFcall tag msg) of
             (Inr _, ch) \<Rightarrow> t1\<lparr>tr_ch := ch\<rparr>
           | (Inl err, ch) \<Rightarrow>
               req_err i msg err
                 (t1\<lparr>tr_ch := ch, tr_outstanding := AList.delete tag (tr_outstanding t1)\<rparr>)))"

text \<open>The branch \<^verbatim>\<open>case b := <-responses\<close>: a frame with an unknown tag panics.\<close>

definition handle_response :: "Fcall \<Rightarrow> transport \<Rightarrow> error + transport" where
  "handle_response b t =
     (case map_of (tr_outstanding t) (fc_Tag b) of
        None \<Rightarrow> Inl (Panic ''unknown tag received'')
      | Some i \<Rightarrow>
          Inr (t\<lparr>tr_outstanding := AList.delete (fc_Tag b) (tr_outstanding t),
                 tr_requests := (tr_requests t)(i :=
                   map_option (\<lambda>(msg, _). (msg, GotResp b)) (tr_requests t i))\<rparr>))"

text \<open>
  One round of the reader goroutine: a frame for the loop, or the start of the shutdown.  A
  temporary error of the connection is passed over.
\<close>

datatype read_outcome = Frame Fcall | Retry | Stop

definition transport_read :: "Context \<Rightarrow> transport \<Rightarrow> read_outcome \<times> transport" where
  "transport_read ctx t =
     (case ReadFcall ctx (tr_ch t) of
        (Inr fcall, ch) \<Rightarrow> (Frame fcall, t\<lparr>tr_ch := ch\<rparr>)
      | (Inl err, ch) \<Rightarrow>
          if is_temporary err then (Retry, t\<lparr>tr_ch := ch\<rparr>)
          else (Stop, t\<lparr>tr_ch := ch, tr_shutdown := True\<rparr>))"

text \<open>What \<open>send\<close> returns for a response.\<close>

definition send_result :: "Fcall \<Rightarrow> error + Message" where
  "send_result resp =
     (if fc_Type resp = Rerror
      then (case fc_Message resp of
              Some (MessageRerror ename) \<Rightarrow> Inl (Rerr ename)
            | _ \<Rightarrow> Inl (Errorf ''invalid error response''))
      else (case fc_Message resp of
              Some msg \<Rightarrow> Inr msg
            | None \<Rightarrow> Inl (Panic ''nil message'')))"

text \<open>\<open>send\<close> of request \<open>i\<close> in the state where its \<^verbatim>\<open>select\<close> looks: \<open>None\<close> while it waits.\<close>

definition send_wait :: "nat \<Rightarrow> Context \<Rightarrow> transport \<Rightarrow> (error + Message) option" where
  "send_wait i ctx t =
     (case tr_requests t i of
        Some (_, GotErr err) \<Rightarrow> Some (Inl err)
      | Some (_, GotResp resp) \<Rightarrow> Some (send_result resp)
      | _ \<Rightarrow> (case ctx of
                Some err \<Rightarrow> Some (Inl err)
              | None \<Rightarrow> if tr_closed t then Some (Inl ErrClosed) else None))"

datatype transport_event =
    NewRequest nat Context Message
  | NewResponse Fcall
  | ReadRound Context
  | Shutdown
  | LoopReturns

fun transport_step :: "transport_event \<Rightarrow> transport \<Rightarrow> error + transport" where
  "transport_step (NewRequest i ctx msg) t =
     (if tr_closed t \<or> tr_requests t i \<noteq> None then Inr t else Inr (handle_request i ctx msg t))"
| "transport_step (NewResponse b) t = (if tr_closed t then Inr t else handle_response b t)"
| "transport_step (ReadRound ctx) t =
     (if tr_shutdown t then Inr t
      else case transport_read ctx t of
             (Frame b, t') \<Rightarrow> if tr_closed t' then Inr t' else handle_response b t'
           | (_, t') \<Rightarrow> Inr t')"
| "transport_step Shutdown t = Inr (t\<lparr>tr_shutdown := True\<rparr>)"
| "transport_step LoopReturns t = Inr (if tr_shutdown t then t\<lparr>tr_closed := True\<rparr> else t)"

inductive transport_reachable :: "channel \<Rightarrow> transport \<Rightarrow> bool" for ch :: channel where
  init: "transport_reachable ch (newTransport ch)"
| step: "transport_reachable ch t \<Longrightarrow> transport_step e t = Inr t' \<Longrightarrow> transport_reachable ch t'"

section \<open>Allocation finds a free tag\<close>

lemma unat_NOTAG: "unat NOTAG = 65535"
  by (simp add: NOTAG_def unsigned_minus_1_eq_mask mask_eq_exp_minus_1)

lemma unat_tag: "h \<noteq> NOTAG \<longleftrightarrow> unat (h :: Tag) < 65535"
  using unat_u16_bound [of h] unat_NOTAG word_unat_eq_iff [of h NOTAG] by auto

lemma unat_next_tag:
  assumes "h \<noteq> NOTAG"
  shows "unat (next_tag h) = (unat h + 1) mod 65535" and "next_tag h \<noteq> NOTAG"
proof -
  have lt: "unat h < 65535" using assms by (simp add: unat_tag)
  then have u: "unat (h + 1) = unat h + 1" by (simp add: unat_word_ariths)
  show "unat (next_tag h) = (unat h + 1) mod 65535"
  proof (cases "h + 1 = NOTAG")
    case True
    then have "unat h + 1 = 65535" using u unat_NOTAG by simp
    with True show ?thesis by (simp add: next_tag_def)
  next
    case False
    then have "unat h + 1 < 65535" using u by (simp add: unat_tag)
    with False u show ?thesis by (simp add: next_tag_def)
  qed
  then show "next_tag h \<noteq> NOTAG" unfolding unat_tag by simp
qed

lemma allocate_sound:
  assumes "allocateTag_loop n m hint = Inr t" and "hint \<noteq> NOTAG"
  shows "t \<noteq> NOTAG \<and> map_of m t = None"
  using assms
proof (induction n arbitrary: hint)
  case (Suc n)
  then show ?case using unat_next_tag(2) [OF Suc.prems(2)] by (auto simp: Let_def split: option.splits)
qed simp

lemma allocate_fails:
  assumes "allocateTag_loop n m hint = Inl e" and "hint \<noteq> NOTAG" and "k < n"
  shows "\<exists>t. unat t = (unat hint + 1 + k) mod 65535 \<and> t \<in> fst ` set m"
  using assms
proof (induction n arbitrary: hint k)
  case (Suc n)
  let ?h = "next_tag hint"
  have h: "map_of m ?h \<noteq> None" "allocateTag_loop n m ?h = Inl e"
    using Suc.prems(1) by (auto simp: Let_def split: option.splits)
  show ?case
  proof (cases k)
    case 0
    then show ?thesis using h(1) unat_next_tag(1) [OF Suc.prems(2)]
      by (auto simp: map_of_eq_None_iff)
  next
    case (Suc k')
    then obtain t where "unat t = (unat ?h + 1 + k') mod 65535" "t \<in> fst ` set m"
      using Suc.IH [OF h(2) unat_next_tag(2) [OF Suc.prems(2)], of k'] Suc.prems(3) by auto
    moreover have "(unat ?h + 1 + k') mod 65535 = (unat hint + 1 + k) mod 65535"
      unfolding unat_next_tag(1) [OF Suc.prems(2)] Suc
      using mod_add_left_eq [of "unat hint + 1" 65535 "1 + k'"] by (simp add: ac_simps)
    ultimately show ?thesis by auto
  qed
qed simp

lemma residues:
  assumes "x < (65535 :: nat)"
  obtains k where "k < 65535" and "(a + k) mod 65535 = x"
proof -
  let ?k = "(x + (65535 - a mod 65535)) mod 65535"
  have "(a + ?k) mod 65535 = (a mod 65535 + (x + (65535 - a mod 65535))) mod 65535"
    by (metis mod_add_eq mod_mod_trivial)
  also have "a mod 65535 + (x + (65535 - a mod 65535)) = x + 65535"
    using mod_less_divisor [of 65535 a] by linarith
  finally show thesis using assms by (intro that [of ?k]) simp_all
qed

lemma allocate_complete:
  assumes "length m < 65535" and "hint \<noteq> NOTAG"
  obtains t where "allocateTag_loop 65535 m hint = Inr t"
proof (cases "allocateTag_loop 65535 m hint")
  case (Inl e)
  have "x \<in> unat ` (fst ` set m)" if x: "x < 65535" for x
  proof -
    obtain k where k: "k < 65535" "(unat hint + 1 + k) mod 65535 = x"
      by (rule residues [OF x, of "unat hint + 1"])
    from allocate_fails [OF Inl assms(2) k(1)] k(2)
    obtain t where "unat t = x" "t \<in> fst ` set m" by blast
    then show ?thesis by blast
  qed
  then have "{..<65535} \<subseteq> unat ` (fst ` set m)" by auto
  then have "card {..<65535 :: nat} \<le> card (unat ` (fst ` set m))"
    by (intro card_mono) simp_all
  also have "\<dots> \<le> card (fst ` set m)" by (rule card_image_le) simp
  also have "\<dots> \<le> length m" by (metis card_image_le card_length finite_set le_trans)
  finally show ?thesis using assms(1) by simp
next
  case (Inr t)
  then show ?thesis by (rule that)
qed

section \<open>Matching\<close>

text \<open>
  The invariant of the loop: the outstanding tags are distinct and valid; a request waits exactly
  when it has an outstanding tag, only one, and that tag was last used for it.
\<close>

definition match_inv :: "(Tag \<Rightarrow> nat option) \<Rightarrow> (Tag \<Rightarrow> nat option) \<Rightarrow>
    (nat \<Rightarrow> (Message \<times> waiting) option) \<Rightarrow> bool" where
  "match_inv out wr reqs \<longleftrightarrow>
     out NOTAG = None \<and>
     (\<forall>tag i. out tag = Some i \<longrightarrow> wr tag = Some i \<and> (\<exists>msg. reqs i = Some (msg, Pending))) \<and>
     (\<forall>tag tag' i. out tag = Some i \<longrightarrow> out tag' = Some i \<longrightarrow> tag' = tag) \<and>
     (\<forall>i msg. reqs i = Some (msg, Pending) \<longrightarrow> (\<exists>tag. out tag = Some i))"

definition transport_inv :: "transport \<Rightarrow> bool" where
  "transport_inv t \<longleftrightarrow>
     distinct (map fst (tr_outstanding t)) \<and> tr_selected t \<noteq> NOTAG \<and>
     match_inv (map_of (tr_outstanding t)) (map_of (tr_written t)) (tr_requests t)"

lemma match_settled:
  assumes "match_inv out wr reqs" and "reqs i = None" and "w \<noteq> Pending"
  shows "match_inv out wr (reqs(i := Some (msg, w)))"
proof -
  have "out tag \<noteq> Some i" for tag using assms(1,2) unfolding match_inv_def by fastforce
  with assms show ?thesis unfolding match_inv_def by auto
qed

lemma match_start:
  assumes "match_inv out wr reqs" and "out tag = None" and "tag \<noteq> NOTAG" and "reqs i = None"
  shows "match_inv (out(tag \<mapsto> i)) (wr(tag \<mapsto> i)) (reqs(i := Some (msg, Pending)))"
proof -
  have no: "out tag' \<noteq> Some i" for tag' using assms(1,4) unfolding match_inv_def by fastforce
  show ?thesis unfolding match_inv_def
  proof (intro conjI allI impI)
    show "(out(tag \<mapsto> i)) NOTAG = None" using assms(1,3) by (simp add: match_inv_def)
  next
    fix tag1 j
    assume "(out(tag \<mapsto> i)) tag1 = Some j"
    then show "(wr(tag \<mapsto> i)) tag1 = Some j" "\<exists>msg'. (reqs(i := Some (msg, Pending))) j = Some (msg', Pending)"
      using assms(1) no by (auto simp: match_inv_def split: if_splits)
    fix tag2
    assume "(out(tag \<mapsto> i)) tag1 = Some j" "(out(tag \<mapsto> i)) tag2 = Some j"
    then show "tag2 = tag1" using assms(1) no by (auto simp: match_inv_def split: if_splits)
  next
    fix j msg'
    assume j: "(reqs(i := Some (msg, Pending))) j = Some (msg', Pending)"
    show "\<exists>tag1. (out(tag \<mapsto> i)) tag1 = Some j"
    proof (cases "j = i")
      case True
      then show ?thesis by (intro exI [of _ tag]) simp
    next
      case False
      then obtain tag1 where t: "out tag1 = Some j"
        using assms(1) j unfolding match_inv_def by auto
      then have "tag1 \<noteq> tag" using assms(2) by auto
      with t show ?thesis by (intro exI [of _ tag1]) simp
    qed
  qed
qed

lemma match_finish:
  assumes "match_inv out wr reqs" and "out tag = Some i" and "\<forall>m. r \<noteq> Some (m, Pending)"
  shows "match_inv (out(tag := None)) wr (reqs(i := r))"
proof -
  have only: "out tag' = Some i \<Longrightarrow> tag' = tag" for tag'
    using assms(1,2) unfolding match_inv_def by blast
  show ?thesis unfolding match_inv_def
  proof (intro conjI allI impI)
    show "(out(tag := None)) NOTAG = None" using assms(1) by (simp add: match_inv_def)
  next
    fix tag1 j
    assume "(out(tag := None)) tag1 = Some j"
    then have t: "out tag1 = Some j" "tag1 \<noteq> tag" by (auto split: if_splits)
    then have "j \<noteq> i" using only by blast
    with t show "wr tag1 = Some j" "\<exists>m. (reqs(i := r)) j = Some (m, Pending)"
      using assms(1) by (auto simp: match_inv_def)
    fix tag2
    assume "(out(tag := None)) tag2 = Some j"
    then show "tag2 = tag1" using t(1) assms(1) unfolding match_inv_def by (metis fun_upd_apply option.distinct(1))
  next
    fix j m
    assume "(reqs(i := r)) j = Some (m, Pending)"
    then have j: "j \<noteq> i" "reqs j = Some (m, Pending)" using assms(3) by (auto split: if_splits)
    then obtain tag1 where t: "out tag1 = Some j" using assms(1) unfolding match_inv_def by blast
    then have "tag1 \<noteq> tag" using j(1) assms(2) by auto
    with t show "\<exists>tag1. (out(tag := None)) tag1 = Some j" by (intro exI [of _ tag1]) simp
  qed
qed

lemma delete_fst: "fst ` set (AList.delete k al) = fst ` set al - {k}"
  unfolding dom_map_of_conv_image_fst [symmetric] delete_conv' by simp

lemma zero_NOTAG: "0 \<noteq> NOTAG"
  by (simp add: NOTAG_def)

lemma inv_new: "transport_inv (newTransport ch)"
  using zero_NOTAG by (simp add: transport_inv_def newTransport_def match_inv_def)

lemma inv_request:
  assumes inv: "transport_inv t" and new: "tr_requests t i = None"
  shows "transport_inv (handle_request i ctx msg t)"
proof -
  have mi: "match_inv (map_of (tr_outstanding t)) (map_of (tr_written t)) (tr_requests t)"
    and sel: "tr_selected t \<noteq> NOTAG" and d: "distinct (map fst (tr_outstanding t))"
    using inv by (simp_all add: transport_inv_def)
  show ?thesis
  proof (cases "allocateTag (tr_outstanding t) (tr_selected t)")
    case (Inl err)
    then show ?thesis using d zero_NOTAG match_settled [OF mi new, of "GotErr err" msg]
      by (simp add: transport_inv_def handle_request_def req_err_def)
  next
    case (Inr tag)
    then have loop: "allocateTag_loop 65535 (tr_outstanding t) (tr_selected t) = Inr tag"
      by (simp add: allocateTag_def split: if_splits)
    note free = allocate_sound [OF loop sel]
    obtain w ch where w: "WriteFcall ctx (tr_ch t) (newFcall tag msg) = (w, ch)" by fastforce
    let ?m = "AList.update tag i (tr_outstanding t)"
    have d': "distinct (map fst ?m)" using d by (rule distinct_update)
    have m: "map_of ?m = (map_of (tr_outstanding t))(tag \<mapsto> i)" by (rule update_conv')
    have st: "match_inv (map_of ?m) ((map_of (tr_written t))(tag \<mapsto> i))
        ((tr_requests t)(i := Some (msg, Pending)))"
      unfolding m by (rule match_start [OF mi]) (use free new in simp_all)
    show ?thesis
    proof (cases w)
      case (Inl err)
      have "map_of (AList.delete tag ?m) = (map_of ?m)(tag := None)" by (rule delete_conv')
      moreover have "match_inv ((map_of ?m)(tag := None)) ((map_of (tr_written t))(tag \<mapsto> i))
          (((tr_requests t)(i := Some (msg, Pending)))(i := Some (msg, GotErr err)))"
        by (rule match_finish [OF st]) (simp_all add: m)
      ultimately show ?thesis using w Inl Inr free distinct_delete [OF d', of tag]
        by (simp add: transport_inv_def handle_request_def req_err_def Let_def)
    next
      case (Inr f)
      then show ?thesis using w \<open>allocateTag _ _ = Inr tag\<close> free d' st
        by (simp add: transport_inv_def handle_request_def Let_def)
    qed
  qed
qed

lemma response_cases:
  assumes "transport_inv t"
  obtains (unknown) "map_of (tr_outstanding t) (fc_Tag b) = None"
      "handle_response b t = Inl (Panic ''unknown tag received'')"
  | (known) i msg where "map_of (tr_outstanding t) (fc_Tag b) = Some i"
      "map_of (tr_written t) (fc_Tag b) = Some i" "tr_requests t i = Some (msg, Pending)"
      "handle_response b t =
         Inr (t\<lparr>tr_outstanding := AList.delete (fc_Tag b) (tr_outstanding t),
                tr_requests := (tr_requests t)(i := Some (msg, GotResp b))\<rparr>)"
proof (cases "map_of (tr_outstanding t) (fc_Tag b)")
  case None
  then show ?thesis using unknown by (simp add: handle_response_def)
next
  case (Some i)
  then obtain msg where "map_of (tr_written t) (fc_Tag b) = Some i" "tr_requests t i = Some (msg, Pending)"
    using assms unfolding transport_inv_def match_inv_def by blast
  with Some known show ?thesis by (simp add: handle_response_def)
qed

lemma inv_response:
  assumes inv: "transport_inv t" and r: "handle_response b t = Inr t'"
  shows "transport_inv t'"
  using inv
proof (cases rule: response_cases [of t b])
  case unknown
  then show ?thesis using r by simp
next
  case (known i msg)
  then have t': "t' = t\<lparr>tr_outstanding := AList.delete (fc_Tag b) (tr_outstanding t),
                tr_requests := (tr_requests t)(i := Some (msg, GotResp b))\<rparr>"
    using r by simp
  have "match_inv ((map_of (tr_outstanding t))(fc_Tag b := None)) (map_of (tr_written t))
      ((tr_requests t)(i := Some (msg, GotResp b)))"
    by (rule match_finish) (use inv known in \<open>simp_all add: transport_inv_def\<close>)
  then show ?thesis using inv
    unfolding t' by (simp add: transport_inv_def delete_conv' distinct_delete)
qed

lemma step_transport_inv:
  assumes inv: "transport_inv t" and s: "transport_step e t = Inr t'"
  shows "transport_inv t'"
proof (cases e)
  case (NewRequest i ctx msg)
  then show ?thesis using s inv inv_request [OF inv]
    by (cases "tr_requests t i") (auto split: if_splits)
next
  case (NewResponse b)
  then show ?thesis using s inv inv_response [OF inv] by (auto split: if_splits)
next
  case (ReadRound ctx)
  obtain o' t1 where r: "transport_read ctx t = (o', t1)" by fastforce
  have "transport_inv t1" using inv r
    by (auto simp: transport_read_def transport_inv_def split: prod.splits sum.splits if_splits)
  with r s ReadRound inv show ?thesis using inv_response [of t1]
    by (auto split: if_splits read_outcome.splits)
next
  case Shutdown
  then show ?thesis using s inv by (auto simp: transport_inv_def)
next
  case LoopReturns
  then show ?thesis using s inv by (cases "tr_shutdown t") (auto simp: transport_inv_def)
qed

lemma reachable_transport_inv: "transport_reachable ch t \<Longrightarrow> transport_inv t"
  by (induction rule: transport_reachable.induct) (auto intro: inv_new step_transport_inv)

section \<open>Properties\<close>

text \<open>
  C26: \<open>allocateTag\<close> gives a tag that is in use by no outstanding request and is not \<open>NOTAG\<close>
  whenever fewer than 65535 tags are in use; otherwise it reports that the pool is depleted.
\<close>

theorem allocate_tag_correct:
  assumes "hint \<noteq> NOTAG"
  shows "if length m < 65535
    then (\<exists>t. allocateTag m hint = Inr t \<and> t \<noteq> NOTAG \<and> t \<notin> fst ` set m)
    else allocateTag m hint = Inl (Errorf ''tag pool depleted'')"
proof (cases "length m < 65535")
  case True
  then obtain t where "allocateTag_loop 65535 m hint = Inr t"
    using allocate_complete [OF _ assms] by blast
  with True allocate_sound [OF this assms] show ?thesis
    by (auto simp: allocateTag_def map_of_eq_None_iff)
next
  case False
  then show ?thesis by (simp add: allocateTag_def)
qed

theorem allocate_tag_correct_witness:
  "\<exists>t. allocateTag [(0 :: Tag, ()), (1, ()), (65534, ())] 65533 = Inr t \<and> t \<noteq> NOTAG \<and> t \<notin> {0, 1, 65534}"
proof -
  have "(65533 :: Tag) \<noteq> NOTAG" unfolding unat_tag by simp
  from allocate_tag_correct [OF this, of "[(0 :: Tag, ()), (1, ()), (65534, ())]"] show ?thesis by simp
qed

text \<open>
  C6: in every reachable state of a transport, a frame whose tag is outstanding is given to the
  one request that is waiting under that tag, the request for which the tag was last written, and
  the tag becomes free; no other request is affected.  A frame with any other tag panics.
\<close>

theorem transport_matches:
  assumes "transport_reachable ch t"
  shows "if fc_Tag b \<in> fst ` set (tr_outstanding t)
    then (\<exists>i msg t'. handle_response b t = Inr t' \<and> (fc_Tag b, i) \<in> set (tr_outstanding t) \<and>
            map_of (tr_written t) (fc_Tag b) = Some i \<and> tr_requests t i = Some (msg, Pending) \<and>
            tr_requests t' = (tr_requests t)(i := Some (msg, GotResp b)) \<and>
            fst ` set (tr_outstanding t') = fst ` set (tr_outstanding t) - {fc_Tag b})
    else handle_response b t = Inl (Panic ''unknown tag received'')"
proof -
  have inv: "transport_inv t" by (rule reachable_transport_inv [OF assms])
  show ?thesis
    using inv
  proof (cases rule: response_cases [of t b])
    case unknown
    then show ?thesis by (simp add: map_of_eq_None_iff)
  next
    case (known i msg)
    then have "fc_Tag b \<in> fst ` set (tr_outstanding t)" "(fc_Tag b, i) \<in> set (tr_outstanding t)"
      by (auto dest: map_of_SomeD simp: rev_image_eqI)
    with known show ?thesis by (simp add: delete_fst)
  qed
qed

lemma sample_transport:
  obtains t where "transport_reachable (fresh_channel codec9p 100) t" "map_of (tr_outstanding t) 1 = Some 5"
proof -
  let ?t = "newTransport (fresh_channel codec9p 100)" and ?m = "MessageTclunk 7"
  have "allocateTag_loop (Suc 65534) ([] :: (Tag \<times> nat) list) 0 = Inr 1"
    by (simp only: allocateTag_loop.simps) (simp add: next_tag_def NOTAG_def)
  then have a: "allocateTag ([] :: (Tag \<times> nat) list) 0 = Inr 1" by (simp add: allocateTag_def)
  have w: "WriteFcall None (fresh_channel codec9p 100) (newFcall 1 ?m) =
      (Inr (newFcall 1 ?m), (fresh_channel codec9p 100)\<lparr>ch_out := sendmsg (w_fcall (newFcall 1 ?m))\<rparr>)"
    by (simp add: codec9p.write_fit chan_ready_def fresh_channel_def w_newFcall fit_frame_def)
  have "transport_step (NewRequest 5 None ?m) ?t = Inr (handle_request 5 None ?m ?t)"
    by (simp add: newTransport_def)
  moreover have "map_of (tr_outstanding (handle_request 5 None ?m ?t)) 1 = Some 5"
    using a w by (simp add: handle_request_def newTransport_def Let_def)
  ultimately show thesis using that transport_reachable.intros by blast
qed

theorem transport_matches_witness:
  "\<exists>t t' msg. transport_reachable (fresh_channel codec9p 100) t \<and>
     handle_response (newFcall 1 MessageRclunk) t = Inr t' \<and>
     tr_requests t' 5 = Some (msg, GotResp (newFcall 1 MessageRclunk))"
proof -
  obtain t where t: "transport_reachable (fresh_channel codec9p 100) t" "map_of (tr_outstanding t) 1 = Some 5"
    by (rule sample_transport)
  have i: "(1, i) \<in> set (tr_outstanding t) \<Longrightarrow> i = 5" for i
    using t(2) reachable_transport_inv [OF t(1)] by (simp add: transport_inv_def)
  have "1 \<in> fst ` set (tr_outstanding t)" using t(2) by (auto dest: map_of_SomeD simp: rev_image_eqI)
  with transport_matches [OF t(1), of "newFcall 1 MessageRclunk"]
  obtain j msg t' where "handle_response (newFcall 1 MessageRclunk) t = Inr t'"
    "(1, j) \<in> set (tr_outstanding t)"
    "tr_requests t' = (tr_requests t)(j := Some (msg, GotResp (newFcall 1 MessageRclunk)))"
    by auto
  with i t(1) show ?thesis by fastforce
qed

end
