(* ===== verification/P9_Session.thy ===== *)
theory P9_Session
  imports P9_Transport
begin

text \<open>
  Sessions: the interface of \<^verbatim>\<open>session.go\<close>, the handler that turns messages into calls
  (\<^verbatim>\<open>ssesssion.go\<close>), the client that turns calls into messages (\<^verbatim>\<open>csession.go\<close>), and the
  logging wrapper (\<^verbatim>\<open>logging.go\<close>).  A session is a record of functions on a state \<open>'s\<close>.
  A read is given the size of its buffer and returns the bytes it puts there.
\<close>

section \<open>The interface\<close>

record 's Session =
  ss_Auth :: "Context \<Rightarrow> Fid \<Rightarrow> string \<Rightarrow> string \<Rightarrow> 's \<Rightarrow> (error + Qid) \<times> 's"
  ss_Attach :: "Context \<Rightarrow> Fid \<Rightarrow> Fid \<Rightarrow> string \<Rightarrow> string \<Rightarrow> 's \<Rightarrow> (error + Qid) \<times> 's"
  ss_Clunk :: "Context \<Rightarrow> Fid \<Rightarrow> 's \<Rightarrow> error option \<times> 's"
  ss_Remove :: "Context \<Rightarrow> Fid \<Rightarrow> 's \<Rightarrow> error option \<times> 's"
  ss_Walk :: "Context \<Rightarrow> Fid \<Rightarrow> Fid \<Rightarrow> string list \<Rightarrow> 's \<Rightarrow> (error + Qid list) \<times> 's"
  ss_Read :: "Context \<Rightarrow> Fid \<Rightarrow> nat \<Rightarrow> int \<Rightarrow> 's \<Rightarrow> (byte list \<times> error option) \<times> 's"
  ss_Write :: "Context \<Rightarrow> Fid \<Rightarrow> byte list \<Rightarrow> int \<Rightarrow> 's \<Rightarrow> (int \<times> error option) \<times> 's"
  ss_Open :: "Context \<Rightarrow> Fid \<Rightarrow> Flag \<Rightarrow> 's \<Rightarrow> (error + Qid \<times> u32) \<times> 's"
  ss_Create :: "Context \<Rightarrow> Fid \<Rightarrow> string \<Rightarrow> u32 \<Rightarrow> Flag \<Rightarrow> 's \<Rightarrow> (error + Qid \<times> u32) \<times> 's"
  ss_Stat :: "Context \<Rightarrow> Fid \<Rightarrow> 's \<Rightarrow> (error + Dir) \<times> 's"
  ss_WStat :: "Context \<Rightarrow> Fid \<Rightarrow> Dir \<Rightarrow> 's \<Rightarrow> error option \<times> 's"
  ss_Version :: "'s \<Rightarrow> (int \<times> string) \<times> 's"
  ss_Stop :: "error option \<Rightarrow> 's \<Rightarrow> error option \<times> 's"

section \<open>The server's handler\<close>

record 's sessionHandler =
  sh_s :: "'s Session"
  sh_msize :: int

definition SSession :: "'s Session \<Rightarrow> 's \<Rightarrow> 's sessionHandler \<times> 's" where
  "SSession session st =
     (case ss_Version session st of ((msize, _), st') \<Rightarrow> (\<lparr>sh_s = session, sh_msize = msize\<rparr>, st'))"

definition sessionHandler_Stop :: "'s sessionHandler \<Rightarrow> error option \<Rightarrow> 's \<Rightarrow> error option \<times> 's" where
  "sessionHandler_Stop sess err st = ss_Stop (sh_s sess) err st"

text \<open>A successful result becomes a message; an error is passed on.\<close>

definition to_msg :: "('a \<Rightarrow> Message) \<Rightarrow> (error + 'a) \<times> 's \<Rightarrow> (error + Message) \<times> 's" where
  "to_msg f r = (case r of (Inl err, st) \<Rightarrow> (Inl err, st) | (Inr x, st) \<Rightarrow> (Inr (f x), st))"

definition to_msg0 :: "Message \<Rightarrow> error option \<times> 's \<Rightarrow> (error + Message) \<times> 's" where
  "to_msg0 m r = (case r of (Some err, st) \<Rightarrow> (Inl err, st) | (None, st) \<Rightarrow> (Inr m, st))"

text \<open>The size of the buffer for a read, from the count asked for.\<close>

definition read_count :: "int \<Rightarrow> u32 \<Rightarrow> nat" where
  "read_count msize n =
     (let count = uint n in
      if msize - 11 < count then (if msize - 11 < 0 then 0 else nat (msize - 11)) else nat count)"

fun Handle :: "'s sessionHandler \<Rightarrow> Context \<Rightarrow> Message \<Rightarrow> 's \<Rightarrow> (error + Message) \<times> 's" where
  "Handle sess ctx (MessageTauth afid uname aname) st =
     to_msg MessageRauth (ss_Auth (sh_s sess) ctx afid uname aname st)"
| "Handle sess ctx (MessageTattach fid afid uname aname) st =
     to_msg MessageRattach (ss_Attach (sh_s sess) ctx fid afid uname aname st)"
| "Handle sess ctx (MessageTwalk fid newfid wnames) st =
     to_msg MessageRwalk (ss_Walk (sh_s sess) ctx fid newfid wnames st)"
| "Handle sess ctx (MessageTopen fid mode) st =
     to_msg (\<lambda>(qid, iounit). MessageRopen qid iounit) (ss_Open (sh_s sess) ctx fid mode st)"
| "Handle sess ctx (MessageTcreate fid name perm mode) st =
     to_msg (\<lambda>(qid, iounit). MessageRcreate qid iounit) (ss_Create (sh_s sess) ctx fid name perm mode st)"
| "Handle sess ctx (MessageTread fid offset count) st =
     (case ss_Read (sh_s sess) ctx fid (read_count (sh_msize sess) count) (sint offset) st of
        ((p, Some err), st') \<Rightarrow> (Inl err, st')
      | ((p, None), st') \<Rightarrow> (Inr (MessageRread p), st'))"
| "Handle sess ctx (MessageTwrite fid offset data) st =
     (case ss_Write (sh_s sess) ctx fid data (sint offset) st of
        ((n, Some err), st') \<Rightarrow> (Inl err, st')
      | ((n, None), st') \<Rightarrow> (Inr (MessageRwrite (word_of_int n)), st'))"
| "Handle sess ctx (MessageTclunk fid) st = to_msg0 MessageRclunk (ss_Clunk (sh_s sess) ctx fid st)"
| "Handle sess ctx (MessageTremove fid) st = to_msg0 MessageRremove (ss_Remove (sh_s sess) ctx fid st)"
| "Handle sess ctx (MessageTstat fid) st = to_msg MessageRstat (ss_Stat (sh_s sess) ctx fid st)"
| "Handle sess ctx (MessageTwstat fid stat) st =
     to_msg0 MessageRwstat (ss_WStat (sh_s sess) ctx fid stat st)"
| "Handle sess ctx _ st = (Inl ErrUnknownMsg, st)"

section \<open>The client\<close>

text \<open>The round tripper is a function on the state \<open>'w\<close> of the connection.\<close>

type_synonym 'w roundTripper = "Context \<Rightarrow> Message \<Rightarrow> 'w \<Rightarrow> (error + Message) \<times> 'w"

record 'w client =
  cl_version :: string
  cl_msize :: int
  cl_send :: "'w roundTripper"

definition client_Version :: "'w client \<Rightarrow> 'w \<Rightarrow> (int \<times> string) \<times> 'w" where
  "client_Version c w = ((cl_msize c, cl_version c), w)"

definition client_Stop :: "'w client \<Rightarrow> error option \<Rightarrow> 'w \<Rightarrow> error option \<times> 'w" where
  "client_Stop c err w = (err, w)"

definition client_Auth :: "'w client \<Rightarrow> Context \<Rightarrow> Fid \<Rightarrow> string \<Rightarrow> string \<Rightarrow> 'w \<Rightarrow> (error + Qid) \<times> 'w" where
  "client_Auth c ctx afid uname aname w =
     (case cl_send c ctx (MessageTauth afid uname aname) w of
        (Inl err, w') \<Rightarrow> (Inl err, w')
      | (Inr (MessageRauth qid), w') \<Rightarrow> (Inr qid, w')
      | (Inr _, w') \<Rightarrow> (Inl ErrUnexpectedMsg, w'))"

definition client_Attach :: "'w client \<Rightarrow> Context \<Rightarrow> Fid \<Rightarrow> Fid \<Rightarrow> string \<Rightarrow> string \<Rightarrow> 'w \<Rightarrow> (error + Qid) \<times> 'w" where
  "client_Attach c ctx fid afid uname aname w =
     (case cl_send c ctx (MessageTattach fid afid uname aname) w of
        (Inl err, w') \<Rightarrow> (Inl err, w')
      | (Inr (MessageRattach qid), w') \<Rightarrow> (Inr qid, w')
      | (Inr _, w') \<Rightarrow> (Inl ErrUnexpectedMsg, w'))"

definition client_Clunk :: "'w client \<Rightarrow> Context \<Rightarrow> Fid \<Rightarrow> 'w \<Rightarrow> error option \<times> 'w" where
  "client_Clunk c ctx fid w =
     (case cl_send c ctx (MessageTclunk fid) w of
        (Inl err, w') \<Rightarrow> (Some err, w')
      | (Inr MessageRclunk, w') \<Rightarrow> (None, w')
      | (Inr _, w') \<Rightarrow> (Some ErrUnexpectedMsg, w'))"

definition client_Remove :: "'w client \<Rightarrow> Context \<Rightarrow> Fid \<Rightarrow> 'w \<Rightarrow> error option \<times> 'w" where
  "client_Remove c ctx fid w =
     (case cl_send c ctx (MessageTremove fid) w of
        (Inl err, w') \<Rightarrow> (Some err, w')
      | (Inr MessageRremove, w') \<Rightarrow> (None, w')
      | (Inr _, w') \<Rightarrow> (Some ErrUnexpectedMsg, w'))"

definition client_Walk :: "'w client \<Rightarrow> Context \<Rightarrow> Fid \<Rightarrow> Fid \<Rightarrow> string list \<Rightarrow> 'w \<Rightarrow> (error + Qid list) \<times> 'w" where
  "client_Walk c ctx fid newfid names w =
     (if 16 < length names then (Inl ErrWalkLimit, w)
      else
        (case cl_send c ctx (MessageTwalk fid newfid names) w of
           (Inl err, w') \<Rightarrow> (Inl err, w')
         | (Inr (MessageRwalk qids), w') \<Rightarrow> (Inr qids, w')
         | (Inr _, w') \<Rightarrow> (Inl ErrUnexpectedMsg, w')))"

definition client_Read :: "'w client \<Rightarrow> Context \<Rightarrow> Fid \<Rightarrow> nat \<Rightarrow> int \<Rightarrow> 'w \<Rightarrow> (byte list \<times> error option) \<times> 'w" where
  "client_Read c ctx fid n offset w =
     (case cl_send c ctx (MessageTread fid (word_of_int offset) (word_of_nat n)) w of
        (Inl err, w') \<Rightarrow> (([], Some err), w')
      | (Inr (MessageRread data), w') \<Rightarrow>
          ((take n data, if length data = 0 then Some EOF else None), w')
      | (Inr _, w') \<Rightarrow> (([], Some ErrUnexpectedMsg), w'))"

definition client_Write :: "'w client \<Rightarrow> Context \<Rightarrow> Fid \<Rightarrow> byte list \<Rightarrow> int \<Rightarrow> 'w \<Rightarrow> (int \<times> error option) \<times> 'w" where
  "client_Write c ctx fid p offset w =
     (case cl_send c ctx (MessageTwrite fid (word_of_int offset) p) w of
        (Inl err, w') \<Rightarrow> ((0, Some err), w')
      | (Inr (MessageRwrite count), w') \<Rightarrow>
          ((uint count, if uint count < int (length p) then Some ErrShortWrite else None), w')
      | (Inr _, w') \<Rightarrow> ((0, Some ErrUnexpectedMsg), w'))"

definition client_Open :: "'w client \<Rightarrow> Context \<Rightarrow> Fid \<Rightarrow> Flag \<Rightarrow> 'w \<Rightarrow> (error + Qid \<times> u32) \<times> 'w" where
  "client_Open c ctx fid mode w =
     (case cl_send c ctx (MessageTopen fid mode) w of
        (Inl err, w') \<Rightarrow> (Inl err, w')
      | (Inr (MessageRopen qid iounit), w') \<Rightarrow> (Inr (qid, iounit), w')
      | (Inr _, w') \<Rightarrow> (Inl ErrUnexpectedMsg, w'))"

definition client_Create :: "'w client \<Rightarrow> Context \<Rightarrow> Fid \<Rightarrow> string \<Rightarrow> u32 \<Rightarrow> Flag \<Rightarrow> 'w \<Rightarrow> (error + Qid \<times> u32) \<times> 'w" where
  "client_Create c ctx parent name perm mode w =
     (case cl_send c ctx (MessageTcreate parent name perm mode) w of
        (Inl err, w') \<Rightarrow> (Inl err, w')
      | (Inr (MessageRcreate qid iounit), w') \<Rightarrow> (Inr (qid, iounit), w')
      | (Inr _, w') \<Rightarrow> (Inl ErrUnexpectedMsg, w'))"

definition client_Stat :: "'w client \<Rightarrow> Context \<Rightarrow> Fid \<Rightarrow> 'w \<Rightarrow> (error + Dir) \<times> 'w" where
  "client_Stat c ctx fid w =
     (case cl_send c ctx (MessageTstat fid) w of
        (Inl err, w') \<Rightarrow> (Inl err, w')
      | (Inr (MessageRstat stat), w') \<Rightarrow> (Inr stat, w')
      | (Inr _, w') \<Rightarrow> (Inl ErrUnexpectedMsg, w'))"

definition client_WStat :: "'w client \<Rightarrow> Context \<Rightarrow> Fid \<Rightarrow> Dir \<Rightarrow> 'w \<Rightarrow> error option \<times> 'w" where
  "client_WStat c ctx fid dir w =
     (case cl_send c ctx (MessageTwstat fid dir) w of
        (Inl err, w') \<Rightarrow> (Some err, w')
      | (Inr MessageRwstat, w') \<Rightarrow> (None, w')
      | (Inr _, w') \<Rightarrow> (Some ErrUnexpectedMsg, w'))"

declare client_Version_def [client_ops] client_Auth_def [client_ops] client_Attach_def [client_ops] client_Clunk_def [client_ops]
  client_Remove_def [client_ops] client_Walk_def [client_ops] client_Read_def [client_ops] client_Write_def [client_ops]
  client_Open_def [client_ops] client_Create_def [client_ops] client_Stat_def [client_ops] client_WStat_def [client_ops]

text \<open>\<open>client\<close> implements \<open>Session\<close>.\<close>

definition client_session :: "'w client \<Rightarrow> 'w Session" where
  "client_session c =
     \<lparr>ss_Auth = client_Auth c, ss_Attach = client_Attach c, ss_Clunk = client_Clunk c,
      ss_Remove = client_Remove c, ss_Walk = client_Walk c, ss_Read = client_Read c,
      ss_Write = client_Write c, ss_Open = client_Open c, ss_Create = client_Create c,
      ss_Stat = client_Stat c, ss_WStat = client_WStat c, ss_Version = client_Version c,
      ss_Stop = client_Stop c\<rparr>"

text \<open>
  \<open>CSession\<close> on a channel; the transport over the negotiated channel is given as a function of it.
\<close>

definition CSession :: "Context \<Rightarrow> channel \<Rightarrow> (channel \<Rightarrow> 'w roundTripper) \<Rightarrow> error + 'w client" where
  "CSession ctx ch mkTransport =
     (case clientnegotiate ctx ch DefaultVersion of
        (Inl err, _) \<Rightarrow> Inl err
      | (Inr version, ch') \<Rightarrow>
          Inr \<lparr>cl_version = version, cl_msize = MSize ch', cl_send = mkTransport ch'\<rparr>)"

section \<open>The logging wrapper\<close>

text \<open>A line of the log: the operation, with the values that it prints.\<close>

datatype log_line =
    LStop "error option" "error option"
  | LAuth Fid string string "error + Qid"
  | LAttach Fid Fid string string "error + Qid"
  | LClunk Fid "error option"
  | LRemove Fid "error option"
  | LWalk Fid Fid "string list" "error + Qid list"
  | LRead Fid nat int nat "error option"
  | LWrite Fid nat int int "error option"
  | LOpen Fid Flag "error + Qid \<times> u32"
  | LCreate Fid string u32 Flag "error + Qid \<times> u32"
  | LStat Fid "error + Dir"
  | LWStat Fid Dir "error option"
  | LVersion int string

text \<open>Running a call of the wrapped session and then printing; the log is part of the state.\<close>

definition logged :: "('s \<Rightarrow> 'a \<times> 's) \<Rightarrow> ('a \<Rightarrow> log_line) \<Rightarrow> log_line list \<times> 's \<Rightarrow> 'a \<times> (log_line list \<times> 's)" where
  "logged call line st =
     (case st of (logs, s) \<Rightarrow> (case call s of (r, s') \<Rightarrow> (r, logs @ [line r], s')))"

definition NewLogger :: "'s Session \<Rightarrow> (log_line list \<times> 's) Session" where
  "NewLogger session =
     \<lparr>ss_Auth = (\<lambda>ctx afid uname aname. logged (ss_Auth session ctx afid uname aname) (LAuth afid uname aname)),
      ss_Attach = (\<lambda>ctx fid afid uname aname.
        logged (ss_Attach session ctx fid afid uname aname) (LAttach fid afid uname aname)),
      ss_Clunk = (\<lambda>ctx fid. logged (ss_Clunk session ctx fid) (LClunk fid)),
      ss_Remove = (\<lambda>ctx fid. logged (ss_Remove session ctx fid) (LRemove fid)),
      ss_Walk = (\<lambda>ctx fid newfid names.
        logged (ss_Walk session ctx fid newfid names) (LWalk fid newfid names)),
      ss_Read = (\<lambda>ctx fid n offset.
        logged (ss_Read session ctx fid n offset) (\<lambda>(p, err). LRead fid n offset (length p) err)),
      ss_Write = (\<lambda>ctx fid p offset.
        logged (ss_Write session ctx fid p offset) (\<lambda>(n, err). LWrite fid (length p) offset n err)),
      ss_Open = (\<lambda>ctx fid mode. logged (ss_Open session ctx fid mode) (LOpen fid mode)),
      ss_Create = (\<lambda>ctx parent name perm mode.
        logged (ss_Create session ctx parent name perm mode) (LCreate parent name perm mode)),
      ss_Stat = (\<lambda>ctx fid. logged (ss_Stat session ctx fid) (LStat fid)),
      ss_WStat = (\<lambda>ctx fid dir. logged (ss_WStat session ctx fid dir) (LWStat fid dir)),
      ss_Version = logged (ss_Version session) (\<lambda>(msize, ver). LVersion msize ver),
      ss_Stop = (\<lambda>err. logged (ss_Stop session err) (LStop err))\<rparr>"

lemma logged_result:
  "fst (logged call line (logs, s)) = fst (call s) \<and>
   snd (snd (logged call line (logs, s))) = snd (call s)"
  by (simp add: logged_def split: prod.splits)

section \<open>Reads stay within their buffers\<close>

text \<open>The contract of \<open>Read\<close>: it returns no more bytes than its buffer holds.\<close>

locale bounded_session =
  fixes s :: "'s Session"
  assumes read_bound: "ss_Read s ctx fid n offset st = ((p, err), st') \<Longrightarrow> length p \<le> n"
begin

lemma handle_read_fits:
  assumes "Handle \<lparr>sh_s = s, sh_msize = msize\<rparr> ctx (MessageTread fid offset count) st = (Inr m, st')"
    and "11 \<le> msize"
  shows "\<exists>data. m = MessageRread data \<and> length data \<le> unat count \<and>
           4 + int (length (w_fcall (newFcall tag m))) \<le> msize"
proof -
  obtain p e st1 where r: "ss_Read s ctx fid (read_count msize count) (sint offset) st = ((p, e), st1)"
    by (metis surj_pair)
  have m: "m = MessageRread p" using assms(1) r by (cases e) simp_all
  have "length p \<le> read_count msize count" by (rule read_bound [OF r])
  moreover have "read_count msize count \<le> unat count"
  proof -
    have "nat (msize - 11) \<le> unat count" if "msize - 11 < uint count"
      using that by (simp add: nat_le_iff)
    then show ?thesis by (simp add: read_count_def Let_def)
  qed
  moreover have "int (read_count msize count) \<le> msize - 11"
    using assms(2) uint_ge_0 [of count] by (simp add: read_count_def Let_def)
  ultimately have "length p \<le> unat count" "int (length p) \<le> msize - 11" by linarith+
  then show ?thesis using m by (simp add: w_newFcall)
qed

end

lemma client_Read_bound: "length (fst (fst (client_Read c ctx fid n offset w))) \<le> n"
proof -
  obtain r w' where "cl_send c ctx (MessageTread fid (word_of_int offset) (word_of_nat n)) w = (r, w')"
    by fastforce
  then show ?thesis by (simp add: client_Read_def split: sum.split Message.split)
qed

interpretation client: bounded_session "client_session c" for c
proof
  show "length p \<le> n" if "ss_Read (client_session c) ctx fid n offset st = ((p, err), st')"
    for ctx fid n offset st p err st'
    using client_Read_bound [of c ctx fid n offset st] that by (simp add: client_session_def)
qed

section \<open>A client over a handler\<close>

text \<open>
  A client whose round tripper hands each message to a handler, with the replies in the frames
  of the server and read the way \<open>send\<close> reads them.
\<close>

definition direct_send :: "'s sessionHandler \<Rightarrow> Tag \<Rightarrow> 's roundTripper" where
  "direct_send sess tag ctx msg st =
     (case Handle sess ctx msg st of (res, st') \<Rightarrow> (send_result (reply (newFcall tag msg) res), st'))"

text \<open>An error reaches the client as its text.\<close>

fun wire_error :: "error \<Rightarrow> error" where
  "wire_error (Rerr s) = Rerr s"
| "wire_error e = Rerr (error_text e)"

definition map_err :: "(error + 'a) \<times> 's \<Rightarrow> (error + 'a) \<times> 's" where
  "map_err r = (case r of (Inl e, st) \<Rightarrow> (Inl (wire_error e), st) | (Inr x, st) \<Rightarrow> (Inr x, st))"

definition map_err0 :: "error option \<times> 's \<Rightarrow> error option \<times> 's" where
  "map_err0 r = (case r of (e, st) \<Rightarrow> (map_option wire_error e, st))"

lemma send_result_reply:
  "send_result (reply (newFcall tag msg) (Inl e)) = Inl (wire_error e)"
  "message_type m \<noteq> Rerror \<Longrightarrow> send_result (reply (newFcall tag msg) (Inr m)) = Inr m"
proof -
  show "send_result (reply (newFcall tag msg) (Inl e)) = Inl (wire_error e)"
    by (cases e) (simp_all add: reply_def send_result_def)
  show "message_type m \<noteq> Rerror \<Longrightarrow> send_result (reply (newFcall tag msg) (Inr m)) = Inr m"
    by (simp add: reply_def send_result_def)
qed

lemma int64_roundtrip:
  assumes "- (2 ^ 63) \<le> offset" and "offset < 2 ^ 63"
  shows "sint (word_of_int offset :: u64) = offset"
  using assms by (simp add: signed_of_int signed_take_bit_int_eq_self)

lemmas proxy_defs =
  direct_send_def to_msg_def to_msg0_def map_err_def map_err0_def send_result_reply

text \<open>The size of the buffer that a read of \<open>n\<close> bytes gets on the server.\<close>

lemma read_count_word:
  assumes "n < 4294967296"
  shows "read_count msize (word_of_nat n) = min n (nat (msize - 11))"
proof -
  have "uint (word_of_nat n :: u32) = int n"
    using unat_word_of_nat_u32 [OF assms] by (metis uint_nat)
  then show ?thesis by (auto simp: read_count_def Let_def min_def nat_le_iff)
qed

text \<open>Reading and opening through such a client.\<close>

lemma client_Read_direct:
  assumes "n < 4294967296" and "- (2 ^ 63) \<le> offset" and "offset < 2 ^ 63"
    and "cl_send c = direct_send \<lparr>sh_s = s, sh_msize = msize\<rparr> tag"
  shows "client_Read c ctx fid n offset st =
      (case ss_Read s ctx fid (min n (nat (msize - 11))) offset st of
         ((p, Some e), st') \<Rightarrow> (([], Some (wire_error e)), st')
       | ((p, None), st') \<Rightarrow> ((take n p, if p = [] then Some EOF else None), st'))"
  by (simp add: client_ops assms(4) proxy_defs int64_roundtrip [OF assms(2,3)] read_count_word [OF assms(1)]
      split: prod.split option.split)

lemma client_Open_direct:
  assumes "cl_send c = direct_send \<lparr>sh_s = s, sh_msize = msize\<rparr> tag"
  shows "client_Open c ctx fid mode st = map_err (ss_Open s ctx fid mode st)"
  by (simp add: client_ops assms proxy_defs split: prod.split sum.split)

section \<open>Properties\<close>

text \<open>
  C7: serving a session and calling it through a client is transparent: each call of the client
  has the result and the effect of the call of the session, with errors reduced to their text.
  The exceptions are those of the client: a walk of more than 16 elements is refused without a
  message, a read gets a buffer of at most \<open>msize - 11\<close> bytes and reports an empty result as
  \<open>EOF\<close>, and a write reports a short count as an error.
\<close>

theorem proxy_transparent:
  assumes "n < 4294967296" and "- (2 ^ 63) \<le> offset" and "offset < 2 ^ 63"
    and "c = \<lparr>cl_version = v, cl_msize = ms, cl_send = direct_send \<lparr>sh_s = s, sh_msize = msize\<rparr> tag\<rparr>"
  shows "(client_Auth c ctx afid uname aname st = map_err (ss_Auth s ctx afid uname aname st)) \<and>
     (client_Attach c ctx fid afid uname aname st = map_err (ss_Attach s ctx fid afid uname aname st)) \<and>
     (client_Clunk c ctx fid st = map_err0 (ss_Clunk s ctx fid st)) \<and>
     (client_Remove c ctx fid st = map_err0 (ss_Remove s ctx fid st)) \<and>
     (client_Walk c ctx fid newfid names st =
      (if 16 < length names then (Inl ErrWalkLimit, st) else map_err (ss_Walk s ctx fid newfid names st))) \<and>
     (client_Read c ctx fid n offset st =
      (case ss_Read s ctx fid (min n (nat (msize - 11))) offset st of
         ((p, Some e), st') \<Rightarrow> (([], Some (wire_error e)), st')
       | ((p, None), st') \<Rightarrow> ((take n p, if p = [] then Some EOF else None), st'))) \<and>
     (client_Write c ctx fid data offset st =
      (case ss_Write s ctx fid data offset st of
         ((k, Some e), st') \<Rightarrow> ((0, Some (wire_error e)), st')
       | ((k, None), st') \<Rightarrow>
           ((k mod 4294967296, if k mod 4294967296 < int (length data) then Some ErrShortWrite else None), st'))) \<and>
     (client_Open c ctx fid mode st = map_err (ss_Open s ctx fid mode st)) \<and>
     (client_Create c ctx fid name perm mode st = map_err (ss_Create s ctx fid name perm mode st)) \<and>
     (client_Stat c ctx fid st = map_err (ss_Stat s ctx fid st)) \<and>
     (client_WStat c ctx fid dir st = map_err0 (ss_WStat s ctx fid dir st))"
proof (intro conjI)
  have off: "sint (word_of_int offset :: u64) = offset" by (rule int64_roundtrip [OF assms(2,3)])
  show "client_Auth c ctx afid uname aname st = map_err (ss_Auth s ctx afid uname aname st)"
    by (simp add: client_ops assms(4) proxy_defs split: prod.split sum.split)
  show "client_Attach c ctx fid afid uname aname st = map_err (ss_Attach s ctx fid afid uname aname st)"
    by (simp add: client_ops assms(4) proxy_defs split: prod.split sum.split)
  show "client_Clunk c ctx fid st = map_err0 (ss_Clunk s ctx fid st)"
    by (simp add: client_ops assms(4) proxy_defs split: prod.split option.split)
  show "client_Remove c ctx fid st = map_err0 (ss_Remove s ctx fid st)"
    by (simp add: client_ops assms(4) proxy_defs split: prod.split option.split)
  show "client_Walk c ctx fid newfid names st =
      (if 16 < length names then (Inl ErrWalkLimit, st) else map_err (ss_Walk s ctx fid newfid names st))"
    by (simp add: client_ops assms(4) proxy_defs split: prod.split sum.split)
  show "client_Read c ctx fid n offset st =
      (case ss_Read s ctx fid (min n (nat (msize - 11))) offset st of
         ((p, Some e), st') \<Rightarrow> (([], Some (wire_error e)), st')
       | ((p, None), st') \<Rightarrow> ((take n p, if p = [] then Some EOF else None), st'))"
    by (rule client_Read_direct [OF assms(1-3)]) (simp add: assms(4))
  show "client_Write c ctx fid data offset st =
      (case ss_Write s ctx fid data offset st of
         ((k, Some e), st') \<Rightarrow> ((0, Some (wire_error e)), st')
       | ((k, None), st') \<Rightarrow>
           ((k mod 4294967296, if k mod 4294967296 < int (length data) then Some ErrShortWrite else None), st'))"
    by (simp add: client_ops assms(4) proxy_defs off unsigned_of_int take_bit_eq_mod
        split: prod.split option.split)
  show "client_Open c ctx fid mode st = map_err (ss_Open s ctx fid mode st)"
    by (rule client_Open_direct) (simp add: assms(4))
  show "client_Create c ctx fid name perm mode st = map_err (ss_Create s ctx fid name perm mode st)"
    by (simp add: client_ops assms(4) proxy_defs split: prod.split sum.split)
  show "client_Stat c ctx fid st = map_err (ss_Stat s ctx fid st)"
    by (simp add: client_ops assms(4) proxy_defs split: prod.split sum.split)
  show "client_WStat c ctx fid dir st = map_err0 (ss_WStat s ctx fid dir st)"
    by (simp add: client_ops assms(4) proxy_defs split: prod.split option.split)
qed

text \<open>A session that serves one file, which is its state.\<close>

definition sample_session :: "byte list Session" where
  "sample_session =
     \<lparr>ss_Auth = (\<lambda>_ _ _ _ st. (Inl ErrPerm, st)), ss_Attach = (\<lambda>_ _ _ _ _ st. (Inr zero_Qid, st)),
      ss_Clunk = (\<lambda>_ _ st. (None, st)), ss_Remove = (\<lambda>_ _ st. (Some ErrNoremove, [])),
      ss_Walk = (\<lambda>_ _ _ names st. (Inr (map (\<lambda>_. zero_Qid) names), st)),
      ss_Read = (\<lambda>_ _ n offset st. ((take n (drop (nat offset) st), None), st)),
      ss_Write = (\<lambda>_ _ p offset st. ((int (length p), None), take (nat offset) st @ p)),
      ss_Open = (\<lambda>_ _ _ st. (Inr (zero_Qid, 0), st)), ss_Create = (\<lambda>_ _ _ _ _ st. (Inl ErrNocreate, st)),
      ss_Stat = (\<lambda>_ _ st. (Inr sample_dir, st)), ss_WStat = (\<lambda>_ _ _ st. (Some ErrNowstat, st)),
      ss_Version = (\<lambda>st. ((24, DefaultVersion), st)), ss_Stop = (\<lambda>err st. (err, st))\<rparr>"

definition proxy_client :: "byte list client" where
  "proxy_client = \<lparr>cl_version = DefaultVersion, cl_msize = 24,
     cl_send = direct_send \<lparr>sh_s = sample_session, sh_msize = 24\<rparr> 1\<rparr>"

theorem proxy_transparent_witness:
  "client_Read proxy_client None 7 100 2 (map word_of_nat [1..<21]) =
     ((map word_of_nat [3..<16], None), map word_of_nat [1..<21]) \<and>
   client_Remove proxy_client None 7 [1] = (Some ErrNoremove, [])"
proof
  show "client_Read proxy_client None 7 100 2 (map word_of_nat [1..<21]) =
     ((map word_of_nat [3..<16], None), map word_of_nat [1..<21])"
    using proxy_transparent [where n = 100 and offset = 2 and c = proxy_client and v = DefaultVersion
        and ms = 24 and s = sample_session and msize = 24 and tag = 1 and ctx = None and fid = 7
        and st = "map word_of_nat [1..<21]"]
    by (simp add: proxy_client_def sample_session_def upt_rec)
  show "client_Remove proxy_client None 7 [1] = (Some ErrNoremove, [])"
    using proxy_transparent [where n = 100 and offset = 2 and c = proxy_client and v = DefaultVersion
        and ms = 24 and s = sample_session and msize = 24 and tag = 1 and ctx = None and fid = 7
        and st = "[1]"]
    by (simp add: proxy_client_def sample_session_def map_err0_def ErrNoremove_def)
qed

text \<open>
  C33: the handler answers each request with the message of the next type (\<open>Rauth\<close> to \<open>Tauth\<close> and so
  on) or with an error, and with an error for every message that is not such a request.
\<close>

theorem handle_reply_type:
  assumes "Handle sess ctx msg st = (Inr m, st')"
  shows "message_type m = message_type msg + 1 \<and>
         message_type msg \<in> {Tauth, Tattach, Twalk, Topen, Tcreate, Tread, Twrite, Tclunk, Tremove, Tstat, Twstat}"
  using assms
  by (cases msg)
    (auto simp: to_msg_def to_msg0_def split: prod.splits sum.splits option.splits)

theorem handle_reply_type_witness:
  "\<exists>m st'. Handle \<lparr>sh_s = sample_session, sh_msize = 24\<rparr> None (MessageTopen 7 0) [] = (Inr m, st') \<and>
     message_type m = Topen + 1"
  using handle_reply_type [of "\<lparr>sh_s = sample_session, sh_msize = 24\<rparr>" None "MessageTopen 7 0" "[]"
      "MessageRopen zero_Qid 0" "[]"]
  by (simp add: sample_session_def to_msg_def)

end
