(* ===== verification/P9_Path.thy ===== *)
theory P9_Path
  imports P9_Types
begin

text \<open>
  Path handling (\<^verbatim>\<open>path.go\<close>): validation, normalisation and joining of walk elements.  The
  functions of Go's \<^verbatim>\<open>strings\<close> and \<^verbatim>\<open>path\<close> packages that the code uses come first; a path
  below the root is the list of its elements, and the results are stated over such lists.
\<close>

section \<open>Strings and slash-separated paths in Go\<close>

fun strings_Split :: "char \<Rightarrow> string \<Rightarrow> string list" where
  "strings_Split c [] = [[]]"
| "strings_Split c (x # xs) =
     (if x = c then [] # strings_Split c xs
      else (case strings_Split c xs of [] \<Rightarrow> [[x]] | y # ys \<Rightarrow> (x # y) # ys))"

fun strings_Join :: "string list \<Rightarrow> string \<Rightarrow> string" where
  "strings_Join [] sep = []"
| "strings_Join [s] sep = s"
| "strings_Join (s # ss) sep = s @ sep @ strings_Join ss sep"

definition strings_Count :: "string \<Rightarrow> char \<Rightarrow> nat" where
  "strings_Count s c = length (filter (\<lambda>x. x = c) s)"

definition strings_ContainsAny :: "string \<Rightarrow> string \<Rightarrow> bool" where
  "strings_ContainsAny s chars = list_ex (\<lambda>x. x \<in> set chars) s"

definition strings_Trim :: "string \<Rightarrow> char \<Rightarrow> string" where
  "strings_Trim s c = rev (dropWhile (\<lambda>x. x = c) (rev (dropWhile (\<lambda>x. x = c) s)))"

definition path_IsAbs :: "string \<Rightarrow> bool" where
  "path_IsAbs p \<longleftrightarrow> p \<noteq> [] \<and> hd p = CHR ''/''"

text \<open>
  \<^verbatim>\<open>path.Clean\<close>: empty elements and \<open>.\<close> are dropped, an inner \<open>..\<close> goes with the element
  before it, and a \<open>..\<close> at the start of a rooted path is dropped.  The elements kept so far are
  in reverse order.
\<close>

fun clean_loop :: "bool \<Rightarrow> string list \<Rightarrow> string list \<Rightarrow> string list" where
  "clean_loop rooted out [] = rev out"
| "clean_loop rooted out (s # ss) =
     (if s = [] \<or> s = ''.'' then clean_loop rooted out ss
      else if s = ''..'' then
        (case out of
           [] \<Rightarrow> clean_loop rooted (if rooted then [] else [s]) ss
         | t # out' \<Rightarrow> if t = ''..'' then clean_loop rooted (s # out) ss else clean_loop rooted out' ss)
      else clean_loop rooted (s # out) ss)"

definition path_Clean :: "string \<Rightarrow> string" where
  "path_Clean p =
     (let rooted = path_IsAbs p;
          es = clean_loop rooted [] (strings_Split CHR ''/'' p) in
      if rooted then ''/'' @ strings_Join es ''/''
      else if es = [] then ''.'' else strings_Join es ''/'')"

fun path_Join :: "string list \<Rightarrow> string" where
  "path_Join [] = []"
| "path_Join (e # es) = (if e \<noteq> [] then path_Clean (strings_Join (e # es) ''/'') else path_Join es)"

section \<open>The operations\<close>

definition invalid_path :: error where
  "invalid_path = Rerr ''Invalid path''"

fun ValidPath_loop :: "int \<Rightarrow> int \<Rightarrow> string list \<Rightarrow> int" where
  "ValidPath_loop n i [] = n"
| "ValidPath_loop n i (s # args) =
     (if length s = 0 \<or> s = ''.'' then -1
      else if s = ''..'' then
        (if n \<noteq> i then -1 else ValidPath_loop (n + 1) (i + 1) args)
      else if strings_ContainsAny s [CHR 0x5C, CHR ''/''] then -1
      else ValidPath_loop n (i + 1) args)"

definition ValidPath :: "string list \<Rightarrow> int" where
  "ValidPath args = ValidPath_loop 0 0 args"

text \<open>
  The directory returned beside an error is not used by any caller.  Slicing an empty \<open>dir\<close>
  panics.
\<close>

definition WalkName :: "string \<Rightarrow> string list \<Rightarrow> error + string" where
  "WalkName dir names =
     (if dir = [] then Inl (Panic ''slice bounds out of range'')
      else
        (let depth = int (strings_Count (take (length dir - 1) dir) CHR ''/'');
             bsp = ValidPath names in
         if bsp < 0 \<or> depth < bsp then Inl invalid_path
         else Inr (path_Join [dir, path_Join names])))"

definition CreateName :: "string \<Rightarrow> string \<Rightarrow> error + string" where
  "CreateName dir name =
     (if strings_ContainsAny name [CHR 0x5C, CHR ''/''] \<or> length name = 0 \<or> name = ''.'' \<or> name = ''..''
      then Inl invalid_path
      else Inr (path_Join [dir, name]))"

text \<open>The array \<open>ans\<close> is filled in place; its first \<open>cursor\<close> elements are the result.\<close>

fun NormalizePath_loop :: "string list \<Rightarrow> nat \<Rightarrow> nat \<Rightarrow> string list \<Rightarrow> string list \<times> int" where
  "NormalizePath_loop ans cursor lo [] = (take cursor ans, int lo)"
| "NormalizePath_loop ans cursor lo (s # args) =
     (if strings_ContainsAny s [CHR 0x5C, CHR ''/''] then ([], -1)
      else if length s = 0 \<or> s = ''.'' then NormalizePath_loop ans cursor lo args
      else if s = ''..'' \<and> lo < cursor then NormalizePath_loop ans (cursor - 1) lo args
      else NormalizePath_loop (ans[cursor := s]) (cursor + 1) (if s = ''..'' then lo + 1 else lo) args)"

definition NormalizePath :: "string list \<Rightarrow> string list \<times> int" where
  "NormalizePath args = NormalizePath_loop (replicate (length args) []) 0 0 args"

text \<open>\<open>ToWalk\<close> does not look at its \<open>Dirent\<close> argument.\<close>

definition ToWalk :: "string \<Rightarrow> bool \<times> (error + string list)" where
  "ToWalk p =
     (let isAbs = path_IsAbs p;
          (steps, bsp) = NormalizePath (strings_Split CHR ''/'' (strings_Trim p CHR ''/'')) in
      if isAbs then
        (if bsp \<noteq> 0 then (True, Inl (Rerr (''invalid path: '' @ p))) else (True, Inr steps))
      else if bsp < 0 then (False, Inl (Rerr (''invalid path: '' @ p)))
      else (False, Inr steps))"

section \<open>Elements of a path\<close>

definition good_name :: "string \<Rightarrow> bool" where
  "good_name s \<longleftrightarrow> s \<noteq> [] \<and> s \<noteq> ''.'' \<and> s \<noteq> ''..'' \<and> CHR 0x5C \<notin> set s \<and> CHR ''/'' \<notin> set s"

text \<open>An internal path is absolute and names its elements without detours.\<close>

definition internal :: "string list \<Rightarrow> string" where
  "internal es = ''/'' @ strings_Join es ''/''"

definition slashed :: "string \<Rightarrow> bool" where
  "slashed s \<longleftrightarrow> CHR 0x5C \<in> set s \<or> CHR ''/'' \<in> set s"

lemma ContainsAny_iff [simp]: "strings_ContainsAny s [CHR 0x5C, CHR ''/''] \<longleftrightarrow> slashed s"
  by (auto simp: slashed_def strings_ContainsAny_def list_ex_iff)

lemma good_name_alt: "good_name s \<longleftrightarrow> s \<noteq> [] \<and> s \<noteq> ''.'' \<and> s \<noteq> ''..'' \<and> \<not> slashed s"
  by (auto simp: good_name_def slashed_def)

lemma Split_nonempty [simp]: "strings_Split c s \<noteq> []"
  by (cases s) (auto split: list.splits)

lemma Split_append: "strings_Split c (a @ c # b) = strings_Split c a @ strings_Split c b"
  by (induction a) (auto split: list.splits)

lemma Split_single: "c \<notin> set s \<Longrightarrow> strings_Split c s = [s]"
  by (induction s) auto

lemma Split_Join:
  "es \<noteq> [] \<Longrightarrow> \<forall>e\<in>set es. c \<notin> set e \<Longrightarrow> strings_Split c (strings_Join es [c]) = es"
  by (induction es "[c]" rule: strings_Join.induct) (auto simp: Split_single Split_append)

lemma Join_snoc: "es \<noteq> [] \<Longrightarrow> strings_Join (es @ [e]) sep = strings_Join es sep @ sep @ e"
  by (induction es sep rule: strings_Join.induct) auto

lemma Count_append [simp]: "strings_Count (a @ b) c = strings_Count a c + strings_Count b c"
  by (simp add: strings_Count_def)

lemma Count_none [simp]: "c \<notin> set s \<Longrightarrow> strings_Count s c = 0"
  by (auto simp: strings_Count_def filter_empty_conv)

lemma Count_Join:
  "es \<noteq> [] \<Longrightarrow> \<forall>e\<in>set es. c \<notin> set e \<Longrightarrow> strings_Count (strings_Join es [c]) c = length es - 1"
  by (induction es "[c]" rule: strings_Join.induct) (auto simp: strings_Count_def filter_empty_conv)

lemma depth_internal:
  assumes "list_all good_name es"
  shows "strings_Count (take (length (internal es) - 1) (internal es)) CHR ''/'' = length es"
proof (cases es rule: rev_cases)
  case Nil
  then show ?thesis by (simp add: internal_def strings_Count_def)
next
  case (snoc fs e)
  have e: "e \<noteq> []" "CHR ''/'' \<notin> set e" and fs: "\<forall>f\<in>set fs. CHR ''/'' \<notin> set f"
    using assms by (auto simp: snoc good_name_def list_all_iff)
  have b: "CHR ''/'' \<notin> set (butlast e)" using e(2) by (meson in_set_butlastD)
  have "butlast (internal es) =
      (if fs = [] then ''/'' else ''/'' @ strings_Join fs ''/'' @ ''/'') @ butlast e"
    using e(1) by (simp add: internal_def snoc Join_snoc butlast_append)
  then have "take (length (internal es) - 1) (internal es) =
      (if fs = [] then ''/'' else ''/'' @ strings_Join fs ''/'' @ ''/'') @ butlast e"
    by (simp add: butlast_conv_take)
  then show ?thesis
    using b Count_Join [OF _ fs] by (auto simp: snoc strings_Count_def filter_empty_conv)
qed

section \<open>Cleaning\<close>

lemma clean_append:
  "clean_loop rooted out (xs @ ys) = clean_loop rooted (rev (clean_loop rooted out xs)) ys"
  by (induction rooted out xs rule: clean_loop.induct) (auto split: list.splits)

lemma clean_good:
  "list_all good_name xs \<Longrightarrow> clean_loop rooted out xs = rev out @ xs"
  by (induction xs arbitrary: out) (auto simp: good_name_def)

lemma clean_up:
  "list_all good_name es \<Longrightarrow> n \<le> length es \<Longrightarrow>
     clean_loop rooted (rev es) (replicate n ''..'') = take (length es - n) es"
proof (induction n arbitrary: es)
  case (Suc n)
  then obtain fs e where es: "es = fs @ [e]" by (cases es rule: rev_cases) auto
  with Suc show ?case by (auto simp: good_name_def)
qed simp

lemma clean_dots_rel: "clean_loop False (replicate k ''..'') (replicate n ''..'') = replicate (k + n) ''..''"
proof (induction n arbitrary: k)
  case (Suc n)
  from Suc [of "Suc k"] show ?case by (cases k) simp_all
qed simp

lemma Clean_rooted:
  "path_Clean (CHR ''/'' # p) = internal (clean_loop True [] (strings_Split CHR ''/'' p))"
  by (simp add: path_Clean_def path_IsAbs_def internal_def)

lemma Split_internal:
  "list_all good_name es \<Longrightarrow>
     strings_Split CHR ''/'' (strings_Join es ''/'') = (if es = [] then [[]] else es)"
  by (auto simp: list_all_iff good_name_def intro: Split_Join)

lemma Join_internal:
  assumes "list_all good_name es"
  shows "path_Join [internal es, p] = internal (clean_loop True (rev es) (strings_Split CHR ''/'' p))"
proof -
  have "path_Join [internal es, p] = path_Clean (CHR ''/'' # (strings_Join es ''/'' @ CHR ''/'' # p))"
    by (simp add: internal_def)
  also have "\<dots> = internal (clean_loop True [] ((if es = [] then [[]] else es) @ strings_Split CHR ''/'' p))"
    unfolding Clean_rooted Split_append Split_internal [OF assms] ..
  also have "\<dots> = internal (clean_loop True (rev es) (strings_Split CHR ''/'' p))"
    using assms by (auto simp: clean_append clean_good)
  finally show ?thesis .
qed

section \<open>Valid and normal element lists\<close>

text \<open>What an element does to a list of directory names, seen from the root.\<close>

definition walk_step :: "string \<Rightarrow> string list \<Rightarrow> string list" where
  "walk_step s st =
     (if s = [] \<or> s = ''.'' then st else if s = ''..'' then butlast st else st @ [s])"

lemma ValidPath_rest:
  "n \<noteq> i \<Longrightarrow> n < i \<Longrightarrow> ValidPath_loop n i args = (if list_all good_name args then n else -1)"
  by (induction n i args rule: ValidPath_loop.induct) (auto simp: good_name_alt)

lemma ValidPath_loop_ge: "ValidPath_loop n i args = -1 \<or> n \<le> ValidPath_loop n i args"
  by (induction n i args rule: ValidPath_loop.induct) auto

lemma ValidPath_loop_iff:
  assumes "0 \<le> n"
  shows "ValidPath_loop n n args = n + int k \<longleftrightarrow>
           (\<exists>rest. args = replicate k ''..'' @ rest \<and> list_all good_name rest)"
  using assms
proof (induction args arbitrary: n k)
  case Nil
  then show ?case by auto
next
  case (Cons s args)
  show ?case
  proof (cases "s = ''..''")
    case True
    show ?thesis
    proof (cases k)
      case 0
      have "ValidPath_loop (n + 1) (n + 1) args \<noteq> n"
        using ValidPath_loop_ge [of "n + 1" "n + 1" args] Cons.prems by auto
      with True 0 show ?thesis by (simp add: good_name_def)
    next
      case (Suc k')
      then show ?thesis using True Cons.IH [of "n + 1" k'] Cons.prems by (simp add: algebra_simps)
    qed
  next
    case False
    then show ?thesis
      using Cons.prems ValidPath_rest [of n "n + 1" args]
      by (cases k) (auto simp: good_name_alt [of s])
  qed
qed

lemma ValidPath_iff:
  "ValidPath args = int k \<longleftrightarrow> (\<exists>rest. args = replicate k ''..'' @ rest \<and> list_all good_name rest)"
  using ValidPath_loop_iff [of 0 args k] by (simp add: ValidPath_def)

lemma ValidPath_nonneg:
  assumes "0 \<le> ValidPath args"
  obtains k rest where "ValidPath args = int k" and "args = replicate k ''..'' @ rest"
    and "list_all good_name rest"
proof -
  from assms have "ValidPath args = int (nat (ValidPath args))" by simp
  then show thesis using that ValidPath_iff by blast
qed

lemma Join_not_abs:
  "e \<noteq> [] \<Longrightarrow> CHR ''/'' \<notin> set e \<Longrightarrow> \<not> path_IsAbs (strings_Join (e # es) ''/'')"
  by (cases es; cases e) (auto simp: path_IsAbs_def)

lemma Join_valid:
  assumes "list_all good_name rest" and n: "names = replicate n ''..'' @ rest"
  shows "path_Join names = strings_Join names ''/''"
    and "names \<noteq> [] \<Longrightarrow> strings_Split CHR ''/'' (strings_Join names ''/'') = names"
proof -
  have el: "\<forall>e\<in>set names. CHR ''/'' \<notin> set e \<and> e \<noteq> []"
  proof
    fix e assume "e \<in> set names"
    then have "e = ''..'' \<or> good_name e" using assms(1) by (auto simp: n list_all_iff)
    then show "CHR ''/'' \<notin> set e \<and> e \<noteq> []" by (auto simp: good_name_def)
  qed
  then have sp: "names \<noteq> [] \<Longrightarrow> strings_Split CHR ''/'' (strings_Join names ''/'') = names"
    by (intro Split_Join) auto
  then show "names \<noteq> [] \<Longrightarrow> strings_Split CHR ''/'' (strings_Join names ''/'') = names" .
  have cl: "clean_loop False [] names = names"
    using clean_dots_rel [of 0 n] assms(1) unfolding n clean_append by (simp add: clean_good)
  show "path_Join names = strings_Join names ''/''"
  proof (cases names)
    case (Cons e es)
    then have e: "e \<noteq> []" "CHR ''/'' \<notin> set e" using el by simp_all
    have "path_Join names = path_Clean (strings_Join names ''/'')" unfolding Cons using e(1) by simp
    also have "\<dots> = strings_Join names ''/''"
    proof -
      have ne: "names \<noteq> []" using Cons by simp
      have abs: "path_IsAbs (strings_Join names ''/'') = False"
        using Join_not_abs [OF e, of es] Cons by blast
      show ?thesis unfolding path_Clean_def Let_def abs sp [OF ne] cl using ne by simp
    qed
    finally show ?thesis .
  qed simp
qed

lemma walk_good: "list_all good_name es \<Longrightarrow> fold walk_step es st = st @ es"
proof (induction es arbitrary: st)
  case (Cons e es)
  then show ?case by (simp add: walk_step_def good_name_def [of e])
qed simp

lemma walk_ups: "fold walk_step (replicate n ''..'') st = take (length st - n) st"
proof (induction n arbitrary: st)
  case (Suc n)
  have "fold walk_step (replicate (Suc n) ''..'') st = fold walk_step (replicate n ''..'') (butlast st)"
    by (simp add: walk_step_def)
  also have "\<dots> = take (length (butlast st) - n) (butlast st)" by (rule Suc)
  finally show ?case by (simp add: butlast_conv_take min_def)
qed simp

lemma walk_ups_pow: "(walk_step ''..'' ^^ n) st = take (length st - n) st"
  using walk_ups [of n st] by simp

lemma clean_walk:
  "''..'' \<notin> set st \<Longrightarrow> clean_loop True (rev st) xs = fold walk_step xs st"
proof (induction xs arbitrary: st)
  case (Cons s xs)
  have b: "''..'' \<notin> set (butlast st)" using Cons.prems by (meson in_set_butlastD)
  show ?case
  proof (cases "s = ''..''")
    case True
    then show ?thesis using Cons.IH [OF b] Cons.IH [of "[]"] Cons.prems
      by (cases st rule: rev_cases) (auto simp: walk_step_def)
  next
    case False
    then show ?thesis using Cons.IH [of st] Cons.IH [of "st @ [s]"] Cons.prems
      by (auto simp: walk_step_def)
  qed
qed simp

lemma good_no_dots: "list_all good_name es \<Longrightarrow> ''..'' \<notin> set es"
  by (auto simp: list_all_iff good_name_def)

lemma normalize_bad:
  "list_ex slashed args \<Longrightarrow> NormalizePath_loop ans cursor lo args = ([], -1)"
  by (induction ans cursor lo args rule: NormalizePath_loop.induct) auto

lemma normalize_inv:
  assumes "take cursor ans = replicate lo ''..'' @ gs" and "list_all good_name gs"
    and "cursor = lo + length gs" and "cursor + length args \<le> length ans"
    and "\<not> list_ex slashed args"
  shows "\<exists>b gs'. NormalizePath_loop ans cursor lo args = (replicate b ''..'' @ gs', int b) \<and>
    list_all good_name gs' \<and>
    (\<forall>st. fold walk_step args (fold walk_step (take cursor ans) st) =
          fold walk_step (replicate b ''..'' @ gs') st)"
  using assms
proof (induction args arbitrary: ans cursor lo gs)
  case Nil
  then have "NormalizePath_loop ans cursor lo [] = (replicate lo ''..'' @ gs, int lo)" by simp
  with Nil show ?case by (intro exI [of _ lo] exI [of _ gs]) simp
next
  case (Cons s args)
  have s: "\<not> slashed s"
    and as: "\<not> list_ex slashed args" using Cons.prems(5) by simp_all
  have lt: "cursor < length ans" using Cons.prems(4) by simp
  then have t: "take (cursor + 1) (ans[cursor := s]) = take cursor ans @ [s]"
    by (simp add: take_Suc_conv_app_nth)
  have next_step: ?case
    if "NormalizePath_loop ans cursor lo (s # args) = NormalizePath_loop ans' cursor' lo' args"
      "take cursor' ans' = replicate lo' ''..'' @ hs" "list_all good_name hs" "cursor' = lo' + length hs"
      "length ans' = length ans" "cursor' \<le> cursor + 1"
      "\<And>st. walk_step s (fold walk_step (take cursor ans) st) = fold walk_step (take cursor' ans') st"
    for ans' cursor' lo' hs
    using Cons.IH [OF that(2-4) _ as] that(1,5-7) Cons.prems(4) by simp
  consider (skip) "s = [] \<or> s = ''.''" | (pop) "s = ''..''" "lo < cursor"
    | (up) "s = ''..''" "cursor = lo" | (push) "good_name s" "s \<noteq> []" "s \<noteq> ''.''" "s \<noteq> ''..''"
    using Cons.prems(3) s by (auto simp: good_name_alt)
  then show ?case
  proof cases
    case skip
    then show ?thesis by (intro next_step [OF _ Cons.prems(1-3)]) (auto simp: s walk_step_def)
  next
    case pop
    then obtain hs h where gs: "gs = hs @ [h]" using Cons.prems(3) by (cases gs rule: rev_cases) auto
    have "take (cursor - 1) ans = butlast (take cursor ans)" using lt by (simp add: butlast_take)
    then have t: "take (cursor - 1) ans = replicate lo ''..'' @ hs"
      by (simp add: Cons.prems(1) gs butlast_append)
    have h: "good_name h" "list_all good_name hs" using Cons.prems(2) gs by simp_all
    have w: "walk_step s (fold walk_step (take cursor ans) st) =
        fold walk_step (take (cursor - 1) ans) st" for st
      unfolding t Cons.prems(1) using h(1) by (simp add: gs pop(1) walk_step_def good_name_def)
    show ?thesis
      by (rule next_step [OF _ t h(2) _ _ _ w]) (use pop s gs Cons.prems(3) in simp_all)
  next
    case up
    have "gs = []" using up(2) Cons.prems(3) by simp
    then have t': "take (cursor + 1) (ans[cursor := s]) = replicate (lo + 1) ''..'' @ []"
      unfolding t using Cons.prems(1) up(1) by (simp add: replicate_append_same)
    have w: "walk_step s (fold walk_step (take cursor ans) st) =
        fold walk_step (take (cursor + 1) (ans[cursor := s])) st" for st
      unfolding t by simp
    show ?thesis by (rule next_step [OF _ t' _ _ _ _ w]) (use up s in simp_all)
  next
    case push
    have t': "take (cursor + 1) (ans[cursor := s]) = replicate lo ''..'' @ (gs @ [s])"
      unfolding t using Cons.prems(1) by simp
    have w: "walk_step s (fold walk_step (take cursor ans) st) =
        fold walk_step (take (cursor + 1) (ans[cursor := s])) st" for st
      unfolding t by simp
    show ?thesis
      by (rule next_step [OF _ t' _ _ _ _ w]) (use push s Cons.prems(2,3) in simp_all)
  qed
qed

lemma NormalizePath_cases:
  obtains (bad) "list_ex slashed args" "NormalizePath args = ([], -1)"
  | (ok) b gs where "\<not> list_ex slashed args"
      "NormalizePath args = (replicate b ''..'' @ gs, int b)" "list_all good_name gs"
      "\<And>st. fold walk_step args st = fold walk_step (replicate b ''..'' @ gs) st"
proof (cases "list_ex slashed args")
  case True
  then show ?thesis using bad by (simp add: NormalizePath_def normalize_bad)
next
  case False
  from normalize_inv [of 0 "replicate (length args) []" 0 "[]", OF _ _ _ _ False]
  obtain b gs where "NormalizePath args = (replicate b ''..'' @ gs, int b)" "list_all good_name gs"
    "\<forall>st. fold walk_step args st = fold walk_step (replicate b ''..'' @ gs) st"
    by (auto simp: NormalizePath_def simp del: fold_append)
  then show ?thesis using ok [OF False] by blast
qed

section \<open>Splitting a trimmed path\<close>

lemma walk_empty [simp]: "walk_step [] st = st"
  by (simp add: walk_step_def)

lemma walk_trim_left:
  "fold walk_step (strings_Split c (dropWhile (\<lambda>x. x = c) s)) st = fold walk_step (strings_Split c s) st"
  by (induction s) auto

lemma walk_trim_right:
  "fold walk_step (strings_Split c (rev (dropWhile (\<lambda>x. x = c) r))) st =
   fold walk_step (strings_Split c (rev r)) st"
proof (induction r)
  case (Cons x r)
  have "strings_Split c (rev r @ c # []) = strings_Split c (rev r) @ [[]]"
    by (simp only: Split_append strings_Split.simps)
  with Cons show ?case by auto
qed simp

lemma walk_trim:
  "fold walk_step (strings_Split c (strings_Trim p c)) st = fold walk_step (strings_Split c p) st"
  unfolding strings_Trim_def walk_trim_right rev_rev_ident by (rule walk_trim_left)

lemma normal_unique:
  assumes "list_all good_name gs" and "list_all good_name hs"
    and "\<And>st. fold walk_step (replicate a ''..'' @ gs) st = fold walk_step (replicate b ''..'' @ hs) st"
  shows "a = b \<and> gs = hs"
proof -
  let ?st = "replicate (a + b) ''..''"
  have tw: "takeWhile (\<lambda>x. x = ''..'') xs = []" "dropWhile (\<lambda>x. x = ''..'') xs = xs"
    if "list_all good_name xs" for xs
    using that by (cases xs; simp add: good_name_def)+
  have tr: "takeWhile (\<lambda>x. x = ''..'') (replicate n ''..'' @ xs) = replicate n ''..''"
    "dropWhile (\<lambda>x. x = ''..'') (replicate n ''..'' @ xs) = xs"
    if "list_all good_name xs" for n xs
    using tw [OF that] by (simp_all add: takeWhile_append dropWhile_append)
  have "fold walk_step (replicate n ''..'' @ xs) ?st = replicate (a + b - n) ''..'' @ xs"
    if "list_all good_name xs" "n \<le> a + b" for n xs
    using that by (simp add: walk_ups_pow walk_good)
  from this [OF assms(1)] this [OF assms(2)] assms(3) [of ?st]
  have eq: "replicate (a + b - a) ''..'' @ gs = replicate (a + b - b) ''..'' @ hs" by simp
  from arg_cong [OF eq, of "takeWhile (\<lambda>x. x = ''..'')"] have "a + b - a = a + b - b"
    unfolding tr(1) [OF assms(1)] tr(1) [OF assms(2)] by simp
  moreover from arg_cong [OF eq, of "dropWhile (\<lambda>x. x = ''..'')"] have "gs = hs"
    unfolding tr(2) [OF assms(1)] tr(2) [OF assms(2)] .
  ultimately show ?thesis by simp
qed

lemma NormalizePath_normal:
  assumes "list_all good_name gs"
  shows "NormalizePath (replicate b ''..'' @ gs) = (replicate b ''..'' @ gs, int b)" (is "NormalizePath ?res = _")
proof (cases rule: NormalizePath_cases [of ?res])
  case bad
  have "\<not> slashed x" if "x \<in> set ?res" for x
  proof -
    have "x = ''..'' \<or> good_name x" using that assms by (auto simp: list_all_iff)
    then show ?thesis by (auto simp: good_name_alt slashed_def)
  qed
  then have "\<not> list_ex slashed ?res" by (meson list_ex_iff)
  then show ?thesis using bad by simp
next
  case (ok b' gs')
  then show ?thesis using normal_unique [OF assms ok(3)] by blast
qed

text \<open>\<open>WalkName\<close> is a walk over the elements, where it does not leave the root.\<close>

lemma WalkName_walk:
  assumes "list_all good_name es" and "0 \<le> ValidPath names \<and> ValidPath names \<le> int (length es)"
  shows "WalkName (internal es) names = Inr (internal (fold walk_step names es))"
proof -
  obtain k rest where k: "names = replicate k ''..'' @ rest" "list_all good_name rest"
    using assms(2) by (auto elim: ValidPath_nonneg)
  have "WalkName (internal es) names = Inr (path_Join [internal es, path_Join names])"
    unfolding WalkName_def Let_def depth_internal [OF assms(1)] using assms(2) by (simp add: internal_def)
  also have "path_Join [internal es, path_Join names] =
      internal (clean_loop True (rev es) (if names = [] then [[]] else names))"
    unfolding Join_internal [OF assms(1)] using Join_valid [OF k(2,1)] by simp
  also have "clean_loop True (rev es) (if names = [] then [[]] else names) = fold walk_step names es"
    using clean_walk [OF good_no_dots [OF assms(1)], of names] by simp
  finally show ?thesis .
qed

lemma WalkName_refused:
  assumes "list_all good_name es" and "\<not> (0 \<le> ValidPath names \<and> ValidPath names \<le> int (length es))"
  shows "WalkName (internal es) names = Inl invalid_path"
  unfolding WalkName_def Let_def depth_internal [OF assms(1)] using assms(2) by (auto simp: internal_def)

lemma walk_good_names:
  assumes "list_all good_name es" and "0 \<le> ValidPath names"
  shows "list_all good_name (fold walk_step names es)"
proof -
  obtain k rest where "names = replicate k ''..'' @ rest" "list_all good_name rest" using assms(2) by (auto elim: ValidPath_nonneg)
  then show ?thesis using assms(1) by (auto simp: walk_ups_pow walk_good list_all_iff dest: in_set_takeD)
qed

section \<open>Properties\<close>

text \<open>
  C18: \<open>WalkName\<close> from an internal path accepts exactly the element lists that go up no further
  than the root and then down through proper names, and its result is again an internal path:
  the one reached by dropping and appending those elements.  No walk leaves the root.
\<close>

theorem walkname_correct:
  assumes "list_all good_name es"
  shows "(\<exists>k rest. names = replicate k ''..'' @ rest \<and> list_all good_name rest \<and> k \<le> length es \<and>
            WalkName (internal es) names = Inr (internal (take (length es - k) es @ rest))) \<or>
         (WalkName (internal es) names = Inl invalid_path \<and>
          \<not> (\<exists>k rest. names = replicate k ''..'' @ rest \<and> list_all good_name rest \<and> k \<le> length es))"
proof (cases "0 \<le> ValidPath names \<and> ValidPath names \<le> int (length es)")
  case True
  then obtain k rest where k: "ValidPath names = int k" "names = replicate k ''..'' @ rest"
    "list_all good_name rest" by (auto elim: ValidPath_nonneg)
  have "fold walk_step names es = take (length es - k) es @ rest" by (simp add: k(2) walk_ups_pow walk_good k(3))
  then show ?thesis using WalkName_walk [OF assms True] k True by auto
next
  case False
  have "\<not> (\<exists>k rest. names = replicate k ''..'' @ rest \<and> list_all good_name rest \<and> k \<le> length es)"
  proof
    assume "\<exists>k rest. names = replicate k ''..'' @ rest \<and> list_all good_name rest \<and> k \<le> length es"
    then obtain k where "ValidPath names = int k" "k \<le> length es" using ValidPath_iff by blast
    with False show False by simp
  qed
  then show ?thesis using WalkName_refused [OF assms] False by blast
qed

theorem walkname_correct_witness:
  "WalkName ''/usr/glenda'' [''..'', ''bin''] = Inr ''/usr/bin'' \<and>
   (\<exists>k rest. [''..'', ''bin''] = replicate k ''..'' @ rest \<and> list_all good_name rest \<and>
      Inr ''/usr/bin'' = (Inr (internal (take (2 - k) [''usr'', ''glenda''] @ rest)) :: error + string))"
proof -
  have t: "WalkName ''/usr/glenda'' [''..'', ''bin''] = Inr ''/usr/bin''" by code_simp
  have i: "internal [''usr'', ''glenda''] = ''/usr/glenda''" "length [''usr'', ''glenda''] = 2"
    by (simp_all add: internal_def)
  have "list_all good_name [''usr'', ''glenda'']" by (simp add: good_name_def)
  from walkname_correct [OF this, of "[''..'', ''bin'']", unfolded i t] t show ?thesis
    by blast
qed

text \<open>
  C19: \<open>NormalizePath\<close> refuses exactly the lists with a slash or backslash in an element.  Else
  its result is a number of leading \<open>..\<close>, the number it returns, followed by proper names; it
  is accepted by \<open>ValidPath\<close>, is left alone by normalising again, and takes a walk from any
  directory where the original list takes it.
\<close>

theorem normalize_correct:
  "if list_ex slashed args then NormalizePath args = ([], -1)
   else (\<exists>b gs. let res = replicate b ''..'' @ gs in
           NormalizePath args = (res, int b) \<and> list_all good_name gs \<and> ValidPath res = int b \<and>
           NormalizePath res = (res, int b) \<and>
           (\<forall>st. fold walk_step args st = fold walk_step res st))"
proof (cases rule: NormalizePath_cases [of args])
  case (ok b gs)
  let ?res = "replicate b ''..'' @ gs"
  note n = NormalizePath_normal [OF ok(3), of b]
  have v: "ValidPath ?res = int b" using ValidPath_iff ok(3) by blast
  show ?thesis
    unfolding Let_def if_not_P [OF ok(1)]
    by (rule exI [of _ b], rule exI [of _ gs]) (intro conjI allI ok(2,3,4) n v)
next
  case bad
  then show ?thesis by simp
qed

text \<open>
  C20: when \<open>ToWalk\<close> accepts an absolute path, its steps are proper names and spell out the
  cleaned path; for a relative path the steps are a valid walk that leads, from any directory,
  where the elements of the path lead.
\<close>

theorem towalk_correct:
  assumes "ToWalk p = (isAbs, Inr steps)"
  shows "isAbs = path_IsAbs p \<and>
    (if isAbs then list_all good_name steps \<and> path_Clean p = internal steps
     else 0 \<le> ValidPath steps \<and>
          (\<forall>st. fold walk_step (strings_Split CHR ''/'' p) st = fold walk_step steps st))"
proof -
  let ?args = "strings_Split CHR ''/'' (strings_Trim p CHR ''/'')"
  from assms obtain b gs where n: "NormalizePath ?args = (replicate b ''..'' @ gs, int b)"
    "list_all good_name gs"
    "\<And>st. fold walk_step ?args st = fold walk_step (replicate b ''..'' @ gs) st"
    by (cases rule: NormalizePath_cases [of ?args])
      (auto simp: ToWalk_def Let_def split: if_splits)
  then have steps: "steps = replicate b ''..'' @ gs" "isAbs = path_IsAbs p" "isAbs \<longrightarrow> b = 0"
    using assms by (auto simp: ToWalk_def Let_def split: if_splits)
  have w: "fold walk_step (strings_Split CHR ''/'' p) st = fold walk_step steps st" for st
    using n(3) [of st] by (simp add: walk_trim steps(1) del: fold_append)
  have v: "ValidPath steps = int b" using ValidPath_iff steps(1) n(2) by blast
  show ?thesis
  proof (cases isAbs)
    case True
    then obtain q where p: "p = CHR ''/'' # q"
      using steps(2) by (cases p) (auto simp: path_IsAbs_def)
    have "path_Clean p = internal (fold walk_step (strings_Split CHR ''/'' p) [])"
      using clean_walk [of "[]"] by (simp add: p Clean_rooted)
    also have "\<dots> = internal steps" using w [of "[]"] True steps n(2) by (simp add: walk_good)
    finally show ?thesis using True steps n(2) by simp
  next
    case False
    then show ?thesis using w v steps(2) by simp
  qed
qed

theorem towalk_correct_witness:
  "ToWalk ''/a/./b//../c/'' = (True, Inr [''a'', ''c'']) \<and> path_Clean ''/a/./b//../c/'' = ''/a/c''"
proof -
  have t: "ToWalk ''/a/./b//../c/'' = (True, Inr [''a'', ''c''])" by code_simp
  from towalk_correct [OF t] t show ?thesis by (simp add: internal_def)
qed

text \<open>
  \<open>CreateName\<close> accepts exactly the proper names, and gives the internal path of the new
  entry in the directory.
\<close>

theorem createname_correct:
  assumes "list_all good_name es"
  shows "CreateName (internal es) name =
           (if good_name name then Inr (internal (es @ [name])) else Inl invalid_path)"
proof (cases "good_name name")
  case True
  then have "path_Join [internal es, name] = internal (es @ [name])"
    using clean_good [of "[name]" True "rev es"]
    unfolding Join_internal [OF assms] by (simp add: Split_single good_name_def)
  with True show ?thesis unfolding CreateName_def by (simp add: good_name_alt)
next
  case False
  then show ?thesis unfolding CreateName_def ContainsAny_iff by (auto simp: good_name_alt)
qed

theorem createname_correct_witness:
  "CreateName ''/usr'' ''glenda'' = Inr ''/usr/glenda'' \<and> CreateName ''/usr'' ''..'' = Inl invalid_path"
  using createname_correct [of "[''usr'']" "''glenda''"] createname_correct [of "[''usr'']" "''..''"]
  by (simp add: internal_def good_name_def)

end
