(* ===== verification/P9_Readdir.thy ===== *)
theory P9_Readdir
  imports P9_Channel
begin

text \<open>
  Reading directories on the server (\<^verbatim>\<open>readdir.go\<close>).  A \<open>Readdir\<close> turns a function that
  yields the entries of a directory one by one into a sequential byte stream of whole entries.
  The closure \<open>nextfn\<close> is a function on a state of its own, kept in the record.
\<close>

section \<open>Definitions\<close>

record 'w Readdir =
  rd_nextfn :: "Context \<Rightarrow> 'w \<Rightarrow> (error + Dir) \<times> 'w"
  rd_state :: 'w
  rd_buf :: "Dir option"
  rd_codec :: codec
  rd_offset :: int

text \<open>The variables \<open>dirs\<close> and \<open>done\<close> of the closure are the first part of its state.\<close>

definition mkNext1 :: "(Context \<Rightarrow> 'w \<Rightarrow> (error + Dir list) \<times> 'w) \<Rightarrow>
    Context \<Rightarrow> Dir list \<times> bool \<times> 'w \<Rightarrow> (error + Dir) \<times> Dir list \<times> bool \<times> 'w" where
  "mkNext1 nxt ctx st =
     (case st of (dirs, done, w) \<Rightarrow>
        if done then (Inl EOF, st)
        else
          (case dirs of
             d # dirs' \<Rightarrow> (Inr d, dirs', done, w)
           | [] \<Rightarrow>
               (case nxt ctx w of
                  (Inl err, w') \<Rightarrow> (Inl err, [], done, w')
                | (Inr [], w') \<Rightarrow> (Inl EOF, [], True, w')
                | (Inr (d # dirs'), w') \<Rightarrow> (Inr d, dirs', done, w'))))"

definition NewReaddir1 :: "codec \<Rightarrow> (Context \<Rightarrow> 'w \<Rightarrow> (error + Dir) \<times> 'w) \<Rightarrow> 'w \<Rightarrow> 'w Readdir" where
  "NewReaddir1 cd nxt w =
     \<lparr>rd_nextfn = nxt, rd_state = w, rd_buf = None, rd_codec = cd, rd_offset = 0\<rparr>"

definition NewReaddir :: "codec \<Rightarrow> (Context \<Rightarrow> 'w \<Rightarrow> (error + Dir list) \<times> 'w) \<Rightarrow> 'w \<Rightarrow>
    (Dir list \<times> bool \<times> 'w) Readdir" where
  "NewReaddir cd nxt w =
     \<lparr>rd_nextfn = mkNext1 nxt, rd_state = ([], False, w), rd_buf = None, rd_codec = cd, rd_offset = 0\<rparr>"

fun fixed_next :: "Context \<Rightarrow> Dir list \<Rightarrow> (error + Dir) \<times> Dir list" where
  "fixed_next ctx [] = (Inl EOF, [])"
| "fixed_next ctx (d # dirs) = (Inr d, dirs)"

definition NewFixedReaddir :: "codec \<Rightarrow> Dir list \<Rightarrow> Dir list Readdir" where
  "NewFixedReaddir cd dirs = NewReaddir1 cd fixed_next dirs"

text \<open>
  The loop of \<open>Read\<close>: \<open>p\<close> holds the bytes so far and \<open>cap\<close> the size of the buffer.  A codec
  that marshals an entry to no bytes could keep it running, so that it has fuel: \<open>None\<close> means
  that the fuel ran out.
\<close>

fun Readdir_loop :: "nat \<Rightarrow> Context \<Rightarrow> nat \<Rightarrow> 'w Readdir \<Rightarrow> byte list \<Rightarrow>
    ('w Readdir \<times> byte list \<times> error option) option" where
  "Readdir_loop 0 ctx cap rd p = None"
| "Readdir_loop (Suc fuel) ctx cap rd p =
     (if length p < cap then
        (case (case rd_buf rd of
                 Some d \<Rightarrow> (Inr d, rd\<lparr>rd_buf := None\<rparr>)
               | None \<Rightarrow> (case rd_nextfn rd ctx (rd_state rd) of (r, w) \<Rightarrow> (r, rd\<lparr>rd_state := w\<rparr>))) of
           (Inl err, rd1) \<Rightarrow> Some (rd1, p, Some err)
         | (Inr d, rd1) \<Rightarrow>
             (case co_Marshal (rd_codec rd1) (VDir d) of
                Inl err \<Rightarrow> Some (rd1, p, Some err)
              | Inr dp \<Rightarrow>
                  if cap < length p + length dp then Some (rd1\<lparr>rd_buf := Some d\<rparr>, p, None)
                  else Readdir_loop fuel ctx cap rd1 (p @ dp)))
      else Some (rd, p, None))"

text \<open>\<open>Read\<close> into a buffer of \<open>n\<close> bytes: the bytes read, the error, and the new state.\<close>

definition Readdir_Read :: "Context \<Rightarrow> 'w Readdir \<Rightarrow> nat \<Rightarrow> int \<Rightarrow>
    (byte list \<times> error option \<times> 'w Readdir) option" where
  "Readdir_Read ctx rd n offset =
     (if rd_offset rd \<noteq> offset then Some ([], Some ErrBadoffset, rd)
      else
        (case Readdir_loop (n + 1) ctx n rd [] of
           None \<Rightarrow> None
         | Some (rd', p, err) \<Rightarrow>
             Some (p, if err = Some EOF then None else err,
                   rd'\<lparr>rd_offset := rd_offset rd' + int (length p)\<rparr>)))"

definition Readdir_Write :: "'w Readdir \<Rightarrow> byte list \<Rightarrow> int \<Rightarrow> error + int" where
  "Readdir_Write rd p offset = Inl (Rerr ''invalid'')"

definition Readdir_Close :: "'w Readdir \<Rightarrow> error option" where
  "Readdir_Close rd = None"

section \<open>What a reader gets\<close>

text \<open>The entries that fit into \<open>n\<close> bytes, and those that are left.\<close>

fun fit_entries :: "nat \<Rightarrow> Dir list \<Rightarrow> Dir list \<times> Dir list" where
  "fit_entries n [] = ([], [])"
| "fit_entries n (d # ds) =
     (if length (w_dir d) \<le> n
      then (case fit_entries (n - length (w_dir d)) ds of (a, b) \<Rightarrow> (d # a, b))
      else ([], d # ds))"

definition w_dirs :: "Dir list \<Rightarrow> byte list" where
  "w_dirs ds = concat (map w_dir ds)"

text \<open>A client that reads with a buffer of \<open>n\<close> bytes until nothing is returned, at most \<open>k\<close> times.\<close>

fun read_to_end :: "nat \<Rightarrow> Context \<Rightarrow> nat \<Rightarrow> 'w Readdir \<Rightarrow> (byte list \<times> error option \<times> 'w Readdir) option" where
  "read_to_end 0 ctx n rd = None"
| "read_to_end (Suc k) ctx n rd =
     (case Readdir_Read ctx rd n (rd_offset rd) of
        None \<Rightarrow> None
      | Some (p, err, rd') \<Rightarrow>
          if p = [] \<or> err \<noteq> None then Some (p, err, rd')
          else (case read_to_end k ctx n rd' of
                  None \<Rightarrow> None
                | Some (q, err', rd'') \<Rightarrow> Some (p @ q, err', rd'')))"

lemma Marshal_dir: "Marshal (VDir d) = Inr (w_dir d)"
  by (simp add: Marshal_def encode_wire del: encode.simps)

lemma w_dir_nonempty [simp]: "0 < length (w_dir d)"
  by simp

lemma w_dirs_simps [simp]:
  "w_dirs [] = []" "w_dirs (d # ds) = w_dir d @ w_dirs ds" "w_dirs (as @ bs) = w_dirs as @ w_dirs bs"
  by (simp_all add: w_dirs_def)

lemma fit_entries_append: "fit_entries n ds = (a, b) \<Longrightarrow> ds = a @ b"
  by (induction n ds arbitrary: a b rule: fit_entries.induct) (auto split: if_splits prod.splits)

lemma fit_entries_length: "fit_entries n ds = (a, b) \<Longrightarrow> length (w_dirs a) \<le> n"
  by (induction n ds arbitrary: a b rule: fit_entries.induct) (fastforce split: if_splits prod.splits)+

lemma fit_entries_empty:
  "fit_entries n ds = ([], b) \<Longrightarrow> takeWhile (\<lambda>d. length (w_dir d) \<le> n) ds = []"
  by (cases ds) (auto split: if_splits prod.splits)

lemma entries_le: "length (w_dirs ds) \<le> n \<Longrightarrow> \<forall>d\<in>set ds. length (w_dir d) \<le> n"
  by (induction ds) auto

text \<open>The entries a \<open>Readdir\<close> is still to deliver, given those its source still has.\<close>

definition pending :: "('w \<Rightarrow> Dir list) \<Rightarrow> 'w Readdir \<Rightarrow> Dir list" where
  "pending pend rd = (case rd_buf rd of None \<Rightarrow> [] | Some d \<Rightarrow> [d]) @ pend (rd_state rd)"

definition of_source :: "(Context \<Rightarrow> 'w \<Rightarrow> (error + Dir) \<times> 'w) \<Rightarrow> 'w Readdir \<Rightarrow> bool" where
  "of_source nxt rd \<longleftrightarrow> rd_nextfn rd = nxt \<and> rd_codec rd = codec9p"

section \<open>Sources of entries\<close>

text \<open>
  The contract of \<open>nextfn\<close> for a directory whose entries can be listed: it yields the pending
  entries in order and then keeps reporting \<open>EOF\<close>, in the states that are good for it.
\<close>

locale dir_source =
  fixes nxt :: "Context \<Rightarrow> 'w \<Rightarrow> (error + Dir) \<times> 'w"
    and pend :: "'w \<Rightarrow> Dir list" and good :: "'w \<Rightarrow> bool"
  assumes nxt_good: "good w \<Longrightarrow> good (snd (nxt ctx w))"
    and nxt_end: "good w \<Longrightarrow> pend w = [] \<Longrightarrow> fst (nxt ctx w) = Inl EOF \<and> pend (snd (nxt ctx w)) = []"
    and nxt_entry: "good w \<Longrightarrow> pend w = d # ds \<Longrightarrow> fst (nxt ctx w) = Inr d \<and> pend (snd (nxt ctx w)) = ds"
begin

lemma loop_fit:
  assumes "of_source nxt rd" and "good (rd_state rd)" and "length p \<le> cap" and "cap - length p < fuel"
  shows "\<exists>rd' err. Readdir_loop fuel ctx cap rd p =
      Some (rd', p @ w_dirs (fst (fit_entries (cap - length p) (pending pend rd))), err) \<and>
    (err = None \<or> err = Some EOF) \<and> of_source nxt rd' \<and> good (rd_state rd') \<and> rd_offset rd' = rd_offset rd \<and>
    pending pend rd' = snd (fit_entries (cap - length p) (pending pend rd))"
  using assms
proof (induction fuel arbitrary: rd p)
  case (Suc fuel)
  show ?case
  proof (cases "length p < cap")
    case False
    then have "fit_entries (cap - length p) (pending pend rd) = ([], pending pend rd)"
      by (cases "pending pend rd") simp_all
    with False Suc.prems show ?thesis by simp
  next
    case True
    obtain r rd1 where f: "(case rd_buf rd of
                 Some d \<Rightarrow> (Inr d, rd\<lparr>rd_buf := None\<rparr>)
               | None \<Rightarrow> (case rd_nextfn rd ctx (rd_state rd) of (r, w) \<Rightarrow> (r, rd\<lparr>rd_state := w\<rparr>))) = (r, rd1)"
      by fastforce
    show ?thesis
    proof (cases "pending pend rd")
      case Nil
      then have "r = Inl EOF \<and> pending pend rd1 = [] \<and> of_source nxt rd1 \<and> good (rd_state rd1) \<and> rd_offset rd1 = rd_offset rd"
        using f Suc.prems(1,2) nxt_end [of "rd_state rd" ctx] nxt_good [of "rd_state rd" ctx]
        by (auto simp: pending_def of_source_def split: option.splits prod.splits)
      with True Nil f show ?thesis by simp
    next
      case (Cons d ds)
      then have r: "r = Inr d" "pending pend rd1 = ds" "of_source nxt rd1" "rd_offset rd1 = rd_offset rd"
        "rd_buf rd1 = None" "good (rd_state rd1)"
        using f Suc.prems(1,2) nxt_entry [of "rd_state rd" d ds ctx] nxt_good [of "rd_state rd" ctx]
        by (auto simp: pending_def of_source_def split: option.splits prod.splits)
      then have mar: "co_Marshal (rd_codec rd1) (VDir d) = Inr (w_dir d)"
        by (simp add: of_source_def codec9p_def Marshal_dir)
      show ?thesis
      proof (cases "cap < length p + length (w_dir d)")
        case big: True
        then have "Readdir_loop (Suc fuel) ctx cap rd p = Some (rd1\<lparr>rd_buf := Some d\<rparr>, p, None)"
          using True f r(1) mar by simp
        moreover have "pending pend (rd1\<lparr>rd_buf := Some d\<rparr>) = d # ds"
          using r(2,5) by (simp add: pending_def)
        ultimately show ?thesis using big r Cons by (auto simp: of_source_def)
      next
        case False
        then have "Readdir_loop (Suc fuel) ctx cap rd p = Readdir_loop fuel ctx cap rd1 (p @ w_dir d)"
          using True f r(1) mar by simp
        moreover have "cap - length (p @ w_dir d) < fuel"
          using Suc.prems(4) w_dir_nonempty [of d] True unfolding length_append by linarith
        moreover have "cap - length (p @ w_dir d) = cap - length p - length (w_dir d)" by simp
        ultimately show ?thesis
          using Suc.IH [OF r(3,6), of "p @ w_dir d"] False r(2,4) Cons
          by (auto simp del: length_w split: prod.splits)
      qed
    qed
  qed
qed simp

lemma read_fit:
  assumes "of_source nxt rd" and "good (rd_state rd)"
  obtains rd' where
    "Readdir_Read ctx rd n (rd_offset rd) = Some (w_dirs (fst (fit_entries n (pending pend rd))), None, rd')"
    "of_source nxt rd'" "good (rd_state rd')" "pending pend rd' = snd (fit_entries n (pending pend rd))"
    "rd_offset rd' = rd_offset rd + int (length (w_dirs (fst (fit_entries n (pending pend rd)))))"
proof -
  from loop_fit [OF assms, of "[]" n "n + 1" ctx] obtain rd' err where
    "Readdir_loop (n + 1) ctx n rd [] = Some (rd', w_dirs (fst (fit_entries n (pending pend rd))), err)"
    "err = None \<or> err = Some EOF" "of_source nxt rd'" "good (rd_state rd')" "rd_offset rd' = rd_offset rd"
    "pending pend rd' = snd (fit_entries n (pending pend rd))" by auto
  then show thesis
    by (intro that [of "rd'\<lparr>rd_offset := rd_offset rd' +
          int (length (w_dirs (fst (fit_entries n (pending pend rd)))))\<rparr>"])
      (auto simp: Readdir_Read_def of_source_def pending_def)
qed

lemma read_end:
  assumes "of_source nxt rd" and "good (rd_state rd)" and "length (pending pend rd) < k"
  shows "\<exists>rd'. read_to_end k ctx n rd =
      Some (w_dirs (takeWhile (\<lambda>d. length (w_dir d) \<le> n) (pending pend rd)), None, rd') \<and>
    pending pend rd' = dropWhile (\<lambda>d. length (w_dir d) \<le> n) (pending pend rd)"
  using assms
proof (induction k arbitrary: rd)
  case (Suc k)
  let ?P = "\<lambda>d. length (w_dir d) \<le> n"
  obtain a b where ab: "fit_entries n (pending pend rd) = (a, b)" by fastforce
  obtain rd' where rd': "Readdir_Read ctx rd n (rd_offset rd) = Some (w_dirs a, None, rd')"
    "of_source nxt rd'" "good (rd_state rd')" "pending pend rd' = b"
    by (rule read_fit [OF Suc.prems(1,2), of ctx n]) (use ab in auto)
  have split: "pending pend rd = a @ b" by (rule fit_entries_append [OF ab])
  show ?case
  proof (cases a)
    case Nil
    then have tw: "takeWhile ?P (pending pend rd) = []" using ab fit_entries_empty by metis
    then have "dropWhile ?P (pending pend rd) = pending pend rd"
      by (metis append_Nil takeWhile_dropWhile_id)
    with tw Nil rd' split show ?thesis by simp
  next
    case (Cons d ds)
    then have ne: "w_dirs a \<noteq> []" using w_dir_nonempty [of d] by (auto simp del: length_w w_dir_nonempty)
    have len: "length (pending pend rd') < k" using Suc.prems(3) split Cons rd'(4) by simp
    have all: "\<forall>d\<in>set a. ?P d"
      using fit_entries_length [OF ab] by (rule entries_le)
    then have "takeWhile ?P (pending pend rd) = a @ takeWhile ?P b"
      "dropWhile ?P (pending pend rd) = dropWhile ?P b" unfolding split by simp_all
    with Suc.IH [OF rd'(2,3) len] rd' ne show ?thesis by auto
  qed
qed simp

end

interpretation fixed: dir_source fixed_next "\<lambda>dirs. dirs" "\<lambda>_. True"
  by unfold_locales auto

text \<open>A source of batches: the entries of the batches before the first empty one.\<close>

fun batch_next :: "Context \<Rightarrow> Dir list list \<Rightarrow> (error + Dir list) \<times> Dir list list" where
  "batch_next ctx [] = (Inr [], [])"
| "batch_next ctx (b # bs) = (Inr b, bs)"

fun batch_pend :: "Dir list \<times> bool \<times> Dir list list \<Rightarrow> Dir list" where
  "batch_pend (dirs, done, bs) = (if done then [] else dirs @ concat (takeWhile (\<lambda>b. b \<noteq> []) bs))"

interpretation batches: dir_source "mkNext1 batch_next" batch_pend "\<lambda>_. True"
proof
  fix w :: "Dir list \<times> bool \<times> Dir list list" and ctx
  obtain dirs dn bs where w: "w = (dirs, dn, bs)" by (cases w)
  show "fst (mkNext1 batch_next ctx w) = Inl EOF \<and> batch_pend (snd (mkNext1 batch_next ctx w)) = []"
    if "batch_pend w = []"
    using that by (cases dirs; cases bs; cases "hd bs")
      (auto simp: w mkNext1_def split: if_splits)
  show "fst (mkNext1 batch_next ctx w) = Inr d \<and> batch_pend (snd (mkNext1 batch_next ctx w)) = ds"
    if "batch_pend w = d # ds" for d ds
    using that by (cases dirs; cases bs; cases "hd bs")
      (auto simp: w mkNext1_def split: if_splits)
qed

section \<open>Properties\<close>

text \<open>
  A read of \<open>n\<close> bytes at the current offset of a \<open>Readdir\<close> over fixed entries returns the
  encodings of as many whole entries as fit, without an error, and advances the offset by their
  size; a read at any other offset is refused and changes nothing.
\<close>

theorem readdir_whole_entries:
  assumes "of_source fixed_next rd"
  shows "if offset = rd_offset rd
    then (\<exists>a b rd'. fit_entries n (pending (\<lambda>ds. ds) rd) = (a, b) \<and>
            Readdir_Read ctx rd n offset = Some (w_dirs a, None, rd') \<and> length (w_dirs a) \<le> n \<and>
            pending (\<lambda>ds. ds) rd = a @ b \<and> pending (\<lambda>ds. ds) rd' = b \<and>
            rd_offset rd' = offset + int (length (w_dirs a)) \<and> of_source fixed_next rd')
    else Readdir_Read ctx rd n offset = Some ([], Some ErrBadoffset, rd)"
proof (cases "offset = rd_offset rd")
  case True
  obtain a b where ab: "fit_entries n (pending (\<lambda>ds. ds) rd) = (a, b)" by fastforce
  obtain rd' where "Readdir_Read ctx rd n (rd_offset rd) = Some (w_dirs a, None, rd')"
    "of_source fixed_next rd'" "pending (\<lambda>ds. ds) rd' = b"
    "rd_offset rd' = rd_offset rd + int (length (w_dirs a))"
    by (rule fixed.read_fit [OF assms, of ctx n]) (use ab in auto)
  with True ab fit_entries_append [OF ab] fit_entries_length [OF ab] show ?thesis by auto
next
  case False
  then show ?thesis by (simp add: Readdir_Read_def)
qed

theorem readdir_whole_entries_witness:
  "\<exists>rd'. Readdir_Read None (NewFixedReaddir codec9p [sample_dir, sample_dir]) 100 0 =
           Some (w_dir sample_dir, None, rd') \<and>
         pending (\<lambda>ds. ds) rd' = [sample_dir] \<and> rd_offset rd' = 56"
proof -
  have l: "length (w_dir sample_dir) = 56"
    by (simp add: length_w_dir_body) (simp add: sample_dir_def zero_Dir_def)
  have "of_source fixed_next (NewFixedReaddir codec9p [sample_dir, sample_dir])"
    by (simp add: of_source_def NewFixedReaddir_def NewReaddir1_def)
  from readdir_whole_entries [OF this, of 0 100 None] show ?thesis
    by (auto simp: NewFixedReaddir_def NewReaddir1_def pending_def l simp del: length_w)
qed

text \<open>
  C21: reading a directory that is produced in batches, with a buffer of \<open>n\<close> bytes until a read
  returns nothing, gives the encodings of the entries up to the first one larger than \<open>n\<close>: all
  entries when each fits the buffer.  An entry that does not fit ends the listing without an
  error, as if the directory ended there.
\<close>

theorem readdir_to_end:
  assumes "n_entries = length (concat (takeWhile (\<lambda>b. b \<noteq> []) batches))"
  shows "\<exists>rd'. read_to_end (n_entries + 1) ctx n (NewReaddir codec9p batch_next batches) =
    Some (w_dirs (takeWhile (\<lambda>d. length (w_dir d) \<le> n) (concat (takeWhile (\<lambda>b. b \<noteq> []) batches))),
          None, rd')"
proof -
  let ?rd = "NewReaddir codec9p batch_next batches"
  have "of_source (mkNext1 batch_next) ?rd" by (simp add: of_source_def NewReaddir_def)
  from batches.read_end [OF this, of "n_entries + 1" ctx n] assms show ?thesis
    by (auto simp: pending_def NewReaddir_def)
qed

theorem readdir_to_end_witness:
  "\<exists>rd'. read_to_end 3 None 60 (NewReaddir codec9p batch_next
      [[sample_dir], [sample_dir\<lparr>d_Name := replicate 20 CHR ''x''\<rparr>], [], [sample_dir]]) =
    Some (w_dir sample_dir, None, rd')"
proof -
  let ?b = "[[sample_dir], [sample_dir\<lparr>d_Name := replicate 20 CHR ''x''\<rparr>], [], [sample_dir]]"
  have l: "length (w_dir sample_dir) = 56"
    "length (w_dir (sample_dir\<lparr>d_Name := replicate 20 CHR ''x''\<rparr>)) = 69"
    by (simp_all add: length_w_dir_body) (simp_all add: sample_dir_def zero_Dir_def)
  from readdir_to_end [of 2 ?b None 60] show ?thesis
    by (simp add: l numeral_3_eq_3 del: length_w)
qed

end
