(* ===== verification/P9_SFileSys.thy ===== *)
theory P9_SFileSys
  imports P9_Session P9_Path P9_Readdir
begin

text \<open>
  The session that serves a file system (\<^verbatim>\<open>sfilesys.go\<close>), over the interfaces of
  \<^verbatim>\<open>filesys.go\<close>.  A file system is a record of functions on a world \<open>'w\<close>, with handles
  \<open>'e\<close> for directory entries (\<open>Dirent\<close>) and \<open>'f\<close> for open files; a result that may be nil is an
  option.  Operations run one at a time.  The lock of a reference is a flag; to lock a reference
  that is locked never returns, which is the result \<open>deadlock\<close>.
\<close>

section \<open>The interfaces\<close>

record ('w, 'e, 'f, 'n) FileSys =
  fs_RequireAuth :: "Context \<Rightarrow> 'w \<Rightarrow> bool \<times> 'w"
  fs_Auth :: "Context \<Rightarrow> string \<Rightarrow> string \<Rightarrow> 'w \<Rightarrow> ('f option \<times> error option) \<times> 'w"
  fs_Attach :: "Context \<Rightarrow> string \<Rightarrow> string \<Rightarrow> 'f option \<Rightarrow> 'w \<Rightarrow> ('e option \<times> error option) \<times> 'w"
  de_Qid :: "'e \<Rightarrow> 'w \<Rightarrow> Qid"
  de_OpenDir :: "Context \<Rightarrow> 'e \<Rightarrow> 'w \<Rightarrow> ('n option \<times> error option) \<times> 'w"
  de_Walk :: "Context \<Rightarrow> 'e \<Rightarrow> string list \<Rightarrow> 'w \<Rightarrow> (Qid list \<times> 'e option \<times> error option) \<times> 'w"
  de_Create :: "Context \<Rightarrow> 'e \<Rightarrow> string \<Rightarrow> u32 \<Rightarrow> Flag \<Rightarrow> 'w \<Rightarrow> ('e option \<times> 'f option \<times> error option) \<times> 'w"
  de_Open :: "Context \<Rightarrow> 'e \<Rightarrow> Flag \<Rightarrow> 'w \<Rightarrow> ('f option \<times> error option) \<times> 'w"
  de_Remove :: "Context \<Rightarrow> 'e \<Rightarrow> 'w \<Rightarrow> error option \<times> 'w"
  de_Clunk :: "Context \<Rightarrow> 'e \<Rightarrow> 'w \<Rightarrow> error option \<times> 'w"
  de_Stat :: "Context \<Rightarrow> 'e \<Rightarrow> 'w \<Rightarrow> (error + Dir) \<times> 'w"
  de_WStat :: "Context \<Rightarrow> 'e \<Rightarrow> Dir \<Rightarrow> 'w \<Rightarrow> error option \<times> 'w"
  fi_Read :: "Context \<Rightarrow> 'f \<Rightarrow> nat \<Rightarrow> int \<Rightarrow> 'w \<Rightarrow> (byte list \<times> error option) \<times> 'w"
  fi_Write :: "Context \<Rightarrow> 'f \<Rightarrow> byte list \<Rightarrow> int \<Rightarrow> 'w \<Rightarrow> (int \<times> error option) \<times> 'w"
  fi_IOUnit :: "'f \<Rightarrow> 'w \<Rightarrow> int"
  fi_isAuthFile :: "'f \<Rightarrow> bool"
  af_Success :: "'f \<Rightarrow> 'w \<Rightarrow> bool"
  rn_Next :: "'n \<Rightarrow> Context \<Rightarrow> 'w \<Rightarrow> (error + Dir list) \<times> 'w"

definition IsDir :: "('w, 'e, 'f, 'n) FileSys \<Rightarrow> 'e \<Rightarrow> 'w \<Rightarrow> bool" where
  "IsDir fs d w \<longleftrightarrow> q_Type (de_Qid fs d w) AND QTDIR \<noteq> 0"

section \<open>References\<close>

text \<open>
  An open file is one of the file system or the session's own reader of a directory.  The reader's
  state has a copy of the world, which is replaced by the present world at each read.
\<close>

datatype ('w, 'f) sfile = FsFile 'f | DirFile "(Dir list \<times> bool \<times> 'w) Readdir"

record ('w, 'e, 'f) SFid =
  sf_locked :: bool
  sf_Ent :: "'e option"
  sf_File :: "('w, 'f) sfile option"
  sf_Mode :: Flag

record ('w, 'e, 'f) session =
  se_refs :: "Fid \<Rightarrow> ('w, 'e, 'f) SFid option"
  se_world :: 'w

text \<open>The result of an operation that waits for a lock that is never released.\<close>

definition deadlock :: error where
  "deadlock = Panic ''deadlock''"

definition nil_deref :: error where
  "nil_deref = Panic ''nil pointer dereference''"

definition set_ref :: "Fid \<Rightarrow> ('w, 'e, 'f) SFid \<Rightarrow> ('w, 'e, 'f) session \<Rightarrow> ('w, 'e, 'f) session" where
  "set_ref fid ref s = s\<lparr>se_refs := (se_refs s)(fid := Some ref)\<rparr>"

definition del_ref :: "Fid \<Rightarrow> ('w, 'e, 'f) session \<Rightarrow> ('w, 'e, 'f) session" where
  "del_ref fid s = s\<lparr>se_refs := (se_refs s)(fid := None)\<rparr>"

text \<open>\<^verbatim>\<open>ref.Unlock()\<close>, where the reference is still in the table.\<close>

definition unlock :: "Fid \<Rightarrow> ('w, 'e, 'f) session \<Rightarrow> ('w, 'e, 'f) session" where
  "unlock fid s = s\<lparr>se_refs := (se_refs s)(fid := map_option (\<lambda>ref. ref\<lparr>sf_locked := False\<rparr>) (se_refs s fid))\<rparr>"

fun EnsureNonNil :: "'x option \<Rightarrow> error option \<Rightarrow> error option" where
  "EnsureNonNil x (Some err) = Some err"
| "EnsureNonNil None None = Some (Rerr ''invalid result'')"
| "EnsureNonNil (Some _) None = None"

fun combine_errors :: "error option \<Rightarrow> error option \<Rightarrow> error option" where
  "combine_errors None err2 = err2"
| "combine_errors (Some err) None = Some err"
| "combine_errors (Some err) (Some err2) = Some (Rerr (error_text err @ ''/'' @ error_text err2))"

text \<open>\<open>getRef\<close> gives the reference, which it leaves locked in the table.\<close>

definition getRef :: "Fid \<Rightarrow> ('w, 'e, 'f) session \<Rightarrow> (error + ('w, 'e, 'f) SFid) \<times> ('w, 'e, 'f) session" where
  "getRef fid s =
     (if fid = NOFID then (Inl ErrUnknownfid, s)
      else
        (case se_refs s fid of
           None \<Rightarrow> (Inl ErrUnknownfid, s)
         | Some ref \<Rightarrow>
             if sf_locked ref then (Inl deadlock, s)
             else if sf_Ent ref = None then (Inl ErrUnknownfid, s)
             else (let ref' = ref\<lparr>sf_locked := True\<rparr> in (Inr ref', set_ref fid ref' s))))"

definition newRef :: "Fid \<Rightarrow> ('w, 'e, 'f) session \<Rightarrow> (error + ('w, 'e, 'f) SFid) \<times> ('w, 'e, 'f) session" where
  "newRef fid s =
     (if fid = NOFID then (Inl ErrUnknownfid, s)
      else
        (let ref = \<lparr>sf_locked = True, sf_Ent = None, sf_File = None, sf_Mode = 0\<rparr> in
         case se_refs s fid of
           Some _ \<Rightarrow> (Inl ErrDupfid, s)
         | None \<Rightarrow> (Inr ref, set_ref fid ref s)))"

definition delRefAction :: "('w, 'e, 'f, 'n) FileSys \<Rightarrow> Context \<Rightarrow> 'e \<Rightarrow> bool \<Rightarrow> 'w \<Rightarrow> error option \<times> 'w" where
  "delRefAction fs ctx ent remove w =
     (case (if remove then de_Remove fs ctx ent w else de_Clunk fs ctx ent w) of
        (err2, w') \<Rightarrow> (combine_errors None err2, w'))"

text \<open>The reference is taken out of the table before it is locked.\<close>

definition delRef :: "('w, 'e, 'f, 'n) FileSys \<Rightarrow> Context \<Rightarrow> Fid \<Rightarrow> bool \<Rightarrow>
    ('w, 'e, 'f) session \<Rightarrow> error option \<times> ('w, 'e, 'f) session" where
  "delRef fs ctx fid remove s =
     (case se_refs s fid of
        None \<Rightarrow> (Some ErrUnknownfid, s)
      | Some ref \<Rightarrow>
          (let s1 = del_ref fid s in
           if sf_locked ref then (Some deadlock, s1)
           else
             (case sf_Ent ref of
                None \<Rightarrow> (None, s1)
              | Some ent \<Rightarrow>
                  (case delRefAction fs ctx ent remove (se_world s1) of
                     (err, w) \<Rightarrow> (err, s1\<lparr>se_world := w\<rparr>)))))"

section \<open>Operations\<close>

definition sess_Auth :: "('w, 'e, 'f, 'n) FileSys \<Rightarrow> Context \<Rightarrow> Fid \<Rightarrow> string \<Rightarrow> string \<Rightarrow>
    ('w, 'e, 'f) session \<Rightarrow> (error + Qid) \<times> ('w, 'e, 'f) session" where
  "sess_Auth fs ctx afid uname aname s =
     (let aq = \<lparr>q_Type = QTAUTH, q_Version = 0, q_Path = 0\<rparr> in
      if afid = NOFID then (Inr aq, s)
      else
        (case fs_RequireAuth fs ctx (se_world s) of
           (req, w) \<Rightarrow>
             (let s0 = s\<lparr>se_world := w\<rparr> in
              if \<not> req then (Inl (Rerr ''no auth''), s0)
              else
                (case newRef afid s0 of
                   (Inl err, s1) \<Rightarrow> (Inl err, s1)
                 | (Inr aref, s1) \<Rightarrow>
                     (case fs_Auth fs ctx uname aname (se_world s1) of
                        ((_, Some err), w1) \<Rightarrow> (Inl err, del_ref afid (s1\<lparr>se_world := w1\<rparr>))
                      | ((afile, None), w1) \<Rightarrow>
                          (Inr aq, unlock afid (set_ref afid
                             (aref\<lparr>sf_File := map_option FsFile afile\<rparr>) (s1\<lparr>se_world := w1\<rparr>))))))))"

text \<open>The first part of \<open>Attach\<close> looks up the authentication file.\<close>

definition attach_auth :: "('w, 'e, 'f, 'n) FileSys \<Rightarrow> Fid \<Rightarrow>
    ('w, 'e, 'f) session \<Rightarrow> (error + 'f option) \<times> ('w, 'e, 'f) session" where
  "attach_auth fs afid s =
     (if afid = NOFID then (Inr None, s)
      else
        (case getRef afid s of
           (Inl err, s1) \<Rightarrow> (Inl (if err = deadlock then deadlock else ErrUnknownfid), s1)
         | (Inr aref, s1) \<Rightarrow>
             (case sf_File aref of
                None \<Rightarrow> (Inl ErrUnknownfid, s1)
              | Some (DirFile _) \<Rightarrow> (Inl ErrUnknownfid, unlock afid s1)
              | Some (FsFile f) \<Rightarrow>
                  if \<not> fi_isAuthFile fs f then (Inl ErrUnknownfid, unlock afid s1)
                  else if \<not> af_Success fs f (se_world s1) then (Inl ErrPerm, unlock afid s1)
                  else (Inr (Some f), s1))))"

definition sess_Attach :: "('w, 'e, 'f, 'n) FileSys \<Rightarrow> Context \<Rightarrow> Fid \<Rightarrow> Fid \<Rightarrow> string \<Rightarrow> string \<Rightarrow>
    ('w, 'e, 'f) session \<Rightarrow> (error + Qid) \<times> ('w, 'e, 'f) session" where
  "sess_Attach fs ctx fid afid uname aname s =
     (case attach_auth fs afid s of
        (Inl err, s1) \<Rightarrow> (Inl err, s1)
      | (Inr af, s1) \<Rightarrow>
          (let release = (\<lambda>s. if afid = NOFID then s else unlock afid s) in
           case newRef fid s1 of
             (Inl err, s2) \<Rightarrow> (Inl err, release s2)
           | (Inr ref, s2) \<Rightarrow>
               (case fs_Attach fs ctx uname aname af (se_world s2) of
                  ((_, Some err), w) \<Rightarrow> (Inl err, release (del_ref fid (s2\<lparr>se_world := w\<rparr>)))
                | ((None, None), w) \<Rightarrow> (Inl nil_deref, s2\<lparr>se_world := w\<rparr>)
                | ((Some ent, None), w) \<Rightarrow>
                    (Inr (de_Qid fs ent w),
                     release (unlock fid (set_ref fid (ref\<lparr>sf_Ent := Some ent\<rparr>) (s2\<lparr>se_world := w\<rparr>)))))))"

definition sess_Clunk :: "('w, 'e, 'f, 'n) FileSys \<Rightarrow> Context \<Rightarrow> Fid \<Rightarrow>
    ('w, 'e, 'f) session \<Rightarrow> error option \<times> ('w, 'e, 'f) session" where
  "sess_Clunk fs ctx fid s = delRef fs ctx fid False s"

definition sess_Remove :: "('w, 'e, 'f, 'n) FileSys \<Rightarrow> Context \<Rightarrow> Fid \<Rightarrow>
    ('w, 'e, 'f) session \<Rightarrow> error option \<times> ('w, 'e, 'f) session" where
  "sess_Remove fs ctx fid s = delRef fs ctx fid True s"

text \<open>
  What is common to the early returns of \<open>Walk\<close>: the deferred function releases \<open>fid\<close> and
  gives up \<open>newfid\<close>.
\<close>

definition walk_cleanup :: "Fid \<Rightarrow> Fid \<Rightarrow> ('w, 'e, 'f) session \<Rightarrow> ('w, 'e, 'f) session" where
  "walk_cleanup fid newfid s = (let s1 = unlock fid s in if newfid \<noteq> fid then del_ref newfid s1 else s1)"

text \<open>The rest of \<open>Walk\<close>, when the file system has reached \<open>ent\<close> with all elements.\<close>

definition walk_done :: "('w, 'e, 'f, 'n) FileSys \<Rightarrow> Context \<Rightarrow> Fid \<Rightarrow> Fid \<Rightarrow> ('w, 'e, 'f) SFid \<Rightarrow>
    ('w, 'e, 'f) SFid option \<Rightarrow> 'e \<Rightarrow> ('w, 'e, 'f) session \<Rightarrow> ('w, 'e, 'f) session" where
  "walk_done fs ctx fid newfid ref newref ent s =
     (case newref of
        None \<Rightarrow>
          (case de_Clunk fs ctx (the (sf_Ent ref)) (se_world s) of
             (_, w) \<Rightarrow> unlock fid (set_ref fid (ref\<lparr>sf_Ent := Some ent\<rparr>) (s\<lparr>se_world := w\<rparr>)))
      | Some nref \<Rightarrow> unlock newfid (set_ref newfid (nref\<lparr>sf_Ent := Some ent\<rparr>) (unlock fid s)))"

definition sess_Walk :: "('w, 'e, 'f, 'n) FileSys \<Rightarrow> Context \<Rightarrow> Fid \<Rightarrow> Fid \<Rightarrow> string list \<Rightarrow>
    ('w, 'e, 'f) session \<Rightarrow> (error + Qid list) \<times> ('w, 'e, 'f) session" where
  "sess_Walk fs ctx fid newfid names s =
     (if ValidPath names < 0 then (Inl (Rerr ''Non-normalized path''), s)
      else
        (case getRef fid s of
           (Inl err, s1) \<Rightarrow> (Inl err, s1)
         | (Inr ref, s1) \<Rightarrow>
             (case (if newfid \<noteq> fid then (case newRef newfid s1 of (r, s2) \<Rightarrow> (map_sum id Some r, s2))
                    else (Inr None, s1)) of
                (Inl err, s2) \<Rightarrow> (Inl err, unlock fid s2)
              | (Inr newref, s2) \<Rightarrow>
                  if names = [] \<and> newfid = fid then (Inr [], unlock fid s2)
                  else if names \<noteq> [] \<and> \<not> IsDir fs (the (sf_Ent ref)) (se_world s2)
                  then (Inl (Rerr ''not a directory''), walk_cleanup fid newfid s2)
                  else
                    (case de_Walk fs ctx (the (sf_Ent ref)) names (se_world s2) of
                       ((qids0, ent, err), w) \<Rightarrow>
                         (let s3 = s2\<lparr>se_world := w\<rparr>; qids = (if names = [] then [] else qids0) in
                          case EnsureNonNil ent err of
                            Some err \<Rightarrow> (Inl err, walk_cleanup fid newfid s3)
                          | None \<Rightarrow>
                              if names \<noteq> [] \<and> qids = [] then (Inr [], walk_cleanup fid newfid s3)
                              else if length qids \<noteq> length names then (Inr qids, walk_cleanup fid newfid s3)
                              else (Inr qids, walk_done fs ctx fid newfid ref newref (the ent) s3))))))"

text \<open>Reading an open file; a directory is read through its \<open>Readdir\<close>.\<close>

definition file_Read :: "('w, 'e, 'f, 'n) FileSys \<Rightarrow> Context \<Rightarrow> ('w, 'f) sfile \<Rightarrow> nat \<Rightarrow> int \<Rightarrow> 'w \<Rightarrow>
    (byte list \<times> error option) \<times> ('w, 'f) sfile \<times> 'w" where
  "file_Read fs ctx file n offset w =
     (case file of
        FsFile f \<Rightarrow> (case fi_Read fs ctx f n offset w of (r, w') \<Rightarrow> (r, file, w'))
      | DirFile rd \<Rightarrow>
          (case rd_state rd of (dirs, done, _) \<Rightarrow>
             (case Readdir_Read ctx (rd\<lparr>rd_state := (dirs, done, w)\<rparr>) n offset of
                None \<Rightarrow> (([], Some deadlock), file, w)
              | Some (p, err, rd') \<Rightarrow> ((p, err), DirFile rd', snd (snd (rd_state rd'))))))"

definition sess_Read :: "('w, 'e, 'f, 'n) FileSys \<Rightarrow> Context \<Rightarrow> Fid \<Rightarrow> nat \<Rightarrow> int \<Rightarrow>
    ('w, 'e, 'f) session \<Rightarrow> (byte list \<times> error option) \<times> ('w, 'e, 'f) session" where
  "sess_Read fs ctx fid n offset s =
     (case getRef fid s of
        (Inl err, s1) \<Rightarrow> (([], Some err), s1)
      | (Inr ref, s1) \<Rightarrow>
          (case sf_File ref of
             None \<Rightarrow> (([], Some (Rerr ''no file open'')), unlock fid s1)
           | Some file \<Rightarrow>
               if sf_Mode ref AND OEXEC = OWRITE then (([], Some ErrNoread), unlock fid s1)
               else
                 (case file_Read fs ctx file n offset (se_world s1) of
                    (r, file', w) \<Rightarrow>
                      (r, unlock fid (set_ref fid (ref\<lparr>sf_File := Some file'\<rparr>) (s1\<lparr>se_world := w\<rparr>))))))"

definition file_Write :: "('w, 'e, 'f, 'n) FileSys \<Rightarrow> Context \<Rightarrow> ('w, 'f) sfile \<Rightarrow> byte list \<Rightarrow> int \<Rightarrow> 'w \<Rightarrow>
    (int \<times> error option) \<times> 'w" where
  "file_Write fs ctx file p offset w =
     (case file of
        FsFile f \<Rightarrow> fi_Write fs ctx f p offset w
      | DirFile rd \<Rightarrow>
          ((case Readdir_Write rd p offset of Inl err \<Rightarrow> (0, Some err) | Inr n \<Rightarrow> (n, None)), w))"

definition sess_Write :: "('w, 'e, 'f, 'n) FileSys \<Rightarrow> Context \<Rightarrow> Fid \<Rightarrow> byte list \<Rightarrow> int \<Rightarrow>
    ('w, 'e, 'f) session \<Rightarrow> (int \<times> error option) \<times> ('w, 'e, 'f) session" where
  "sess_Write fs ctx fid p offset s =
     (case getRef fid s of
        (Inl err, s1) \<Rightarrow> ((0, Some err), s1)
      | (Inr ref, s1) \<Rightarrow>
          (case sf_File ref of
             None \<Rightarrow> ((0, Some (Rerr ''no file open'')), unlock fid s1)
           | Some file \<Rightarrow>
               if sf_Mode ref AND OEXEC \<noteq> OWRITE \<and> sf_Mode ref AND OEXEC \<noteq> ORDWR
               then ((0, Some ErrNowrite), unlock fid s1)
               else
                 (case file_Write fs ctx file p offset (se_world s1) of
                    (r, w) \<Rightarrow> (r, unlock fid (s1\<lparr>se_world := w\<rparr>)))))"

definition file_IOUnit :: "('w, 'e, 'f, 'n) FileSys \<Rightarrow> ('w, 'f) sfile \<Rightarrow> 'w \<Rightarrow> int" where
  "file_IOUnit fs file w = (case file of FsFile f \<Rightarrow> fi_IOUnit fs f w | DirFile _ \<Rightarrow> 0)"

text \<open>
  \<open>openLocked\<close> gives the opened reference.  \<open>EnsureNonNil\<close> does not notice a nil \<open>ReadNext\<close>,
  which is a function in an interface; calling it panics later.
\<close>

definition openLocked :: "('w, 'e, 'f, 'n) FileSys \<Rightarrow> Context \<Rightarrow> ('w, 'e, 'f) SFid \<Rightarrow> Flag \<Rightarrow> 'w \<Rightarrow>
    (error + ('w, 'e, 'f) SFid) \<times> 'w" where
  "openLocked fs ctx ref mode w =
     (if sf_File ref \<noteq> None then (Inl (Rerr ''already open''), w)
      else if IsDir fs (the (sf_Ent ref)) w then
        (case de_OpenDir fs ctx (the (sf_Ent ref)) w of
           ((_, Some err), w') \<Rightarrow> (Inl err, w')
         | ((dirs, None), w') \<Rightarrow>
             (let nxt = (case dirs of Some n \<Rightarrow> rn_Next fs n | None \<Rightarrow> (\<lambda>_ w. (Inl nil_deref, w))) in
              (Inr (ref\<lparr>sf_File := Some (DirFile (NewReaddir codec9p nxt w')), sf_Mode := mode\<rparr>), w')))
      else
        (case de_Open fs ctx (the (sf_Ent ref)) mode w of
           ((file, err), w') \<Rightarrow>
             (case EnsureNonNil file err of
                Some err \<Rightarrow> (Inl err, w')
              | None \<Rightarrow> (Inr (ref\<lparr>sf_File := map_option FsFile file, sf_Mode := mode\<rparr>), w'))))"

definition sess_Open :: "('w, 'e, 'f, 'n) FileSys \<Rightarrow> Context \<Rightarrow> Fid \<Rightarrow> Flag \<Rightarrow>
    ('w, 'e, 'f) session \<Rightarrow> (error + Qid \<times> u32) \<times> ('w, 'e, 'f) session" where
  "sess_Open fs ctx fid mode s =
     (case getRef fid s of
        (Inl err, s1) \<Rightarrow> (Inl err, s1)
      | (Inr ref, s1) \<Rightarrow>
          (case openLocked fs ctx ref mode (se_world s1) of
             (Inl err, w) \<Rightarrow> (Inl err, unlock fid (s1\<lparr>se_world := w\<rparr>))
           | (Inr ref', w) \<Rightarrow>
               (Inr (de_Qid fs (the (sf_Ent ref')) w, word_of_int (file_IOUnit fs (the (sf_File ref')) w)),
                unlock fid (set_ref fid ref' (s1\<lparr>se_world := w\<rparr>)))))"

text \<open>The errors of \<open>Create\<close> are made from the text of the error they report.\<close>

definition create_fail :: "error \<Rightarrow> error" where
  "create_fail err = (if err = deadlock then deadlock else Rerr (error_text err))"

text \<open>
  The tail of \<open>Create\<close>, when the reference is to become \<open>ent\<close>, opened as \<open>file\<close>.
\<close>

definition create_done :: "('w, 'e, 'f, 'n) FileSys \<Rightarrow> Fid \<Rightarrow> Flag \<Rightarrow> ('w, 'e, 'f) SFid \<Rightarrow> 'e \<Rightarrow> ('w, 'f) sfile \<Rightarrow>
    ('w, 'e, 'f) session \<Rightarrow> (error + Qid \<times> u32) \<times> ('w, 'e, 'f) session" where
  "create_done fs parent mode ref ent file s =
     (Inr (de_Qid fs ent (se_world s), word_of_int (file_IOUnit fs file (se_world s))),
      unlock parent (set_ref parent (ref\<lparr>sf_Ent := Some ent, sf_File := Some file, sf_Mode := mode\<rparr>) s))"

definition sess_Create :: "('w, 'e, 'f, 'n) FileSys \<Rightarrow> Context \<Rightarrow> Fid \<Rightarrow> string \<Rightarrow> u32 \<Rightarrow> Flag \<Rightarrow>
    ('w, 'e, 'f) session \<Rightarrow> (error + Qid \<times> u32) \<times> ('w, 'e, 'f) session" where
  "sess_Create fs ctx parent name perm mode s =
     (if name = ''.'' \<or> name = ''..'' then (Inl (Rerr ''illegal filename''), s)
      else
        (case getRef parent s of
           (Inl err, s1) \<Rightarrow> (Inl (create_fail err), s1)
         | (Inr ref, s1) \<Rightarrow>
             if \<not> IsDir fs (the (sf_Ent ref)) (se_world s1)
             then (Inl (Rerr ''create in non-directory''), unlock parent s1)
             else
               (case de_Create fs ctx (the (sf_Ent ref)) name perm mode (se_world s1) of
                  ((ent, file, err), w) \<Rightarrow>
                    (let s2 = s1\<lparr>se_world := w\<rparr> in
                     case EnsureNonNil file (EnsureNonNil ent err) of
                       Some err \<Rightarrow> (Inl (create_fail err), unlock parent s2)
                     | None \<Rightarrow>
                         if IsDir fs (the ent) w then
                           (case openLocked fs ctx
                                   \<lparr>sf_locked = False, sf_Ent = ent, sf_File = None, sf_Mode = 0\<rparr> mode w of
                              (Inl err, w') \<Rightarrow>
                                (case delRef fs ctx parent False (s2\<lparr>se_world := w'\<rparr>) of
                                   (Some err', s3) \<Rightarrow>
                                     (Inl (if err' = deadlock then deadlock else create_fail err), s3)
                                 | (None, s3) \<Rightarrow> (Inl (create_fail err), s3))
                            | (Inr nref, w') \<Rightarrow>
                                create_done fs parent mode ref (the ent) (the (sf_File nref)) (s2\<lparr>se_world := w'\<rparr>))
                         else create_done fs parent mode ref (the ent) (FsFile (the file)) s2))))"

definition sess_Stat :: "('w, 'e, 'f, 'n) FileSys \<Rightarrow> Context \<Rightarrow> Fid \<Rightarrow>
    ('w, 'e, 'f) session \<Rightarrow> (error + Dir) \<times> ('w, 'e, 'f) session" where
  "sess_Stat fs ctx fid s =
     (case getRef fid s of
        (Inl err, s1) \<Rightarrow> (Inl err, s1)
      | (Inr ref, s1) \<Rightarrow>
          (case de_Stat fs ctx (the (sf_Ent ref)) (se_world s1) of
             (r, w) \<Rightarrow> (r, unlock fid (s1\<lparr>se_world := w\<rparr>))))"

definition sess_WStat :: "('w, 'e, 'f, 'n) FileSys \<Rightarrow> Context \<Rightarrow> Fid \<Rightarrow> Dir \<Rightarrow>
    ('w, 'e, 'f) session \<Rightarrow> error option \<times> ('w, 'e, 'f) session" where
  "sess_WStat fs ctx fid dir s =
     (case getRef fid s of
        (Inl err, s1) \<Rightarrow> (Some err, s1)
      | (Inr ref, s1) \<Rightarrow>
          (case de_WStat fs ctx (the (sf_Ent ref)) dir (se_world s1) of
             (r, w) \<Rightarrow> (r, unlock fid (s1\<lparr>se_world := w\<rparr>))))"

definition sess_Version :: "('w, 'e, 'f) session \<Rightarrow> (int \<times> string) \<times> ('w, 'e, 'f) session" where
  "sess_Version s = ((DefaultMSize, DefaultVersion), s)"

text \<open>\<open>Stop\<close> visits the references in the order \<open>fids\<close> in which the table gives them.\<close>

definition CancelledCtxt :: Context where
  "CancelledCtxt = Some (CtxErr ''context canceled'')"

fun sess_Stop :: "('w, 'e, 'f, 'n) FileSys \<Rightarrow> Fid list \<Rightarrow> error option \<Rightarrow>
    ('w, 'e, 'f) session \<Rightarrow> error option \<times> ('w, 'e, 'f) session" where
  "sess_Stop fs [] err s = (err, s)"
| "sess_Stop fs (fid # fids) err s =
     (case se_refs s fid of
        Some ref \<Rightarrow>
          (case sf_Ent ref of
             Some ent \<Rightarrow>
               (case delRefAction fs CancelledCtxt ent False (se_world s) of
                  (_, w) \<Rightarrow> sess_Stop fs fids err (set_ref fid (ref\<lparr>sf_Ent := None\<rparr>) (s\<lparr>se_world := w\<rparr>)))
           | None \<Rightarrow> sess_Stop fs fids err s)
      | None \<Rightarrow> sess_Stop fs fids err s)"

declare sess_Read_def [ref_ops] sess_Write_def [ref_ops] sess_Open_def [ref_ops] sess_Stat_def [ref_ops] sess_WStat_def [ref_ops]

text \<open>\<open>SFileSys\<close>: the session over a file system, and its initial state.\<close>

definition SFileSys :: "('w, 'e, 'f, 'n) FileSys \<Rightarrow> Fid list \<Rightarrow> ('w, 'e, 'f) session Session" where
  "SFileSys fs fids =
     \<lparr>ss_Auth = sess_Auth fs, ss_Attach = sess_Attach fs, ss_Clunk = sess_Clunk fs,
      ss_Remove = sess_Remove fs, ss_Walk = sess_Walk fs, ss_Read = sess_Read fs,
      ss_Write = sess_Write fs, ss_Open = sess_Open fs, ss_Create = sess_Create fs,
      ss_Stat = sess_Stat fs, ss_WStat = sess_WStat fs, ss_Version = sess_Version,
      ss_Stop = sess_Stop fs fids\<rparr>"

definition new_session :: "'w \<Rightarrow> ('w, 'e, 'f) session" where
  "new_session w = \<lparr>se_refs = (\<lambda>_. None), se_world = w\<rparr>"

section \<open>The table of references\<close>

lemma refs_simps [simp]:
  "se_refs (set_ref fid ref s) = (se_refs s)(fid := Some ref)"
  "se_refs (del_ref fid s) = (se_refs s)(fid := None)"
  "se_refs (unlock fid s) = (se_refs s)(fid := map_option (\<lambda>ref. ref\<lparr>sf_locked := False\<rparr>) (se_refs s fid))"
  "se_world (set_ref fid ref s) = se_world s"
  "se_world (del_ref fid s) = se_world s"
  "se_world (unlock fid s) = se_world s"
  by (simp_all add: set_ref_def del_ref_def unlock_def)

text \<open>No operation is in progress: no reference is locked, and \<open>NOFID\<close> has none.\<close>

definition quiet :: "('w, 'e, 'f) session \<Rightarrow> bool" where
  "quiet s \<longleftrightarrow> se_refs s NOFID = None \<and> (\<forall>fid ref. se_refs s fid = Some ref \<longrightarrow> \<not> sf_locked ref)"

definition fids :: "('w, 'e, 'f) session \<Rightarrow> Fid set" where
  "fids s = {fid. se_refs s fid \<noteq> None}"

lemma quietI_upd:
  assumes "quiet s" and "se_refs s' = (se_refs s)(fid := r)" and "fid \<noteq> NOFID"
    and "\<forall>ref. r = Some ref \<longrightarrow> \<not> sf_locked ref"
  shows "quiet s'"
  using assms by (auto simp: quiet_def)

lemma fids_upd: "se_refs s' = (se_refs s)(fid := r) \<Longrightarrow>
    fids s' = (if r = None then fids s - {fid} else insert fid (fids s))"
  by (auto simp: fids_def)

lemma getRef_cases:
  assumes "quiet s"
  obtains (unknown) "getRef fid s = (Inl ErrUnknownfid, s)"
      "fid = NOFID \<or> se_refs s fid = None \<or> (\<exists>ref. se_refs s fid = Some ref \<and> sf_Ent ref = None)"
  | (known) ref ent where "fid \<noteq> NOFID" "se_refs s fid = Some ref" "\<not> sf_locked ref" "sf_Ent ref = Some ent"
      "getRef fid s = (Inr (ref\<lparr>sf_locked := True\<rparr>), set_ref fid (ref\<lparr>sf_locked := True\<rparr>) s)"
proof (cases "fid = NOFID")
  case True
  then show ?thesis using unknown by (simp add: getRef_def)
next
  case False
  show ?thesis
  proof (cases "se_refs s fid")
    case None
    then show ?thesis using unknown False by (simp add: getRef_def)
  next
    case (Some ref)
    then have l: "\<not> sf_locked ref" using assms by (simp add: quiet_def)
    show ?thesis
    proof (cases "sf_Ent ref")
      case None
      then show ?thesis using unknown False Some l by (simp add: getRef_def)
    next
      case ent: (Some ent)
      show ?thesis by (rule known [OF False Some l ent]) (use False Some l ent in \<open>simp add: getRef_def Let_def\<close>)
    qed
  qed
qed

lemma newRef_cases:
  obtains (nofid) "fid = NOFID" "newRef fid s = (Inl ErrUnknownfid, s)"
  | (dup) ref where "fid \<noteq> NOFID" "se_refs s fid = Some ref" "newRef fid s = (Inl ErrDupfid, s)"
  | (new) "fid \<noteq> NOFID" "se_refs s fid = None"
      "newRef fid s = (Inr \<lparr>sf_locked = True, sf_Ent = None, sf_File = None, sf_Mode = 0\<rparr>,
         set_ref fid \<lparr>sf_locked = True, sf_Ent = None, sf_File = None, sf_Mode = 0\<rparr> s)"
proof (cases "fid = NOFID")
  case True
  then show ?thesis using nofid by (simp add: newRef_def)
next
  case False
  then show ?thesis using dup new by (cases "se_refs s fid") (simp_all add: newRef_def Let_def)
qed

text \<open>
  The table after an operation on one reference: it is as before, up to the reference at \<open>fid\<close>,
  which is unlocked.
\<close>

definition same_table :: "Fid \<Rightarrow> ('w, 'e, 'f) session \<Rightarrow> ('w, 'e, 'f) session \<Rightarrow> bool" where
  "same_table fid s s' \<longleftrightarrow>
     (\<forall>g. g \<noteq> fid \<longrightarrow> se_refs s' g = se_refs s g) \<and>
     (case se_refs s fid of
        None \<Rightarrow> se_refs s' fid = None
      | Some _ \<Rightarrow> \<exists>ref'. se_refs s' fid = Some ref' \<and> \<not> sf_locked ref')"

lemma same_table_refl: "quiet s \<Longrightarrow> same_table fid s s"
  by (auto simp: same_table_def quiet_def split: option.splits)

lemma same_table_upd:
  assumes "se_refs s fid = Some ref" and "se_refs s' = (se_refs s)(fid := Some ref')" and "\<not> sf_locked ref'"
  shows "same_table fid s s'"
  using assms by (simp add: same_table_def)

lemma same_table_quiet:
  assumes "same_table fid s s'" and "quiet s"
  shows "quiet s'" and "fids s' = fids s"
proof -
  show "quiet s'"
    unfolding quiet_def
  proof (intro conjI allI impI)
    show "se_refs s' NOFID = None"
      using assms by (cases "fid = NOFID") (auto simp: same_table_def quiet_def split: option.splits)
    fix g ref
    assume "se_refs s' g = Some ref"
    then show "\<not> sf_locked ref"
      using assms by (cases "g = fid") (auto simp: same_table_def quiet_def split: option.splits)
  qed
  have "(se_refs s' g \<noteq> None) = (se_refs s g \<noteq> None)" for g
    using assms(1) by (cases "g = fid") (auto simp: same_table_def split: option.splits)
  then show "fids s' = fids s" by (simp add: fids_def)
qed

lemma Read_table:
  assumes "quiet s"
  shows "same_table fid s (snd (sess_Read fs ctx fid n offset s))"
  using assms
proof (cases rule: getRef_cases [of s fid])
  case unknown
  then show ?thesis using same_table_refl [OF assms] by (simp add: sess_Read_def)
next
  case (known ref ent)
  then show ?thesis
    by (auto simp: sess_Read_def split: option.split prod.split intro!: same_table_upd)
qed

lemma Write_table:
  assumes "quiet s"
  shows "same_table fid s (snd (sess_Write fs ctx fid p offset s))"
  using assms
proof (cases rule: getRef_cases [of s fid])
  case unknown
  then show ?thesis using same_table_refl [OF assms] by (simp add: sess_Write_def)
next
  case (known ref ent)
  then show ?thesis
    by (auto simp: sess_Write_def split: option.split prod.split intro!: same_table_upd)
qed

lemma Stat_table:
  assumes "quiet s"
  shows "same_table fid s (snd (sess_Stat fs ctx fid s))"
    and "same_table fid s (snd (sess_WStat fs ctx fid dir s))"
proof -
  show "same_table fid s (snd (sess_Stat fs ctx fid s))"
    using assms
  proof (cases rule: getRef_cases [of s fid])
    case unknown
    then show ?thesis using same_table_refl [OF assms] by (simp add: sess_Stat_def)
  next
    case (known ref ent)
    then show ?thesis by (auto simp: sess_Stat_def split: prod.split intro!: same_table_upd)
  qed
  show "same_table fid s (snd (sess_WStat fs ctx fid dir s))"
    using assms
  proof (cases rule: getRef_cases [of s fid])
    case unknown
    then show ?thesis using same_table_refl [OF assms] by (simp add: sess_WStat_def)
  next
    case (known ref ent)
    then show ?thesis by (auto simp: sess_WStat_def split: prod.split intro!: same_table_upd)
  qed
qed

lemma Open_table:
  assumes "quiet s"
  shows "same_table fid s (snd (sess_Open fs ctx fid mode s))"
  using assms
proof (cases rule: getRef_cases [of s fid])
  case unknown
  then show ?thesis using same_table_refl [OF assms] by (simp add: sess_Open_def)
next
  case (known ref ent)
  then show ?thesis
    by (auto simp: sess_Open_def split: prod.split sum.split intro!: same_table_upd)
qed

lemma Create_table:
  assumes "quiet s" and "sess_Create fs ctx parent name perm mode s = (r, s')" and "r \<noteq> Inl deadlock"
  shows "same_table parent s s'"
  using assms(1)
proof (cases rule: getRef_cases [of s parent])
  case unknown
  then show ?thesis using assms same_table_refl [OF assms(1)]
    by (auto simp: sess_Create_def split: if_splits)
next
  case (known ref ent)
  obtain oe ofile oerr w where c: "de_Create fs ctx ent name perm mode (se_world s) = ((oe, ofile, oerr), w)"
    by (metis surj_pair)
  have d: "delRef fs ctx parent False (set_ref parent (ref\<lparr>sf_locked := True\<rparr>) s\<lparr>se_world := w'\<rparr>) =
      (Some deadlock, del_ref parent (set_ref parent (ref\<lparr>sf_locked := True\<rparr>) s\<lparr>se_world := w'\<rparr>))" for w'
    by (simp add: delRef_def set_ref_def Let_def)
  show ?thesis
    using assms(2,3) known c d
    by (auto simp: sess_Create_def create_done_def Let_def same_table_refl assms(1)
        split: if_splits option.splits prod.splits sum.splits intro!: same_table_upd)
qed

lemma delRef_table:
  assumes "quiet s" and "delRef fs ctx fid remove s = (r, s')"
  shows "quiet s'" and "fids s' = fids s - {fid}"
proof -
  have "se_refs s' = (se_refs s)(fid := None)"
    using assms by (auto simp: delRef_def Let_def quiet_def split: option.splits prod.splits if_splits)
  then show "quiet s'" "fids s' = fids s - {fid}"
    using assms(1) by (auto simp: quiet_def fids_def)
qed

lemma Auth_table:
  assumes "quiet s" and "sess_Auth fs ctx afid uname aname s = (r, s')"
  shows "quiet s'"
    and "fids s' = (case r of Inl _ \<Rightarrow> fids s | Inr _ \<Rightarrow> if afid = NOFID then fids s else insert afid (fids s))"
proof -
  have n: "quiet (s\<lparr>se_world := w\<rparr>)" "fids (s\<lparr>se_world := w\<rparr>) = fids s" for w
    using assms(1) by (simp_all add: quiet_def fids_def)
  obtain req w where q: "fs_RequireAuth fs ctx (se_world s) = (req, w)" by fastforce
  have "quiet s' \<and> fids s' = (case r of Inl _ \<Rightarrow> fids s | Inr _ \<Rightarrow>
      if afid = NOFID then fids s else insert afid (fids s))"
  proof (cases "afid = NOFID \<or> \<not> req")
    case True
    then show ?thesis using assms q n by (auto simp: sess_Auth_def Let_def split: if_splits)
  next
    case False
    let ?s = "s\<lparr>se_world := w\<rparr>"
    show ?thesis
    proof (cases rule: newRef_cases [of afid ?s])
      case nofid
      then show ?thesis using False by simp
    next
      case (dup ref)
      then show ?thesis using assms q n False by (auto simp: sess_Auth_def Let_def)
    next
      case new
      obtain af er w1 where a: "fs_Auth fs ctx uname aname w = ((af, er), w1)" by (metis surj_pair)
      have "\<exists>x. se_refs s' = (se_refs s)(afid := x) \<and>
          (case r of Inl _ \<Rightarrow> x = None | Inr _ \<Rightarrow> (\<exists>ref. x = Some ref \<and> \<not> sf_locked ref))"
        using assms(2) q False new a
        by (cases er) (auto simp: sess_Auth_def Let_def)
      then obtain x where x: "se_refs s' = (se_refs s)(afid := x)"
        "case r of Inl _ \<Rightarrow> x = None | Inr _ \<Rightarrow> (\<exists>ref. x = Some ref \<and> \<not> sf_locked ref)" by blast
      have "afid \<notin> fids s" using new(2) by (simp add: fids_def)
      then show ?thesis
        using quietI_upd [OF assms(1) x(1)] fids_upd [OF x(1)] x(2) False by (auto split: sum.splits)
    qed
  qed
  then show "quiet s'"
    "fids s' = (case r of Inl _ \<Rightarrow> fids s | Inr _ \<Rightarrow> if afid = NOFID then fids s else insert afid (fids s))"
    by blast+
qed

definition leaks :: "Fid \<Rightarrow> ('w, 'e, 'f) session \<Rightarrow> bool" where
  "leaks afid s \<longleftrightarrow> afid \<noteq> NOFID \<and>
     (case se_refs s afid of Some ref \<Rightarrow> sf_Ent ref \<noteq> None \<and> sf_File ref = None | None \<Rightarrow> False)"

lemma attach_auth_table:
  assumes "quiet s" and "\<not> leaks afid s" and "attach_auth fs afid s = (r, s1)"
  obtains (fail) err where "r = Inl err" "se_refs s1 = se_refs s" "se_world s1 = se_world s"
  | (no_auth) "r = Inr None" "s1 = s" "afid = NOFID"
  | (auth) f ref where "r = Inr (Some f)" "afid \<noteq> NOFID" "se_refs s afid = Some ref"
      "s1 = set_ref afid (ref\<lparr>sf_locked := True\<rparr>) s"
proof (cases "afid = NOFID")
  case True
  then show ?thesis using assms(3) no_auth by (simp add: attach_auth_def)
next
  case False
  show ?thesis
    using assms(1)
  proof (cases rule: getRef_cases [of s afid])
    case unknown
    then show ?thesis using assms(3) False fail by (auto simp: attach_auth_def)
  next
    case (known ref ent)
    then have "sf_File ref \<noteq> None" using assms(2) by (simp add: leaks_def)
    moreover have "map_option (\<lambda>ref. ref\<lparr>sf_locked := False\<rparr>) (Some (ref\<lparr>sf_locked := True\<rparr>)) = Some ref"
      using known by simp
    ultimately show ?thesis
      using assms(3) False known fail auth
      by (auto simp: attach_auth_def fun_upd_idem split: sfile.splits if_splits)
  qed
qed

lemma unlocked_upd:
  assumes "quiet s" and "se_refs s' = se_refs s \<or>
    (fid \<noteq> NOFID \<and> se_refs s fid = None \<and> se_refs s' = (se_refs s)(fid := se_refs s' fid) \<and> (\<exists>ref. se_refs s' fid = Some ref \<and> \<not> sf_locked ref))"
  shows "quiet s' \<and> fids s' = (if se_refs s' = se_refs s then fids s else insert fid (fids s))"
  using assms(2)
proof (elim disjE conjE exE)
  fix ref assume "fid \<noteq> NOFID" "se_refs s fid = None"
    "se_refs s' = (se_refs s)(fid := se_refs s' fid)" "se_refs s' fid = Some ref" "\<not> sf_locked ref"
  then show ?thesis
    using quietI_upd [OF assms(1), of s' fid] fids_upd [of s' s fid] by (metis option.discI option.sel)
qed (use assms(1) in \<open>simp_all add: quiet_def fids_def\<close>)

lemma Attach_table:
  assumes "quiet s" and "\<not> leaks afid s" and "sess_Attach fs ctx fid afid uname aname s = (r, s')" and "r \<noteq> Inl nil_deref"
  shows "quiet s' \<and> fids s' = (case r of Inl _ \<Rightarrow> fids s | Inr _ \<Rightarrow> insert fid (fids s))"
proof -
  let ?tab = "(case r of Inl _ \<Rightarrow> se_refs s' = se_refs s
      | Inr _ \<Rightarrow> fid \<noteq> NOFID \<and> se_refs s fid = None \<and>
          se_refs s' = (se_refs s)(fid := se_refs s' fid) \<and> (\<exists>ref. se_refs s' fid = Some ref \<and> \<not> sf_locked ref))"
  obtain ra s1 where a: "attach_auth fs afid s = (ra, s1)" by fastforce
  have ?tab
    using assms(1,2) a
  proof (cases rule: attach_auth_table)
    case (fail err)
    then show ?thesis using assms(3) a by (auto simp: sess_Attach_def)
  next
    case no_auth
    obtain oe er w where f: "fs_Attach fs ctx uname aname None (se_world s) = ((oe, er), w)" by (metis surj_pair)
    show ?thesis
      by (cases rule: newRef_cases [of fid s]; cases er; cases oe)
        (use assms(3,4) a no_auth f in \<open>auto simp: sess_Attach_def Let_def fun_upd_idem\<close>)
  next
    case (auth f ref)
    obtain oe er w where f: "fs_Attach fs ctx uname aname (Some f) (se_world s) = ((oe, er), w)" by (metis surj_pair)
    have l: "\<not> sf_locked ref" using assms(1) auth(3) by (simp add: quiet_def)
    then have id: "(se_refs s)(afid \<mapsto> ref\<lparr>sf_locked := False\<rparr>) = se_refs s"
      using auth(3) by (simp add: fun_upd_idem)
    show ?thesis
      by (cases rule: newRef_cases [of fid s1]; cases er; cases oe)
        (use assms(3,4) a auth f l in \<open>auto simp: sess_Attach_def Let_def fun_upd_idem fun_upd_twist split: if_splits\<close>)
  qed
  then show ?thesis
    using unlocked_upd [OF assms(1), of s' fid] by (auto split: sum.splits simp: fids_def)
qed

text \<open>The references that \<open>Walk\<close> holds: \<open>fid\<close>, and the new reference at \<open>newfid\<close>, if another.\<close>

definition walk_held :: "Fid \<Rightarrow> Fid \<Rightarrow> ('w, 'e, 'f) SFid \<Rightarrow> ('w, 'e, 'f) session \<Rightarrow> ('w, 'e, 'f) session \<Rightarrow> bool" where
  "walk_held fid newfid ref s s2 \<longleftrightarrow> fid \<noteq> NOFID \<and> se_refs s fid = Some ref \<and> \<not> sf_locked ref \<and>
     (if newfid = fid then se_refs s2 = (se_refs s)(fid := Some (ref\<lparr>sf_locked := True\<rparr>))
      else newfid \<noteq> NOFID \<and> se_refs s newfid = None \<and>
        se_refs s2 = (se_refs s)(fid := Some (ref\<lparr>sf_locked := True\<rparr>),
          newfid := Some \<lparr>sf_locked = True, sf_Ent = None, sf_File = None, sf_Mode = 0\<rparr>))"

lemma walk_cleanup_held: "walk_held fid newfid ref s s2 \<Longrightarrow> se_refs (walk_cleanup fid newfid s2) = se_refs s"
  by (auto simp: walk_held_def walk_cleanup_def Let_def fun_upd_idem fun_upd_twist split: if_splits)

lemma walk_held_world [simp]: "walk_held fid newfid ref s (s2\<lparr>se_world := w\<rparr>) = walk_held fid newfid ref s s2"
  by (simp add: walk_held_def)

lemma walk_done_held:
  assumes "walk_held fid newfid ref s s2" and "quiet s"
    and "newref = (if newfid = fid then None else Some \<lparr>sf_locked = True, sf_Ent = None, sf_File = None, sf_Mode = 0\<rparr>)"
  shows "quiet (walk_done fs ctx fid newfid (ref\<lparr>sf_locked := True\<rparr>) newref ent s2) \<and>
    fids (walk_done fs ctx fid newfid (ref\<lparr>sf_locked := True\<rparr>) newref ent s2) = insert newfid (fids s)"
proof -
  let ?s = "walk_done fs ctx fid newfid (ref\<lparr>sf_locked := True\<rparr>) newref ent s2"
  have "newfid \<noteq> NOFID" using assms(1) by (auto simp: walk_held_def split: if_splits)
  moreover have "se_refs ?s = (se_refs s)(newfid := se_refs ?s newfid)"
    "\<exists>ref. se_refs ?s newfid = Some ref \<and> \<not> sf_locked ref"
    using assms(1,3) by (auto simp: walk_held_def walk_done_def fun_upd_idem fun_upd_twist split: if_splits prod.splits)
  ultimately show ?thesis
    using quietI_upd [OF assms(2), of ?s newfid] fids_upd [of ?s s newfid] by (metis option.discI option.sel)
qed

lemma walk_refs_cases:
  assumes "fid \<noteq> NOFID" and "se_refs s fid = Some ref" and "\<not> sf_locked ref"
  obtains (failed) err where
      "(if newfid \<noteq> fid then (case newRef newfid (set_ref fid (ref\<lparr>sf_locked := True\<rparr>) s) of (r, s2) \<Rightarrow> (map_sum id Some r, s2))
        else (Inr None, set_ref fid (ref\<lparr>sf_locked := True\<rparr>) s)) = (Inl err, set_ref fid (ref\<lparr>sf_locked := True\<rparr>) s)"
  | (held) s2 where
      "(if newfid \<noteq> fid then (case newRef newfid (set_ref fid (ref\<lparr>sf_locked := True\<rparr>) s) of (r, s2) \<Rightarrow> (map_sum id Some r, s2))
        else (Inr None, set_ref fid (ref\<lparr>sf_locked := True\<rparr>) s)) =
       (Inr (if newfid = fid then None else Some \<lparr>sf_locked = True, sf_Ent = None, sf_File = None, sf_Mode = 0\<rparr>), s2)"
      "walk_held fid newfid ref s s2" "se_world s2 = se_world s"
proof (cases "newfid = fid")
  case True
  then show ?thesis using assms by (intro held [of "set_ref fid (ref\<lparr>sf_locked := True\<rparr>) s"]) (simp_all add: walk_held_def)
next
  case False
  show ?thesis
  proof (cases rule: newRef_cases [of newfid "set_ref fid (ref\<lparr>sf_locked := True\<rparr>) s"])
    case nofid
    then show ?thesis using False by (intro failed [of ErrUnknownfid]) simp
  next
    case (dup r)
    then show ?thesis using False by (intro failed [of ErrDupfid]) simp
  next
    case new
    then show ?thesis using False assms by (intro held [of "set_ref newfid
          \<lparr>sf_locked = True, sf_Ent = None, sf_File = None, sf_Mode = 0\<rparr> (set_ref fid (ref\<lparr>sf_locked := True\<rparr>) s)"])
        (auto simp: walk_held_def)
  qed
qed

lemma Walk_table:
  assumes "quiet s" and "sess_Walk fs ctx fid newfid names s = (r, s')"
  shows "quiet s' \<and> fids s' = (case r of Inl _ \<Rightarrow> fids s
    | Inr qids \<Rightarrow> if length qids = length names then insert newfid (fids s) else fids s)"
proof -
  have same: ?thesis if "se_refs s' = se_refs s"
    "case r of Inl _ \<Rightarrow> True | Inr qids \<Rightarrow> length qids = length names \<longrightarrow> newfid \<in> fids s"
    using that assms(1) by (auto simp: quiet_def fids_def insert_absorb split: sum.splits)
  show ?thesis
  proof (cases "ValidPath names < 0")
    case True
    then show ?thesis using assms same by (auto simp: sess_Walk_def)
  next
    case valid: False
    show ?thesis
      using assms(1)
    proof (cases rule: getRef_cases [of s fid])
      case unknown
      then show ?thesis using assms(2) valid same by (auto simp: sess_Walk_def)
    next
      case (known ref ent)
      let ?ref = "ref\<lparr>sf_locked := True\<rparr>"
      let ?new = "\<lparr>sf_locked = True, sf_Ent = None, sf_File = None, sf_Mode = 0\<rparr>"
      show ?thesis
        using known(1,2,3)
      proof (cases rule: walk_refs_cases [where newfid = newfid])
        case failed
        then show ?thesis using assms(2) valid known same
          by (auto simp: sess_Walk_def fun_upd_idem)
      next
        case (held s2)
        obtain qids0 oe er w where w: "de_Walk fs ctx ent names (se_world s2) = ((qids0, oe, er), w)"
          by (metis surj_pair)
        note c = walk_cleanup_held [OF held(2)] walk_cleanup_held [of fid newfid ref s "s2\<lparr>se_world := w\<rparr>"]
        note d = walk_done_held [of fid newfid ref s "s2\<lparr>se_world := w\<rparr>", OF _ assms(1) refl]
        have u: "names = [] \<Longrightarrow> newfid = fid \<Longrightarrow> se_refs (unlock fid s2) = se_refs s" "newfid = fid \<Longrightarrow> newfid \<in> fids s"
          using held(2) known(2) by (auto simp: walk_held_def fun_upd_idem fids_def)
        show ?thesis
          using assms(2) valid known held c d u w same
          by (auto simp: sess_Walk_def Let_def split: if_splits option.splits)
      qed
    qed
  qed
qed

section \<open>What requests do to the table\<close>

text \<open>
  The specification of a session's table as a set of fids: the effect of a request with the given
  result.
\<close>

fun fid_effect :: "Message \<Rightarrow> error + Message \<Rightarrow> Fid set \<Rightarrow> Fid set" where
  "fid_effect (MessageTauth afid _ _) (Inr _) F = (if afid = NOFID then F else insert afid F)"
| "fid_effect (MessageTattach fid _ _ _) (Inr _) F = insert fid F"
| "fid_effect (MessageTwalk _ newfid wnames) (Inr (MessageRwalk qids)) F =
     (if length qids = length wnames then insert newfid F else F)"
| "fid_effect (MessageTclunk fid) _ F = F - {fid}"
| "fid_effect (MessageTremove fid) _ F = F - {fid}"
| "fid_effect _ _ F = F"

fun no_afid :: "Message \<Rightarrow> bool" where
  "no_afid (MessageTattach _ afid _ _) \<longleftrightarrow> afid = NOFID"
| "no_afid _ \<longleftrightarrow> True"

definition stalled :: "error + Message \<Rightarrow> bool" where
  "stalled r \<longleftrightarrow> r = Inl deadlock \<or> r = Inl nil_deref"

lemma to_msg_eq: "to_msg f p = (r, s') \<longleftrightarrow> (\<exists>r0. p = (r0, s') \<and> r = map_sum id f r0)"
  by (cases p) (auto simp: to_msg_def split: sum.splits)

lemma to_msg0_eq: "to_msg0 m p = (r, s') \<longleftrightarrow> (\<exists>e. p = (e, s') \<and> r = (case e of Some err \<Rightarrow> Inl err | None \<Rightarrow> Inr m))"
  by (cases p) (auto simp: to_msg0_def split: option.splits)

lemma SFileSys_sel [simp]:
  "ss_Auth (SFileSys fs order) = sess_Auth fs" "ss_Attach (SFileSys fs order) = sess_Attach fs"
  "ss_Clunk (SFileSys fs order) = sess_Clunk fs" "ss_Remove (SFileSys fs order) = sess_Remove fs"
  "ss_Walk (SFileSys fs order) = sess_Walk fs" "ss_Read (SFileSys fs order) = sess_Read fs"
  "ss_Write (SFileSys fs order) = sess_Write fs" "ss_Open (SFileSys fs order) = sess_Open fs"
  "ss_Create (SFileSys fs order) = sess_Create fs" "ss_Stat (SFileSys fs order) = sess_Stat fs"
  "ss_WStat (SFileSys fs order) = sess_WStat fs"
  by (simp_all add: SFileSys_def)

abbreviation sfs :: "('w, 'e, 'f, 'n) FileSys \<Rightarrow> Fid list \<Rightarrow> int \<Rightarrow> ('w, 'e, 'f) session sessionHandler" where
  "sfs fs order msize \<equiv> \<lparr>sh_s = SFileSys fs order, sh_msize = msize\<rparr>"

lemma Handle_table:
  assumes q: "quiet s" and h: "Handle (sfs fs order msize) ctx msg s = (r, s')"
    and "no_afid msg" and "\<not> stalled r"
  shows "quiet s' \<and> fids s' = fid_effect msg r (fids s)"
proof -
  have st: ?thesis if "same_table fid s s'" "fid_effect msg r (fids s) = fids s" for fid
    using same_table_quiet [OF that(1) q] that(2) by simp
  show ?thesis
  proof (cases msg)
    case (MessageTauth afid uname aname)
    then obtain r0 where "sess_Auth fs ctx afid uname aname s = (r0, s')" "r = map_sum id MessageRauth r0"
      using h by (auto simp: to_msg_eq)
    then show ?thesis using MessageTauth Auth_table [OF q, of fs ctx afid uname aname r0 s'] by (cases r0) simp_all
  next
    case (MessageTattach fid afid uname aname)
    then obtain r0 where "sess_Attach fs ctx fid NOFID uname aname s = (r0, s')" "r = map_sum id MessageRattach r0"
      using h assms(3) by (auto simp: to_msg_eq)
    then show ?thesis
      using MessageTattach assms(4) Attach_table [OF q, of NOFID fs ctx fid uname aname r0 s']
      by (cases r0) (simp_all add: leaks_def stalled_def)
  next
    case (MessageTwalk fid newfid names)
    then obtain r0 where "sess_Walk fs ctx fid newfid names s = (r0, s')" "r = map_sum id MessageRwalk r0"
      using h by (auto simp: to_msg_eq)
    then show ?thesis
      using MessageTwalk Walk_table [OF q, of fs ctx fid newfid names r0 s'] by (cases r0) simp_all
  next
    case (MessageTopen fid mode)
    then have "s' = snd (sess_Open fs ctx fid mode s)" using h by (auto simp: to_msg_eq)
    then show ?thesis by (intro st [of fid]) (simp_all add: Open_table [OF q] MessageTopen)
  next
    case (MessageTcreate fid name perm mode)
    then obtain r0 where "sess_Create fs ctx fid name perm mode s = (r0, s')"
        "r = map_sum id (\<lambda>(qid, iounit). MessageRcreate qid iounit) r0"
      using h by (auto simp: to_msg_eq)
    then show ?thesis
      using MessageTcreate assms(4) Create_table [OF q, of fs ctx fid name perm mode r0 s'] st [of fid]
      by (cases r0) (simp_all add: stalled_def)
  next
    case (MessageTread fid offset count)
    then have "s' = snd (sess_Read fs ctx fid (read_count msize count) (sint offset) s)"
      using h by (simp split: prod.splits option.splits)
    then show ?thesis by (intro st [of fid]) (simp_all add: Read_table [OF q] MessageTread)
  next
    case (MessageTwrite fid offset data)
    then have "s' = snd (sess_Write fs ctx fid data (sint offset) s)"
      using h by (simp split: prod.splits option.splits)
    then show ?thesis by (intro st [of fid]) (simp_all add: Write_table [OF q] MessageTwrite)
  next
    case (MessageTclunk fid)
    then show ?thesis
      using h delRef_table [OF q, of fs ctx fid False] by (auto simp: to_msg0_eq sess_Clunk_def)
  next
    case (MessageTremove fid)
    then show ?thesis
      using h delRef_table [OF q, of fs ctx fid True] by (auto simp: to_msg0_eq sess_Remove_def)
  next
    case (MessageTstat fid)
    then have "s' = snd (sess_Stat fs ctx fid s)" using h by (auto simp: to_msg_eq)
    then show ?thesis by (intro st [of fid]) (simp_all add: Stat_table(1) [OF q] MessageTstat)
  next
    case (MessageTwstat fid stat)
    then have "s' = snd (sess_WStat fs ctx fid stat s)" using h by (auto simp: to_msg0_eq)
    then show ?thesis by (intro st [of fid]) (simp_all add: Stat_table(2) [OF q] MessageTwstat)
  qed (use h q in \<open>simp_all\<close>)
qed

fun handle_all :: "'s sessionHandler \<Rightarrow> (Context \<times> Message) list \<Rightarrow> 's \<Rightarrow> (error + Message) list \<times> 's" where
  "handle_all sess [] s = ([], s)"
| "handle_all sess ((ctx, msg) # msgs) s =
     (case Handle sess ctx msg s of (r, s1) \<Rightarrow>
        (case handle_all sess msgs s1 of (rs, s2) \<Rightarrow> (r # rs, s2)))"

fun fid_effects :: "Message list \<Rightarrow> (error + Message) list \<Rightarrow> Fid set \<Rightarrow> Fid set" where
  "fid_effects (msg # msgs) (r # rs) F = fid_effects msgs rs (fid_effect msg r F)"
| "fid_effects _ _ F = F"

lemma fids_new_session [simp]: "fids (new_session w) = {}" "quiet (new_session w)"
  by (simp_all add: fids_def new_session_def quiet_def)

lemma handle_all_table:
  assumes "quiet s" and "handle_all (sfs fs order msize) msgs s = (rs, s')"
    and "\<forall>m\<in>set msgs. no_afid (snd m)" and "\<forall>r\<in>set rs. \<not> stalled r"
  shows "quiet s' \<and> fids s' = fid_effects (map snd msgs) rs (fids s)"
  using assms
proof (induction msgs arbitrary: s rs)
  case (Cons m msgs)
  obtain ctx msg where m: "m = (ctx, msg)" by fastforce
  obtain r s1 where r: "Handle (sfs fs order msize) ctx msg s = (r, s1)" by fastforce
  obtain rs' where rs': "handle_all (sfs fs order msize) msgs s1 = (rs', s')" "rs = r # rs'"
    using Cons.prems(2) m r by (auto split: prod.splits)
  have "quiet s1 \<and> fids s1 = fid_effect msg r (fids s)"
    using Handle_table [OF Cons.prems(1) r] Cons.prems(3,4) m rs'(2) by simp
  then show ?case
    using Cons.IH [OF _ rs'(1)] Cons.prems(3,4) m rs'(2) by simp
qed simp

section \<open>Open files\<close>

lemma openLocked_Inr:
  assumes "openLocked fs ctx ref mode w = (Inr ref', w')"
  shows "sf_Mode ref' = mode" and "sf_File ref' \<noteq> None" and "sf_Ent ref' = sf_Ent ref" and "sf_locked ref' = sf_locked ref"
  using assms by (auto simp: openLocked_def Let_def split: if_splits prod.splits option.splits elim: EnsureNonNil.elims)

lemma Open_ok:
  assumes "quiet s" and "sess_Open fs ctx fid mode s = (Inr x, s')"
  obtains ref where "fid \<noteq> NOFID" "se_refs s' fid = Some ref" "\<not> sf_locked ref" "sf_Ent ref \<noteq> None"
    "sf_File ref \<noteq> None" "sf_Mode ref = mode"
  using assms(1)
proof (cases rule: getRef_cases [of s fid])
  case unknown
  then show ?thesis using assms(2) by (simp add: sess_Open_def)
next
  case (known ref ent)
  obtain ref' w where o: "openLocked fs ctx (ref\<lparr>sf_locked := True\<rparr>) mode (se_world s) = (Inr ref', w)"
    using assms(2) known by (auto simp: sess_Open_def split: prod.splits sum.splits)
  then show ?thesis
    using that [of "ref'\<lparr>sf_locked := False\<rparr>"] assms(2) known openLocked_Inr [OF o] by (auto simp: sess_Open_def)
qed

lemma getRef_free:
  assumes "fid \<noteq> NOFID" "se_refs s fid = Some ref" "\<not> sf_locked ref" "sf_Ent ref \<noteq> None"
  shows "getRef fid s = (Inr (ref\<lparr>sf_locked := True\<rparr>), set_ref fid (ref\<lparr>sf_locked := True\<rparr>) s)"
  using assms by (simp add: getRef_def Let_def)

lemma getRef_none: "fid \<notin> fids s \<Longrightarrow> getRef fid s = (Inl ErrUnknownfid, s)"
  by (simp add: getRef_def fids_def)

lemma getRef_locked: "fid \<noteq> NOFID \<Longrightarrow> se_refs s fid = Some ref \<Longrightarrow> sf_locked ref \<Longrightarrow> getRef fid s = (Inl deadlock, s)"
  by (simp add: getRef_def)

text \<open>The fid that a request works on, and the new fid that it asks for.\<close>

fun request_fid :: "Message \<Rightarrow> Fid option" where
  "request_fid (MessageTwalk fid _ _) = Some fid"
| "request_fid (MessageTopen fid _) = Some fid"
| "request_fid (MessageTcreate fid _ _ _) = Some fid"
| "request_fid (MessageTread fid _ _) = Some fid"
| "request_fid (MessageTwrite fid _ _) = Some fid"
| "request_fid (MessageTclunk fid) = Some fid"
| "request_fid (MessageTremove fid) = Some fid"
| "request_fid (MessageTstat fid) = Some fid"
| "request_fid (MessageTwstat fid _) = Some fid"
| "request_fid _ = None"

fun checks_name :: "Message \<Rightarrow> bool" where
  "checks_name (MessageTwalk _ _ _) \<longleftrightarrow> True"
| "checks_name (MessageTcreate _ _ _ _) \<longleftrightarrow> True"
| "checks_name _ \<longleftrightarrow> False"

section \<open>A small file system\<close>

text \<open>
  For examples: a root \<open>''/''\<close> with a file \<open>''f''\<close>, where any directory can be created but only the
  root can be read, and every user is authenticated.
\<close>

definition sample_qid :: "string \<Rightarrow> Qid" where
  "sample_qid e = \<lparr>q_Type = (if e = ''f'' then 0 else QTDIR), q_Version = 0, q_Path = of_nat (length e)\<rparr>"

definition sample_fs :: "(nat, string, nat, nat) FileSys" where
  "sample_fs =
     \<lparr>fs_RequireAuth = (\<lambda>ctx w. (True, w)), fs_Auth = (\<lambda>ctx uname aname w. ((Some 0, None), w)),
      fs_Attach = (\<lambda>ctx uname aname af w. ((Some ''/'', None), w)), de_Qid = (\<lambda>e w. sample_qid e),
      de_OpenDir = (\<lambda>ctx e w. (if e = ''/'' then (Some 0, None) else (None, Some ErrPerm), w)),
      de_Walk = (\<lambda>ctx e names w. ((if names = [] then ([], Some e, None)
         else if names = [''f''] then ([sample_qid ''f''], Some ''f'', None) else ([], None, Some ErrNotfound)), w)),
      de_Create = (\<lambda>ctx e name perm mode w. ((Some name, Some 0, None), w)),
      de_Open = (\<lambda>ctx e mode w. ((Some 0, None), w)),
      de_Remove = (\<lambda>ctx e w. (Some ErrPerm, w)), de_Clunk = (\<lambda>ctx e w. (None, w)),
      de_Stat = (\<lambda>ctx e w. (Inl ErrPerm, w)), de_WStat = (\<lambda>ctx e dir w. (Some ErrPerm, w)),
      fi_Read = (\<lambda>ctx f n offset w. (([], None), w)), fi_Write = (\<lambda>ctx f p offset w. ((0, None), w)),
      fi_IOUnit = (\<lambda>f w. 0), fi_isAuthFile = (\<lambda>f. True), af_Success = (\<lambda>f w. True),
      rn_Next = (\<lambda>n ctx w. (Inr [], w))\<rparr>"

definition sample_reqs :: "(Context \<times> Message) list" where
  "sample_reqs = [(None, MessageTattach 1 NOFID ''glenda'' []), (None, MessageTwalk 1 2 [''f'']),
     (None, MessageTopen 2 OREAD), (None, MessageTwalk 1 3 [''x'']), (None, MessageTremove 1)]"

definition sample_state :: "(nat, string, nat) session" where
  "sample_state = \<lparr>se_refs = (\<lambda>_. None)
     (1 := Some \<lparr>sf_locked = False, sf_Ent = Some ''/'', sf_File = None, sf_Mode = 0\<rparr>), se_world = 0\<rparr>"

lemma sample_state [simp]: "quiet sample_state" "fids sample_state = {1}" "se_world sample_state = 0"
  "se_refs sample_state 1 = Some \<lparr>sf_locked = False, sf_Ent = Some ''/'', sf_File = None, sf_Mode = 0\<rparr>"
  by (auto simp: sample_state_def quiet_def fids_def NOFID_eq)

lemma sample_dirs [simp]: "IsDir sample_fs ''/'' w" "IsDir sample_fs ''d'' w"
  by (simp_all add: IsDir_def sample_fs_def sample_qid_def)

section \<open>Properties\<close>







text \<open>
  C36.  The lock that \<open>Attach\<close> leaks: when the authentication fid names a reference that is not open,
  the attach is refused without releasing that reference, and every later request on it waits for
  ever.
\<close>

theorem attach_leaks_lock:
  assumes "quiet s" and "leaks afid s"
  shows "\<exists>s1. Handle (sfs fs order msize) ctx (MessageTattach fid afid uname aname) s = (Inl ErrUnknownfid, s1) \<and>
    fst (Handle (sfs fs order msize) ctx' (MessageTstat afid) s1) = Inl deadlock \<and>
    fst (Handle (sfs fs order msize) ctx' (MessageTclunk afid) s1) = Inl deadlock"
proof -
  obtain ref where r: "se_refs s afid = Some ref" "sf_Ent ref \<noteq> None" "sf_File ref = None" "afid \<noteq> NOFID"
    using assms(2) by (auto simp: leaks_def split: option.splits)
  let ?s = "set_ref afid (ref\<lparr>sf_locked := True\<rparr>) s"
  have "\<not> sf_locked ref" using assms(1) r(1) by (simp add: quiet_def)
  then have "getRef afid s = (Inr (ref\<lparr>sf_locked := True\<rparr>), ?s)"
    using r by (intro getRef_free)
  moreover have "getRef afid ?s = (Inl deadlock, ?s)"
    using r(4) by (intro getRef_locked) auto
  ultimately show ?thesis
    using r(3,4) by (simp add: to_msg_def to_msg0_def sess_Attach_def attach_auth_def sess_Stat_def sess_Clunk_def delRef_def)
qed

theorem attach_leaks_lock_witness:
  "\<exists>s1. Handle (sfs sample_fs [] 100) None (MessageTattach 2 1 [] []) sample_state = (Inl ErrUnknownfid, s1) \<and>
     fst (Handle (sfs sample_fs [] 100) None (MessageTclunk 1) s1) = Inl deadlock"
  using attach_leaks_lock [OF sample_state(1), of 1 sample_fs "[]" 100 None 2 "[]" "[]" None]
  by (auto simp: leaks_def NOFID_eq)

text \<open>
  Authentication cannot be used: after a successful authentication request, an attach with the
  authentication fid is refused with \<open>ErrUnknownfid\<close>, and so is a read of the authentication file,
  because the reference has no directory entry.
\<close>

theorem auth_fid_unusable:
  assumes "quiet s" and "afid \<noteq> NOFID"
    and "Handle (sfs fs order msize) ctx (MessageTauth afid uname aname) s = (Inr m, s1)"
  shows "fst (Handle (sfs fs order msize) ctx' (MessageTattach fid afid uname aname) s1) = Inl ErrUnknownfid \<and>
    fst (Handle (sfs fs order msize) ctx' (MessageTread afid offset count) s1) = Inl ErrUnknownfid"
proof -
  obtain q where a: "sess_Auth fs ctx afid uname aname s = (Inr q, s1)"
    using assms(3) by (auto simp: to_msg_def split: prod.splits sum.splits)
  obtain req w where req: "fs_RequireAuth fs ctx (se_world s) = (req, w)" by fastforce
  obtain af er w1 where fa: "fs_Auth fs ctx uname aname w = ((af, er), w1)" by (metis surj_pair)
  have "\<exists>ref. se_refs s1 afid = Some ref \<and> \<not> sf_locked ref \<and> sf_Ent ref = None"
    using a req fa assms(2)
    by (cases rule: newRef_cases [of afid "s\<lparr>se_world := w\<rparr>"]; cases er)
      (auto simp: sess_Auth_def Let_def split: if_splits)
  then have "getRef afid s1 = (Inl ErrUnknownfid, s1)" by (auto simp: getRef_def)
  then show ?thesis
    using assms(2) by (simp add: to_msg_def sess_Attach_def attach_auth_def sess_Read_def ErrUnknownfid_def deadlock_def)
qed

theorem auth_fid_unusable_witness:
  "fst (Handle (sfs sample_fs [] 100) None (MessageTattach 2 1 [] [])
     (snd (Handle (sfs sample_fs [] 100) None (MessageTauth 1 [] []) (new_session 0)))) = Inl ErrUnknownfid"
proof -
  let ?h = "Handle (sfs sample_fs [] 100) None (MessageTauth 1 [] []) (new_session 0)"
  have "fst ?h = Inr (MessageRauth \<lparr>q_Type = QTAUTH, q_Version = 0, q_Path = 0\<rparr>)" by code_simp
  then have "?h = (Inr (MessageRauth \<lparr>q_Type = QTAUTH, q_Version = 0, q_Path = 0\<rparr>), snd ?h)" by (metis prod.collapse)
  from auth_fid_unusable [OF fids_new_session(2) _ this] show ?thesis by (simp add: NOFID_eq)
qed

text \<open>
  Creating a directory that cannot then be read stalls: \<open>Create\<close> gives up the parent's fid
  while it holds the lock that giving it up waits for.
\<close>

theorem create_deadlock:
  assumes "quiet s" and "se_refs s fid = Some ref" and "sf_Ent ref = Some ent" and "fid \<noteq> NOFID"
    and "name \<noteq> ''.''" and "name \<noteq> ''..''" and "IsDir fs ent (se_world s)"
    and "de_Create fs ctx ent name perm mode (se_world s) = ((Some ent', Some f, None), w)" and "IsDir fs ent' w"
    and "de_OpenDir fs ctx ent' w = ((dirs, Some err), w')"
  shows "fst (Handle (sfs fs order msize) ctx (MessageTcreate fid name perm mode) s) = Inl deadlock"
proof -
  have l: "\<not> sf_locked ref" using assms(1,2) by (simp add: quiet_def)
  then have g: "getRef fid s = (Inr (ref\<lparr>sf_locked := True\<rparr>), set_ref fid (ref\<lparr>sf_locked := True\<rparr>) s)"
    using assms(2-4) by (intro getRef_free) auto
  show ?thesis
    using assms(3-10) by (simp add: to_msg_def sess_Create_def g Let_def openLocked_def delRef_def)
qed

theorem create_deadlock_witness:
  "fst (Handle (sfs sample_fs [] 100) None (MessageTcreate 1 ''d'' 0 OREAD) sample_state) = Inl deadlock"
  by (rule create_deadlock [where fs = sample_fs and ent = "''/''" and ent' = "''d''" and f = 0 and w = 0 and w' = 0
        and dirs = None and err = ErrPerm, OF sample_state(1,4)])
    (simp_all add: NOFID_eq, simp_all add: sample_fs_def)

end
