(* ===== verification/P9_CFileSys.thy ===== *)
theory P9_CFileSys
  imports P9_SFileSys
begin

text \<open>
  The file system that a client sees through a session (\<^verbatim>\<open>cfilesys.go\<close>).  Its world is the
  state of the session, the counter of fids, and the open directories, which \<open>OpenDir\<close> makes and
  \<open>Next\<close> changes.  The fields of an entry that point to the file system itself are nil in \<open>noEnt\<close>
  alone.
\<close>

section \<open>Entries and files\<close>

record cEnt =
  ce_fid :: Fid
  ce_qid :: Qid
  ce_fs :: bool

definition noEnt :: cEnt where
  "noEnt = \<lparr>ce_fid = NOFID, ce_qid = zero_Qid, ce_fs = False\<rparr>"

text \<open>The files: \<open>fileRef\<close> with its \<open>iounit\<close>, and \<open>aFile\<close> with its fid and whether it has a session.\<close>

datatype cFile = FileRef cEnt int | AFile Fid bool

definition noFile :: cFile where
  "noFile = FileRef noEnt 0"

definition noAuth :: cFile where
  "noAuth = AFile NOFID False"

record openDir =
  od_fileRef :: cEnt
  od_done :: bool
  od_nread :: int
  od_buf :: nat

record 's fsState =
  cs_session :: 's
  cs_nextfid :: Fid
  cs_dirs :: "openDir list"

definition CFileSys :: "'s \<Rightarrow> 's fsState" where
  "CFileSys st = \<lparr>cs_session = st, cs_nextfid = 0, cs_dirs = []\<rparr>"

definition newFid :: "'s fsState \<Rightarrow> Fid \<times> 's fsState" where
  "newFid w = (cs_nextfid w + 1, w\<lparr>cs_nextfid := cs_nextfid w + 1\<rparr>)"

definition newEnt :: "'s fsState \<Rightarrow> cEnt \<times> 's fsState" where
  "newEnt w = (case newFid w of (fid, w') \<Rightarrow> (\<lparr>ce_fid = fid, ce_qid = zero_Qid, ce_fs = True\<rparr>, w'))"

text \<open>A call of the session.\<close>

definition call :: "('s \<Rightarrow> 'r \<times> 's) \<Rightarrow> 's fsState \<Rightarrow> 'r \<times> 's fsState" where
  "call f w = (case f (cs_session w) of (r, st) \<Rightarrow> (r, w\<lparr>cs_session := st\<rparr>))"

section \<open>Operations\<close>

definition cfs_Auth :: "'s Session \<Rightarrow> Context \<Rightarrow> string \<Rightarrow> string \<Rightarrow> 's fsState \<Rightarrow> (cFile option \<times> error option) \<times> 's fsState" where
  "cfs_Auth sess ctx uname aname w =
     (case newFid w of (afid, w1) \<Rightarrow>
        (case call (ss_Auth sess ctx afid uname aname) w1 of
           (Inl err, w2) \<Rightarrow> ((Some noAuth, Some err), w2)
         | (Inr _, w2) \<Rightarrow> ((Some (AFile afid True), None), w2)))"

definition cfs_Attach :: "'s Session \<Rightarrow> Context \<Rightarrow> string \<Rightarrow> string \<Rightarrow> cFile option \<Rightarrow> 's fsState \<Rightarrow>
    (cEnt option \<times> error option) \<times> 's fsState" where
  "cfs_Attach sess ctx uname aname af w =
     (case newFid w of (rootFid, w1) \<Rightarrow>
        (case (case af of None \<Rightarrow> Some NOFID | Some (AFile afid _) \<Rightarrow> Some afid | Some (FileRef _ _) \<Rightarrow> None) of
           None \<Rightarrow> ((Some noEnt, Some ErrUnknownfid), w1)
         | Some afid \<Rightarrow>
             (case call (ss_Attach sess ctx rootFid afid uname aname) w1 of
                (Inl err, w2) \<Rightarrow> ((Some noEnt, Some err), w2)
              | (Inr qid, w2) \<Rightarrow> ((Some \<lparr>ce_fid = rootFid, ce_qid = qid, ce_fs = True\<rparr>, None), w2))))"

text \<open>The \<open>iounit\<close> of a file: what the server says, or what fits a message.\<close>

definition file_iounit :: "'s Session \<Rightarrow> u32 \<Rightarrow> 's fsState \<Rightarrow> int \<times> 's fsState" where
  "file_iounit sess iounit w =
     (if iounit < 1 then (case call (ss_Version sess) w of ((msize, _), w') \<Rightarrow> (msize - 11, w'))
      else (uint iounit, w))"

definition cEnt_Open :: "'s Session \<Rightarrow> Context \<Rightarrow> cEnt \<Rightarrow> Flag \<Rightarrow> 's fsState \<Rightarrow> (cFile option \<times> error option) \<times> 's fsState" where
  "cEnt_Open sess ctx ent mode w =
     (if \<not> ce_fs ent then ((None, Some nil_deref), w)
      else
        (case call (ss_Open sess ctx (ce_fid ent) mode) w of
           (r, w1) \<Rightarrow>
             (case file_iounit sess (case r of Inl _ \<Rightarrow> 0 | Inr (_, iounit) \<Rightarrow> iounit) w1 of
                (iou, w2) \<Rightarrow> ((Some (FileRef ent iou), case r of Inl err \<Rightarrow> Some err | Inr _ \<Rightarrow> None), w2))))"

definition cFile_Read :: "'s Session \<Rightarrow> Context \<Rightarrow> cFile \<Rightarrow> nat \<Rightarrow> int \<Rightarrow> 's fsState \<Rightarrow> (byte list \<times> error option) \<times> 's fsState" where
  "cFile_Read sess ctx f n offset w =
     (case f of
        FileRef ent _ \<Rightarrow> if ce_fs ent then call (ss_Read sess ctx (ce_fid ent) n offset) w else (([], Some nil_deref), w)
      | AFile afid ok \<Rightarrow> if ok then call (ss_Read sess ctx afid n offset) w else (([], Some nil_deref), w))"

definition cFile_Write :: "'s Session \<Rightarrow> Context \<Rightarrow> cFile \<Rightarrow> byte list \<Rightarrow> int \<Rightarrow> 's fsState \<Rightarrow> (int \<times> error option) \<times> 's fsState" where
  "cFile_Write sess ctx f p offset w =
     (case f of
        FileRef ent _ \<Rightarrow> if ce_fs ent then call (ss_Write sess ctx (ce_fid ent) p offset) w else ((0, Some nil_deref), w)
      | AFile afid ok \<Rightarrow> if ok then call (ss_Write sess ctx afid p offset) w else ((0, Some nil_deref), w))"

definition cFile_IOUnit :: "'s Session \<Rightarrow> cFile \<Rightarrow> 's fsState \<Rightarrow> int" where
  "cFile_IOUnit sess f w =
     (case f of FileRef _ iou \<Rightarrow> iou | AFile _ _ \<Rightarrow> fst (fst (ss_Version sess (cs_session w))) - 11)"

definition makeslice_panic :: error where
  "makeslice_panic = Panic ''makeslice: len out of range''"

definition cEnt_OpenDir :: "'s Session \<Rightarrow> Context \<Rightarrow> cEnt \<Rightarrow> 's fsState \<Rightarrow> (nat option \<times> error option) \<times> 's fsState" where
  "cEnt_OpenDir sess ctx ent w =
     (case cEnt_Open sess ctx ent OREAD w of
        ((_, Some err), w1) \<Rightarrow> ((None, Some err), w1)
      | ((Some (FileRef ref iou), None), w1) \<Rightarrow>
          if iou < 0 then ((None, Some makeslice_panic), w1)
          else
            ((Some (length (cs_dirs w1)), None),
             w1\<lparr>cs_dirs := cs_dirs w1 @ [\<lparr>od_fileRef = ref, od_done = False, od_nread = 0, od_buf = nat iou\<rparr>]\<rparr>)
      | ((_, None), w1) \<Rightarrow> ((None, Some (Rerr ''Invalid return value from Open'')), w1))"

text \<open>
  The loop of \<open>Next\<close>: entries are decoded until the reader fails, and reaching the end of the bytes
  is no error.  Each entry takes at least two bytes, so that one more round than there are bytes is
  enough.
\<close>

fun decode_dirs :: "nat \<Rightarrow> byte list \<Rightarrow> Dir list \<Rightarrow> Dir list \<times> error option" where
  "decode_dirs 0 rd ret = (ret, Some deadlock)"
| "decode_dirs (Suc k) rd ret =
     (case DecodeDir rd of
        Inl err \<Rightarrow> (ret, if err = EOF then None else Some err)
      | Inr (d, rd') \<Rightarrow> decode_dirs k rd' (ret @ [d]))"

definition openDir_Next :: "'s Session \<Rightarrow> nat \<Rightarrow> Context \<Rightarrow> 's fsState \<Rightarrow> (error + Dir list) \<times> 's fsState" where
  "openDir_Next sess i ctx w =
     (let dir = cs_dirs w ! i;
          upd = (\<lambda>dir w. w\<lparr>cs_dirs := (cs_dirs w)[i := dir]\<rparr>) in
      if od_done dir then (Inr [], w)
      else
        (case cFile_Read sess ctx (FileRef (od_fileRef dir) 0) (od_buf dir) (od_nread dir) w of
           ((_, Some err), w1) \<Rightarrow>
             if err = EOF then (Inr [], upd (dir\<lparr>od_done := True\<rparr>) w1) else (Inl err, w1)
         | ((p, None), w1) \<Rightarrow>
             (let dir1 = dir\<lparr>od_nread := od_nread dir + int (length p)\<rparr> in
              case decode_dirs (Suc (length p)) p [] of
                (ret, err) \<Rightarrow>
                  (case err of Some err \<Rightarrow> Inl err | None \<Rightarrow> Inr ret,
                   upd (if ret = [] then dir1\<lparr>od_done := True\<rparr> else dir1) w1))))"

definition cEnt_IsDir :: "cEnt \<Rightarrow> bool" where
  "cEnt_IsDir ent \<longleftrightarrow> q_Type (ce_qid ent) AND QTDIR \<noteq> 0"

text \<open>Whether a string contains another (\<^verbatim>\<open>strings.Contains\<close>).\<close>

fun strings_Contains :: "string \<Rightarrow> string \<Rightarrow> bool" where
  "strings_Contains [] t \<longleftrightarrow> t = []"
| "strings_Contains (c # s) t \<longleftrightarrow> take (length t) (c # s) = t \<or> strings_Contains s t"

definition cEnt_Create :: "'s Session \<Rightarrow> Context \<Rightarrow> cEnt \<Rightarrow> string \<Rightarrow> u32 \<Rightarrow> Flag \<Rightarrow> 's fsState \<Rightarrow>
    (cEnt option \<times> cFile option \<times> error option) \<times> 's fsState" where
  "cEnt_Create sess ctx ent name perm mode w =
     (let fail = (\<lambda>err w. ((Some noEnt, Some noFile, Some err), w)) in
      if name = [] \<or> name = ''.'' \<or> name = ''..'' \<or> strings_Contains name [CHR ''/'', CHR 0x5C]
      then fail (Rerr ''Invalid filename'') w
      else if \<not> cEnt_IsDir ent then fail ErrCreatenondir w
      else if \<not> ce_fs ent then fail nil_deref w
      else
        (case call (ss_Create sess ctx (ce_fid ent) name perm mode) w of
           (Inl err, w1) \<Rightarrow> fail err w1
         | (Inr (qid, iounit), w1) \<Rightarrow>
             (let ent' = ent\<lparr>ce_qid := qid\<rparr> in
              case file_iounit sess iounit w1 of
                (iou, w2) \<Rightarrow> ((Some ent', Some (FileRef ent' iou), None), w2))))"

definition cEnt_Stat :: "'s Session \<Rightarrow> Context \<Rightarrow> cEnt \<Rightarrow> 's fsState \<Rightarrow> (error + Dir) \<times> 's fsState" where
  "cEnt_Stat sess ctx ent w = (if ce_fs ent then call (ss_Stat sess ctx (ce_fid ent)) w else (Inl nil_deref, w))"

definition cEnt_WStat :: "'s Session \<Rightarrow> Context \<Rightarrow> cEnt \<Rightarrow> Dir \<Rightarrow> 's fsState \<Rightarrow> error option \<times> 's fsState" where
  "cEnt_WStat sess ctx ent stat w = (if ce_fs ent then call (ss_WStat sess ctx (ce_fid ent) stat) w else (Some nil_deref, w))"

definition cEnt_Clunk :: "'s Session \<Rightarrow> Context \<Rightarrow> cEnt \<Rightarrow> 's fsState \<Rightarrow> error option \<times> 's fsState" where
  "cEnt_Clunk sess ctx ent w = (if ce_fs ent then call (ss_Clunk sess ctx (ce_fid ent)) w else (Some nil_deref, w))"

definition cEnt_Remove :: "'s Session \<Rightarrow> Context \<Rightarrow> cEnt \<Rightarrow> 's fsState \<Rightarrow> error option \<times> 's fsState" where
  "cEnt_Remove sess ctx ent w = (if ce_fs ent then call (ss_Remove sess ctx (ce_fid ent)) w else (Some nil_deref, w))"

text \<open>The result is compared with the names that were given, not with the steps that were sent.\<close>

definition cEnt_Walk :: "'s Session \<Rightarrow> Context \<Rightarrow> cEnt \<Rightarrow> string list \<Rightarrow> 's fsState \<Rightarrow>
    (Qid list \<times> cEnt option \<times> error option) \<times> 's fsState" where
  "cEnt_Walk sess ctx ent names w =
     (case NormalizePath names of (steps, bsp) \<Rightarrow>
        if bsp < 0 then (([], Some ent, Some (Rerr (''invalid path: '' @ strings_Join names ''/''))), w)
        else if \<not> ce_fs ent then (([], Some noEnt, Some nil_deref), w)
        else
          (case newEnt w of (nxt, w1) \<Rightarrow>
             (case call (ss_Walk sess ctx (ce_fid ent) (ce_fid nxt) steps) w1 of
                (Inl err, w2) \<Rightarrow> (([], Some noEnt, Some err), w2)
              | (Inr qids, w2) \<Rightarrow>
                  if length qids \<noteq> length names
                  then ((qids, Some noEnt, Some (Errorf ''Incomplete walk result'')), w2)
                  else ((qids, Some (nxt\<lparr>ce_qid := if qids \<noteq> [] then last qids else ce_qid ent\<rparr>), None), w2))))"

text \<open>The client's view as a file system.\<close>

definition cfs :: "'s Session \<Rightarrow> ('s fsState, cEnt, cFile, nat) FileSys" where
  "cfs sess =
     \<lparr>fs_RequireAuth = (\<lambda>ctx w. (False, w)), fs_Auth = cfs_Auth sess, fs_Attach = cfs_Attach sess,
      de_Qid = (\<lambda>ent w. ce_qid ent), de_OpenDir = cEnt_OpenDir sess, de_Walk = cEnt_Walk sess,
      de_Create = cEnt_Create sess, de_Open = cEnt_Open sess, de_Remove = cEnt_Remove sess,
      de_Clunk = cEnt_Clunk sess, de_Stat = cEnt_Stat sess, de_WStat = cEnt_WStat sess,
      fi_Read = cFile_Read sess, fi_Write = cFile_Write sess, fi_IOUnit = cFile_IOUnit sess,
      fi_isAuthFile = (\<lambda>f. case f of AFile _ _ \<Rightarrow> True | FileRef _ _ \<Rightarrow> False), af_Success = (\<lambda>f w. False),
      rn_Next = openDir_Next sess\<rparr>"

section \<open>The fids that a client asks for\<close>

text \<open>The new fids of the calls that have been logged, in their order.\<close>

fun new_fid :: "log_line \<Rightarrow> Fid list" where
  "new_fid (LAuth afid _ _ _) = [afid]"
| "new_fid (LAttach fid _ _ _ _) = [fid]"
| "new_fid (LWalk _ newfid _ _) = [newfid]"
| "new_fid _ = []"

definition asked :: "(log_line list \<times> 's) fsState \<Rightarrow> Fid list" where
  "asked w = concat (map new_fid (fst (cs_session w)))"

text \<open>The states of a client after \<open>n\<close> operations of any kind, in any order.\<close>

inductive client_run :: "'s Session \<Rightarrow> 's \<Rightarrow> nat \<Rightarrow> 's fsState \<Rightarrow> bool" for sess st where
  start: "client_run sess st 0 (CFileSys st)"
| auth: "client_run sess st n w \<Longrightarrow> client_run sess st (Suc n) (snd (cfs_Auth sess ctx uname aname w))"
| attach: "client_run sess st n w \<Longrightarrow> client_run sess st (Suc n) (snd (cfs_Attach sess ctx uname aname af w))"
| open_file: "client_run sess st n w \<Longrightarrow> client_run sess st (Suc n) (snd (cEnt_Open sess ctx ent mode w))"
| open_dir: "client_run sess st n w \<Longrightarrow> client_run sess st (Suc n) (snd (cEnt_OpenDir sess ctx ent w))"
| next_dirs: "client_run sess st n w \<Longrightarrow> client_run sess st (Suc n) (snd (openDir_Next sess i ctx w))"
| read_file: "client_run sess st n w \<Longrightarrow> client_run sess st (Suc n) (snd (cFile_Read sess ctx f k offset w))"
| write_file: "client_run sess st n w \<Longrightarrow> client_run sess st (Suc n) (snd (cFile_Write sess ctx f p offset w))"
| create: "client_run sess st n w \<Longrightarrow> client_run sess st (Suc n) (snd (cEnt_Create sess ctx ent name perm mode w))"
| stat: "client_run sess st n w \<Longrightarrow> client_run sess st (Suc n) (snd (cEnt_Stat sess ctx ent w))"
| wstat: "client_run sess st n w \<Longrightarrow> client_run sess st (Suc n) (snd (cEnt_WStat sess ctx ent dir w))"
| clunk: "client_run sess st n w \<Longrightarrow> client_run sess st (Suc n) (snd (cEnt_Clunk sess ctx ent w))"
| remove: "client_run sess st n w \<Longrightarrow> client_run sess st (Suc n) (snd (cEnt_Remove sess ctx ent w))"
| walk: "client_run sess st n w \<Longrightarrow> client_run sess st (Suc n) (snd (cEnt_Walk sess ctx ent names w))"

text \<open>What one operation does to the counter and to the fids asked for.\<close>

definition same_fids :: "(log_line list \<times> 's) fsState \<Rightarrow> (log_line list \<times> 's) fsState \<Rightarrow> bool" where
  "same_fids w w' \<longleftrightarrow> cs_nextfid w' = cs_nextfid w \<and> asked w' = asked w"

definition fid_step :: "(log_line list \<times> 's) fsState \<Rightarrow> (log_line list \<times> 's) fsState \<Rightarrow> bool" where
  "fid_step w w' \<longleftrightarrow> same_fids w w' \<or>
     (cs_nextfid w' = cs_nextfid w + 1 \<and> (asked w' = asked w \<or> asked w' = asked w @ [cs_nextfid w + 1]))"

lemma same_fids_refl [simp]: "same_fids w w" and same_fids_trans: "same_fids w w1 \<Longrightarrow> same_fids w1 w2 \<Longrightarrow> same_fids w w2"
  by (simp_all add: same_fids_def)

lemma same_fids_dirs [simp]: "same_fids w (w'\<lparr>cs_dirs := d\<rparr>) = same_fids w w'"
  by (simp add: same_fids_def asked_def)

lemma call_same_fids:
  assumes "\<And>st. concat (map new_fid (fst (snd (f st)))) = concat (map new_fid (fst st))" and "call f w = (r, w')"
  shows "same_fids w w'"
  using assms(2) assms(1) [of "cs_session w"] by (auto simp: call_def same_fids_def asked_def split: prod.splits)

lemma logged_quiet: "(\<And>r. new_fid (line r) = []) \<Longrightarrow>
    concat (map new_fid (fst (snd (logged f line st)))) = concat (map new_fid (fst st))"
  by (simp add: logged_def split: prod.splits)

lemma quiet_calls:
  "call (ss_Open (NewLogger sess) ctx fid mode) w = (r1, w') \<Longrightarrow> same_fids w w'"
  "call (ss_Create (NewLogger sess) ctx fid name perm mode) w = (r2, w') \<Longrightarrow> same_fids w w'"
  "call (ss_Read (NewLogger sess) ctx fid n offset) w = (r3, w') \<Longrightarrow> same_fids w w'"
  "call (ss_Write (NewLogger sess) ctx fid p offset) w = (r4, w') \<Longrightarrow> same_fids w w'"
  "call (ss_Stat (NewLogger sess) ctx fid) w = (r5, w') \<Longrightarrow> same_fids w w'"
  "call (ss_WStat (NewLogger sess) ctx fid dir) w = (r6, w') \<Longrightarrow> same_fids w w'"
  "call (ss_Clunk (NewLogger sess) ctx fid) w = (r7, w') \<Longrightarrow> same_fids w w'"
  "call (ss_Remove (NewLogger sess) ctx fid) w = (r8, w') \<Longrightarrow> same_fids w w'"
  "call (ss_Version (NewLogger sess)) w = (r9, w') \<Longrightarrow> same_fids w w'"
  by (erule call_same_fids [rotated], simp add: NewLogger_def, rule logged_quiet, simp split: prod.split)+

lemma file_iounit_fids: "file_iounit (NewLogger sess) iounit w = (iou, w') \<Longrightarrow> same_fids w w'"
  by (auto simp: file_iounit_def split: if_splits prod.splits dest: quiet_calls)

lemma cEnt_Open_fids: "cEnt_Open (NewLogger sess) ctx ent mode w = (r, w') \<Longrightarrow> same_fids w w'"
  by (auto simp: cEnt_Open_def split: if_splits prod.splits dest!: quiet_calls file_iounit_fids intro: same_fids_trans)

lemma cFile_Read_fids: "cFile_Read (NewLogger sess) ctx f n offset w = (r, w') \<Longrightarrow> same_fids w w'"
  by (auto simp: cFile_Read_def split: cFile.splits if_splits dest: quiet_calls)

lemma cFile_Write_fids: "cFile_Write (NewLogger sess) ctx f p offset w = (r, w') \<Longrightarrow> same_fids w w'"
  by (auto simp: cFile_Write_def split: cFile.splits if_splits dest: quiet_calls)

lemma cEnt_OpenDir_fids: "cEnt_OpenDir (NewLogger sess) ctx ent w = (r, w') \<Longrightarrow> same_fids w w'"
  by (auto simp: cEnt_OpenDir_def split: if_splits prod.splits option.splits cFile.splits dest!: cEnt_Open_fids)

lemma openDir_Next_fids: "openDir_Next (NewLogger sess) i ctx w = (r, w') \<Longrightarrow> same_fids w w'"
  by (auto simp: openDir_Next_def Let_def split: if_splits prod.splits option.splits dest!: cFile_Read_fids)

lemma cEnt_Create_fids: "cEnt_Create (NewLogger sess) ctx ent name perm mode w = (r, w') \<Longrightarrow> same_fids w w'"
  by (auto simp: cEnt_Create_def Let_def split: if_splits prod.splits sum.splits
      dest!: quiet_calls file_iounit_fids intro: same_fids_trans)

lemma cEnt_fids:
  "cEnt_Stat (NewLogger sess) ctx ent w = (r1, w') \<Longrightarrow> same_fids w w'"
  "cEnt_WStat (NewLogger sess) ctx ent dir w = (r2, w') \<Longrightarrow> same_fids w w'"
  "cEnt_Clunk (NewLogger sess) ctx ent w = (r3, w') \<Longrightarrow> same_fids w w'"
  "cEnt_Remove (NewLogger sess) ctx ent w = (r4, w') \<Longrightarrow> same_fids w w'"
  by (auto simp: cEnt_Stat_def cEnt_WStat_def cEnt_Clunk_def cEnt_Remove_def split: if_splits dest: quiet_calls)

lemma cfs_Auth_fids: "cfs_Auth (NewLogger sess) ctx uname aname w = (r, w') \<Longrightarrow> fid_step w w'"
  by (auto simp: cfs_Auth_def newFid_def call_def NewLogger_def logged_def fid_step_def same_fids_def asked_def
      split: prod.splits sum.splits)

lemma cfs_Attach_fids: "cfs_Attach (NewLogger sess) ctx uname aname af w = (r, w') \<Longrightarrow> fid_step w w'"
  by (auto simp: cfs_Attach_def newFid_def call_def NewLogger_def logged_def fid_step_def same_fids_def asked_def
      split: prod.splits sum.splits option.splits cFile.splits)

lemma cEnt_Walk_fids: "cEnt_Walk (NewLogger sess) ctx ent names w = (r, w') \<Longrightarrow> fid_step w w'"
  by (auto simp: cEnt_Walk_def newEnt_def newFid_def call_def NewLogger_def logged_def fid_step_def same_fids_def asked_def
      split: prod.splits sum.splits if_splits)

lemma same_fid_step: "same_fids w w' \<Longrightarrow> fid_step w w'"
  by (simp add: fid_step_def)

lemma fid_steps:
  "fid_step w (snd (cfs_Auth (NewLogger sess) ctx uname aname w))"
  "fid_step w (snd (cfs_Attach (NewLogger sess) ctx uname aname af w))"
  "fid_step w (snd (cEnt_Open (NewLogger sess) ctx ent mode w))"
  "fid_step w (snd (cEnt_OpenDir (NewLogger sess) ctx ent w))"
  "fid_step w (snd (openDir_Next (NewLogger sess) i ctx w))"
  "fid_step w (snd (cFile_Read (NewLogger sess) ctx f k offset w))"
  "fid_step w (snd (cFile_Write (NewLogger sess) ctx f p offset w))"
  "fid_step w (snd (cEnt_Create (NewLogger sess) ctx ent name perm mode w))"
  "fid_step w (snd (cEnt_Stat (NewLogger sess) ctx ent w))"
  "fid_step w (snd (cEnt_WStat (NewLogger sess) ctx ent dir w))"
  "fid_step w (snd (cEnt_Clunk (NewLogger sess) ctx ent w))"
  "fid_step w (snd (cEnt_Remove (NewLogger sess) ctx ent w))"
  "fid_step w (snd (cEnt_Walk (NewLogger sess) ctx ent names w))"
  by (rule cfs_Auth_fids cfs_Attach_fids cEnt_Walk_fids
      same_fid_step [OF cEnt_Open_fids] same_fid_step [OF cEnt_OpenDir_fids] same_fid_step [OF openDir_Next_fids]
      same_fid_step [OF cFile_Read_fids] same_fid_step [OF cFile_Write_fids] same_fid_step [OF cEnt_Create_fids]
      same_fid_step [OF cEnt_fids(1)] same_fid_step [OF cEnt_fids(2)] same_fid_step [OF cEnt_fids(3)]
      same_fid_step [OF cEnt_fids(4)], rule prod.collapse [symmetric])+

text \<open>The counter has not wrapped, and the fids asked for are those it has passed, without repetition.\<close>

definition fids_inv :: "nat \<Rightarrow> (log_line list \<times> 's) fsState \<Rightarrow> bool" where
  "fids_inv n w \<longleftrightarrow> unat (cs_nextfid w) \<le> n \<and> distinct (asked w) \<and>
     (\<forall>fid\<in>set (asked w). 0 < unat fid \<and> unat fid \<le> unat (cs_nextfid w))"

lemma fids_inv_step:
  assumes "fids_inv n w" and "fid_step w w'" and "Suc n < 4294967295"
  shows "fids_inv (Suc n) w'"
proof -
  have u: "unat (cs_nextfid w + 1) = unat (cs_nextfid w) + 1"
    using assms(1,3) by (simp add: fids_inv_def unat_word_ariths(1))
  have "cs_nextfid w + 1 \<notin> set (asked w)"
    using assms(1) u by (auto simp: fids_inv_def)
  then show ?thesis
    using assms(1,2) u by (fastforce simp: fids_inv_def fid_step_def same_fids_def)
qed

lemma client_run_inv:
  assumes "client_run (NewLogger sess) ([], st) n w" and "n < 4294967295"
  shows "fids_inv n w"
  using assms
proof induction
  case start
  then show ?case by (simp add: CFileSys_def asked_def fids_inv_def)
qed (auto intro!: fids_inv_step fid_steps)

text \<open>Until the counter wraps, the next fid is one that has not been asked for.\<close>

lemma client_run_fresh:
  assumes "client_run (NewLogger sess) ([], st) n w" and "Suc n < 4294967295"
  shows "cs_nextfid w + 1 \<noteq> NOFID \<and> cs_nextfid w + 1 \<notin> set (asked w)"
proof -
  have inv: "fids_inv n w" using client_run_inv [OF assms(1)] assms(2) by simp
  have u: "unat (cs_nextfid w + 1) = unat (cs_nextfid w) + 1"
    using inv assms(2) by (simp add: fids_inv_def unat_word_ariths(1))
  have "unat (cs_nextfid w + 1) < unat NOFID"
    using inv assms(2) u by (simp add: fids_inv_def NOFID_def unsigned_minus_1_eq_mask mask_eq_exp_minus_1)
  moreover have "cs_nextfid w + 1 \<notin> set (asked w)"
    using inv u by (auto simp: fids_inv_def)
  ultimately show ?thesis by auto
qed

section \<open>The table of the server\<close>

text \<open>
  What a session promises of the fids it knows: only the calls that name a new fid can add one, and
  only that one.
\<close>

locale fid_table =
  fixes sess :: "'s Session" and table :: "'s \<Rightarrow> Fid set"
  assumes Auth_adds: "table (snd (ss_Auth sess ctx afid uname aname st)) \<subseteq> insert afid (table st)"
    and Attach_adds: "table (snd (ss_Attach sess ctx fid afid uname aname st)) \<subseteq> insert fid (table st)"
    and Walk_adds: "table (snd (ss_Walk sess ctx fid newfid names st)) \<subseteq> insert newfid (table st)"
    and Clunk_adds: "table (snd (ss_Clunk sess ctx fid st)) \<subseteq> table st"
    and Remove_adds: "table (snd (ss_Remove sess ctx fid st)) \<subseteq> table st"
    and Read_adds: "table (snd (ss_Read sess ctx fid k offset st)) \<subseteq> table st"
    and Write_adds: "table (snd (ss_Write sess ctx fid p offset st)) \<subseteq> table st"
    and Open_adds: "table (snd (ss_Open sess ctx fid mode st)) \<subseteq> table st"
    and Create_adds: "table (snd (ss_Create sess ctx fid name perm mode st)) \<subseteq> table st"
    and Stat_adds: "table (snd (ss_Stat sess ctx fid st)) \<subseteq> table st"
    and WStat_adds: "table (snd (ss_WStat sess ctx fid dir st)) \<subseteq> table st"
    and Version_adds: "table (snd (ss_Version sess st)) \<subseteq> table st"
begin

definition known :: "(log_line list \<times> 's) fsState \<Rightarrow> bool" where
  "known w \<longleftrightarrow> table (snd (cs_session w)) \<subseteq> set (asked w)"

lemma known_dirs [simp]: "known (w\<lparr>cs_dirs := d\<rparr>) = known w" and known_nextfid [simp]: "known (w\<lparr>cs_nextfid := k\<rparr>) = known w"
  by (simp_all add: known_def asked_def)

lemma call_known:
  assumes "call (logged f line) w = (r, w')" and "known w"
    and "\<And>st. table (snd (f st)) \<subseteq> set (new_fid (line (fst (f st)))) \<union> table st"
  shows "known w'"
proof -
  obtain logs st where w: "cs_session w = (logs, st)" by fastforce
  obtain r1 st1 where f: "f st = (r1, st1)" by fastforce
  have "w' = w\<lparr>cs_session := (logs @ [line r1], st1)\<rparr>" using assms(1) w f by (auto simp: call_def logged_def)
  then show ?thesis using assms(2) assms(3) [of st] w f by (simp add: known_def asked_def) blast
qed

lemma known_calls:
  "call (ss_Auth (NewLogger sess) ctx afid uname aname) w = (r, w') \<Longrightarrow> known w \<Longrightarrow> known w'"
  "call (ss_Attach (NewLogger sess) ctx fid afid uname aname) w = (r, w') \<Longrightarrow> known w \<Longrightarrow> known w'"
  "call (ss_Walk (NewLogger sess) ctx fid newfid names) w = (r10, w') \<Longrightarrow> known w \<Longrightarrow> known w'"
  "call (ss_Open (NewLogger sess) ctx fid mode) w = (r1, w') \<Longrightarrow> known w \<Longrightarrow> known w'"
  "call (ss_Create (NewLogger sess) ctx fid name perm mode) w = (r2, w') \<Longrightarrow> known w \<Longrightarrow> known w'"
  "call (ss_Read (NewLogger sess) ctx fid n offset) w = (r3, w') \<Longrightarrow> known w \<Longrightarrow> known w'"
  "call (ss_Write (NewLogger sess) ctx fid p offset) w = (r4, w') \<Longrightarrow> known w \<Longrightarrow> known w'"
  "call (ss_Stat (NewLogger sess) ctx fid) w = (r5, w') \<Longrightarrow> known w \<Longrightarrow> known w'"
  "call (ss_WStat (NewLogger sess) ctx fid dir) w = (r6, w') \<Longrightarrow> known w \<Longrightarrow> known w'"
  "call (ss_Clunk (NewLogger sess) ctx fid) w = (r7, w') \<Longrightarrow> known w \<Longrightarrow> known w'"
  "call (ss_Remove (NewLogger sess) ctx fid) w = (r8, w') \<Longrightarrow> known w \<Longrightarrow> known w'"
  "call (ss_Version (NewLogger sess)) w = (r9, w') \<Longrightarrow> known w \<Longrightarrow> known w'"
  by (simp only: NewLogger_def Session.simps, erule call_known, assumption,
      simp add: Auth_adds Attach_adds Walk_adds Clunk_adds Remove_adds Read_adds Write_adds Open_adds
        Create_adds Stat_adds WStat_adds Version_adds split: prod.split)+

lemma file_iounit_known: "file_iounit (NewLogger sess) iounit w = (iou, w') \<Longrightarrow> known w \<Longrightarrow> known w'"
  by (auto simp: file_iounit_def split: if_splits prod.splits dest: known_calls)

lemma cEnt_Open_known: "cEnt_Open (NewLogger sess) ctx ent mode w = (r, w') \<Longrightarrow> known w \<Longrightarrow> known w'"
  by (auto simp: cEnt_Open_def split: if_splits prod.splits dest!: known_calls file_iounit_known)

lemma cFile_known:
  "cFile_Read (NewLogger sess) ctx f n offset w = (r1, w') \<Longrightarrow> known w \<Longrightarrow> known w'"
  "cFile_Write (NewLogger sess) ctx f p offset w = (r2, w') \<Longrightarrow> known w \<Longrightarrow> known w'"
  by (auto simp: cFile_Read_def cFile_Write_def split: cFile.splits if_splits dest: known_calls)

lemma openDir_known:
  "cEnt_OpenDir (NewLogger sess) ctx ent w = (r1, w') \<Longrightarrow> known w \<Longrightarrow> known w'"
  "openDir_Next (NewLogger sess) i ctx w = (r2, w') \<Longrightarrow> known w \<Longrightarrow> known w'"
  by (auto simp: cEnt_OpenDir_def openDir_Next_def Let_def split: if_splits prod.splits option.splits cFile.splits
      dest!: cEnt_Open_known cFile_known)

lemma cEnt_known:
  "cEnt_Create (NewLogger sess) ctx ent name perm mode w = (r, w') \<Longrightarrow> known w \<Longrightarrow> known w'"
  "cEnt_Stat (NewLogger sess) ctx ent w = (r1, w') \<Longrightarrow> known w \<Longrightarrow> known w'"
  "cEnt_WStat (NewLogger sess) ctx ent dir w = (r2, w') \<Longrightarrow> known w \<Longrightarrow> known w'"
  "cEnt_Clunk (NewLogger sess) ctx ent w = (r3, w') \<Longrightarrow> known w \<Longrightarrow> known w'"
  "cEnt_Remove (NewLogger sess) ctx ent w = (r4, w') \<Longrightarrow> known w \<Longrightarrow> known w'"
  by (auto simp: cEnt_Create_def Let_def cEnt_Stat_def cEnt_WStat_def cEnt_Clunk_def cEnt_Remove_def
      split: if_splits prod.splits sum.splits dest!: known_calls file_iounit_known)

lemma newfid_known:
  "cfs_Auth (NewLogger sess) ctx uname aname w = (r1, w') \<Longrightarrow> known w \<Longrightarrow> known w'"
  "cfs_Attach (NewLogger sess) ctx uname aname af w = (r2, w') \<Longrightarrow> known w \<Longrightarrow> known w'"
  "cEnt_Walk (NewLogger sess) ctx ent names w = (r3, w') \<Longrightarrow> known w \<Longrightarrow> known w'"
  by (auto simp: cfs_Auth_def cfs_Attach_def cEnt_Walk_def newEnt_def newFid_def
      split: prod.splits sum.splits option.splits cFile.splits if_splits dest!: known_calls)

lemmas all_known [OF prod.collapse [symmetric]] =
  newfid_known cEnt_Open_known openDir_known cFile_known cEnt_known

lemma client_run_known:
  "client_run (NewLogger sess) ([], st) n w \<Longrightarrow> table st = {} \<Longrightarrow> known w"
proof (induction rule: client_run.induct)
  case start
  then show ?case by (simp add: CFileSys_def known_def)
qed (blast intro: all_known)+

end

text \<open>A client that hands its messages to the handler of a session leaves the state that the session leaves.\<close>

lemma client_state:
  fixes s :: "'s Session" and v ms msize tag
  defines "c \<equiv> client_session \<lparr>cl_version = v, cl_msize = ms, cl_send = direct_send \<lparr>sh_s = s, sh_msize = msize\<rparr> tag\<rparr>"
  shows "snd (ss_Auth c ctx afid uname aname st) = snd (ss_Auth s ctx afid uname aname st)"
    "snd (ss_Attach c ctx fid afid uname aname st) = snd (ss_Attach s ctx fid afid uname aname st)"
    "snd (ss_Walk c ctx fid newfid names st) = (if 16 < length names then st else snd (ss_Walk s ctx fid newfid names st))"
    "snd (ss_Clunk c ctx fid st) = snd (ss_Clunk s ctx fid st)"
    "snd (ss_Remove c ctx fid st) = snd (ss_Remove s ctx fid st)"
    "snd (ss_Read c ctx fid k offset st) =
       snd (ss_Read s ctx fid (read_count msize (word_of_nat k)) (sint (word_of_int offset :: u64)) st)"
    "snd (ss_Write c ctx fid p offset st) = snd (ss_Write s ctx fid p (sint (word_of_int offset :: u64)) st)"
    "snd (ss_Open c ctx fid mode st) = snd (ss_Open s ctx fid mode st)"
    "snd (ss_Create c ctx fid name perm mode st) = snd (ss_Create s ctx fid name perm mode st)"
    "snd (ss_Stat c ctx fid st) = snd (ss_Stat s ctx fid st)"
    "snd (ss_WStat c ctx fid dir st) = snd (ss_WStat s ctx fid dir st)"
    "snd (ss_Version c st) = st"
  by (simp_all add: c_def client_session_def client_ops direct_send_def to_msg_def to_msg0_def send_result_reply
      split: prod.split sum.split option.split)

context fid_table
begin

lemma client_table:
  "fid_table (client_session \<lparr>cl_version = v, cl_msize = ms, cl_send = direct_send \<lparr>sh_s = sess, sh_msize = msize\<rparr> tag\<rparr>) table"
  by unfold_locales
    (simp_all add: client_state Auth_adds Attach_adds Walk_adds Clunk_adds Remove_adds Read_adds Write_adds
      Open_adds Create_adds Stat_adds WStat_adds subset_insertI)

end

text \<open>The table of the file server.\<close>

lemma getRef_fids [simp]: "fids (snd (getRef fid s)) = fids s"
  by (auto simp: getRef_def fids_def set_ref_def Let_def split: option.split)

lemma getRef_known: "getRef fid s = (Inr ref, s') \<Longrightarrow> fid \<in> fids s"
  by (auto simp: getRef_def fids_def Let_def split: if_splits option.splits)

lemma newRef_fids: "fids (snd (newRef fid s)) \<subseteq> insert fid (fids s)"
  by (auto simp: newRef_def fids_def set_ref_def Let_def split: option.split)

lemma ref_fids [simp]: "fids (unlock fid s) = fids s" "fids (del_ref fid s) = fids s - {fid}"
  "fids (set_ref fid ref s) = insert fid (fids s)" "fids (s\<lparr>se_world := w\<rparr>) = fids s"
  by (auto simp: unlock_def del_ref_def set_ref_def fids_def)

lemma delRef_fids: "fids (snd (delRef fs ctx fid rm s)) \<subseteq> fids s"
  by (auto simp: delRef_def Let_def split: option.split prod.split)

lemma Auth_fids: "fids (snd (sess_Auth fs ctx afid uname aname s)) \<subseteq> insert afid (fids s)"
proof -
  obtain req w r1 s1 where 1: "fs_RequireAuth fs ctx (se_world s) = (req, w)" and 2: "newRef afid (s\<lparr>se_world := w\<rparr>) = (r1, s1)"
    by fastforce
  have "fids s1 \<subseteq> insert afid (fids s)" using newRef_fids [of afid "s\<lparr>se_world := w\<rparr>"] 2 by simp
  then show ?thesis using 1 2 by (auto simp: sess_Auth_def Let_def split: option.split prod.split sum.split)
qed

lemma attach_auth_fids: "fids (snd (attach_auth fs afid s)) = fids s"
  using getRef_fids [of afid s]
  by (cases "getRef afid s") (simp add: attach_auth_def split: sum.split option.split sfile.split)

lemma Attach_fids: "fids (snd (sess_Attach fs ctx fid afid uname aname s)) \<subseteq> insert fid (fids s)"
proof -
  obtain r1 s1 r2 s2 where 1: "attach_auth fs afid s = (r1, s1)" and 2: "newRef fid s1 = (r2, s2)" by fastforce
  have "fids s1 = fids s" "fids s2 \<subseteq> insert fid (fids s1)"
    using attach_auth_fids [of fs afid s] newRef_fids [of fid s1] 1 2 by simp_all
  then show ?thesis
    using 1 2 by (auto simp: sess_Attach_def Let_def split: option.split prod.split sum.split)
qed

lemma io_fids:
  "fids (snd (sess_Read fs ctx fid n offset s)) \<subseteq> fids s"
  "fids (snd (sess_Write fs ctx fid p offset s)) \<subseteq> fids s"
  "fids (snd (sess_Open fs ctx fid mode s)) \<subseteq> fids s"
  "fids (snd (sess_Stat fs ctx fid s)) \<subseteq> fids s"
  "fids (snd (sess_WStat fs ctx fid dir s)) \<subseteq> fids s"
  using getRef_fids [of fid s] getRef_known [of fid s]
  by (cases "getRef fid s";
      simp add: ref_ops split: option.split prod.split sum.split)+

lemma Create_fids: "fids (snd (sess_Create fs ctx fid name perm mode s)) \<subseteq> fids s"
proof (cases "getRef fid s")
  case (Pair r s1)
  show ?thesis
  proof (cases r)
    case (Inr ref)
    have "fids s1 = fids s" "fid \<in> fids s" using Pair Inr getRef_fids [of fid s] getRef_known [of fid s] by simp_all
    moreover have "fids s3 \<subseteq> fids s1" if "delRef fs ctx fid False (s1\<lparr>se_world := w\<rparr>) = (e, s3)" for w e s3
      using delRef_fids [of fs ctx fid False "s1\<lparr>se_world := w\<rparr>"] that by simp
    ultimately show ?thesis
      using Pair Inr by (simp add: sess_Create_def create_done_def Let_def split: option.split prod.split sum.split)
  qed (use Pair getRef_fids [of fid s] in \<open>simp add: sess_Create_def\<close>)
qed

lemma Walk_fids: "fids (snd (sess_Walk fs ctx fid newfid names s)) \<subseteq> insert newfid (fids s)"
proof (cases "getRef fid s")
  case (Pair r s1)
  show ?thesis
  proof (cases r)
    case (Inr ref)
    obtain r2 s2 where 2: "newRef newfid s1 = (r2, s2)" by fastforce
    have "fids s1 = fids s" "fid \<in> fids s" "fids s2 \<subseteq> insert newfid (fids s1)"
      using Pair Inr 2 getRef_fids [of fid s] getRef_known [of fid s] newRef_fids [of newfid s1] by simp_all
    then show ?thesis
      using Pair Inr 2 by (cases r2; cases "newfid = fid")
        (auto simp: sess_Walk_def walk_done_def walk_cleanup_def Let_def split: option.split prod.split)
  qed (use Pair getRef_fids [of fid s] in \<open>auto simp: sess_Walk_def\<close>)
qed

interpretation server: fid_table "SFileSys fs order" fids for fs order
  by unfold_locales
    (simp_all add: Auth_fids Attach_fids Walk_fids Create_fids io_fids sess_Clunk_def sess_Remove_def delRef_fids sess_Version_def SFileSys_def [where fs = fs])

text \<open>The session of a client that is connected to a server of \<open>fs\<close>.\<close>

definition connected :: "('w, 'e, 'f, 'n) FileSys \<Rightarrow> Fid list \<Rightarrow> int \<Rightarrow> Tag \<Rightarrow> ('w, 'e, 'f) session Session" where
  "connected fs order msize tag =
     client_session \<lparr>cl_version = DefaultVersion, cl_msize = msize, cl_send = direct_send (sfs fs order msize) tag\<rparr>"

interpretation remote: fid_table "connected fs order msize tag" fids for fs order msize tag
  unfolding connected_def by (rule server.client_table)

section \<open>Properties\<close>

text \<open>
  C17: a client that is connected to a server asks for a different fid each time, and the server knows no
  others, whatever operations of the client's file system run, in any order and on any entries.  So
  the next fid is never refused as a duplicate, nor is it the reserved one, until the counter of 32 bits
  is used up.
\<close>

theorem client_fids_fresh:
  assumes "client_run (NewLogger (connected fs order msize tag)) ([], new_session w0) n w" and "n < 4294967294"
  shows "distinct (asked w) \<and> fids (snd (cs_session w)) \<subseteq> set (asked w) \<and>
     cs_nextfid w + 1 \<noteq> NOFID \<and> cs_nextfid w + 1 \<notin> set (asked w)"
  using remote.client_run_known [OF assms(1)] client_run_fresh [OF assms(1)] client_run_inv [OF assms(1)] assms(2)
  by (simp add: remote.known_def fids_inv_def)

text \<open>A client that attaches and walks to a file.\<close>

abbreviation sample_link :: "(log_line list \<times> (nat, string, nat) session) Session" where
  "sample_link \<equiv> NewLogger (connected sample_fs [] 100 1)"

definition sample_run :: "(log_line list \<times> (nat, string, nat) session) fsState" where
  "sample_run =
     snd (cEnt_Walk sample_link None \<lparr>ce_fid = 1, ce_qid = sample_qid ''/'', ce_fs = True\<rparr> [''f'']
       (snd (cfs_Attach sample_link None ''u'' ''/'' None (CFileSys ([], new_session 0)))))"

theorem client_fids_fresh_witness:
  "asked sample_run = [1, 2] \<and> fids (snd (cs_session sample_run)) \<subseteq> {1, 2} \<and> cs_nextfid sample_run + 1 \<notin> {1, 2}"
proof -
  have "client_run sample_link ([], new_session 0) (Suc (Suc 0)) sample_run"
    unfolding sample_run_def by (intro client_run.intros)
  moreover have "asked sample_run = [1, 2]" by code_simp
  ultimately show ?thesis
    using client_fids_fresh [of sample_fs "[]" 100 1 0 "Suc (Suc 0)" sample_run] by auto
qed

end
