(* ===== verification/P9_Commander.thy ===== *)
theory P9_Commander
  imports P9_CFileSys
begin

text \<open>
  The commands of the interactive client (\<^verbatim>\<open>cmd/9pr/main.go\<close>), over any file system; the
  program runs them over the one of \<^verbatim>\<open>cfilesys.go\<close>.  What they print is kept as values: how a
  line is laid out is not modelled, and printing does not fail.  A command returns its error, where a
  run-time panic is an error too.
\<close>

section \<open>State and output\<close>

datatype out_line =
    OHeader string
  | OBlank
  | OEntry Dir
  | OPath string
  | OBytes "byte list"
  | OInvalid string
  | OError error
  | OFailed string error

record ('w, 'e) fsCommander =
  cm_pwd :: 'e
  cm_root :: 'e
  cm_path :: string
  cm_out :: "out_line list"
  cm_world :: 'w

definition print :: "out_line \<Rightarrow> ('w, 'e) fsCommander \<Rightarrow> ('w, 'e) fsCommander" where
  "print l c = c\<lparr>cm_out := cm_out c @ [l]\<rparr>"

text \<open>Errors that end the program, or keep it from going on.\<close>

definition panics :: "error option \<Rightarrow> bool" where
  "panics err \<longleftrightarrow> (case err of Some (Panic _) \<Rightarrow> True | _ \<Rightarrow> False)"

definition index_panic :: error where
  "index_panic = Panic ''index out of range''"

text \<open>
  A call of the file system; and a \<open>Clunk\<close> whose error is not looked at, which is the last thing
  that a command does or is deferred, so that it runs after a panic too.
\<close>

definition on_world :: "('w \<Rightarrow> 'r \<times> 'w) \<Rightarrow> ('w, 'e) fsCommander \<Rightarrow> 'r \<times> ('w, 'e) fsCommander" where
  "on_world f c = (case f (cm_world c) of (r, w) \<Rightarrow> (r, c\<lparr>cm_world := w\<rparr>))"

definition clunk :: "('w, 'e, 'f, 'n) FileSys \<Rightarrow> Context \<Rightarrow> 'e \<Rightarrow> error option \<times> ('w, 'e) fsCommander \<Rightarrow>
    error option \<times> ('w, 'e) fsCommander" where
  "clunk fs ctx ent r =
     (case r of (err, c) \<Rightarrow>
        if err = Some deadlock then (err, c)
        else (case on_world (de_Clunk fs ctx ent) c of (e, c') \<Rightarrow> (if panics e then e else err, c')))"

text \<open>The error of \<open>ToWalk\<close>, which comes with no steps, is overwritten by that of \<open>WalkName\<close>.\<close>

definition toWalk :: "string \<Rightarrow> ('w, 'e) fsCommander \<Rightarrow> error + 'e \<times> string list \<times> string" where
  "toWalk p c =
     (case ToWalk p of (isAbs, r) \<Rightarrow>
        (let steps = (case r of Inl _ \<Rightarrow> [] | Inr steps \<Rightarrow> steps);
             rel = (if isAbs then cm_root c else cm_pwd c);
             path = (if isAbs then ''/'' else cm_path c) in
         case WalkName path steps of Inl err \<Rightarrow> Inl err | Inr path' \<Rightarrow> Inr (rel, steps, path')))"

text \<open>
  The walk that the commands start with, up to the test that ends them early: the entry, or the
  error to return, which is none for a walk that is short.
\<close>

definition walk_to :: "('w, 'e, 'f, 'n) FileSys \<Rightarrow> Context \<Rightarrow> 'e \<Rightarrow> string list \<Rightarrow> ('w, 'e) fsCommander \<Rightarrow>
    (error option + 'e option) \<times> ('w, 'e) fsCommander" where
  "walk_to fs ctx rel steps c =
     (case on_world (de_Walk fs ctx rel steps) c of
        ((qids, ent, err), c1) \<Rightarrow> (if err \<noteq> None \<or> length qids \<noteq> length steps then Inl err else Inr ent, c1))"

section \<open>ls\<close>

text \<open>
  The tab writer: a line of one cell, such as a header, makes it write what it holds.  The line of an
  entry has four cells; a name with a line break in it would make more lines of it.
\<close>

record tabwriter =
  tw_held :: "out_line list"
  tw_written :: "out_line list"

definition tw_print :: "out_line \<Rightarrow> tabwriter \<Rightarrow> tabwriter" where
  "tw_print l wr =
     (case l of
        OEntry _ \<Rightarrow> wr\<lparr>tw_held := tw_held wr @ [l]\<rparr>
      | _ \<Rightarrow> wr\<lparr>tw_held := [], tw_written := tw_written wr @ tw_held wr @ [l]\<rparr>)"

text \<open>The loop over the entries of a directory; \<open>None\<close> when the reader never ends.\<close>

partial_function (option) ls_entries :: "(Context \<Rightarrow> 'w \<Rightarrow> (error + Dir list) \<times> 'w) \<Rightarrow> Context \<Rightarrow> tabwriter \<Rightarrow> ('w, 'e) fsCommander \<Rightarrow>
    (error option \<times> tabwriter \<times> ('w, 'e) fsCommander) option" where
  "ls_entries reader ctx wr c =
     (case on_world (reader ctx) c of
        (Inl err, c1) \<Rightarrow> Some (Some err, wr, c1)
      | (Inr dirs, c1) \<Rightarrow>
          if dirs = [] then Some (None, wr, c1) else ls_entries reader ctx (fold (\<lambda>d. tw_print (OEntry d)) dirs wr) c1)"

declare ls_entries.simps [code]

text \<open>One path: the error, and the entry whose clunk is deferred.\<close>

definition ls_path :: "('w, 'e, 'f, 'n) FileSys \<Rightarrow> Context \<Rightarrow> string \<Rightarrow> tabwriter \<Rightarrow> ('w, 'e) fsCommander \<Rightarrow>
    ((error option option \<times> 'e option) \<times> tabwriter \<times> ('w, 'e) fsCommander) option" where
  "ls_path fs ctx p wr c =
     (case toWalk p c of
        Inl err \<Rightarrow> Some ((Some (Some err), None), wr, c)
      | Inr (rel, steps, _) \<Rightarrow>
          (case walk_to fs ctx rel steps c of
             (Inl err, c1) \<Rightarrow> Some ((Some err, None), wr, c1)
           | (Inr None, c1) \<Rightarrow> Some ((Some (Some nil_deref), None), wr, c1)
           | (Inr (Some ent), c1) \<Rightarrow>
               if \<not> IsDir fs ent (cm_world c1) then
                 (case on_world (de_Stat fs ctx ent) c1 of
                    (Inl err, c2) \<Rightarrow> Some ((Some (Some err), Some ent), wr, c2)
                  | (Inr d, c2) \<Rightarrow> Some ((None, Some ent), tw_print (OEntry d) wr, c2))
               else
                 (case on_world (de_OpenDir fs ctx ent) c1 of
                    ((_, Some err), c2) \<Rightarrow> Some ((Some (Some err), Some ent), wr, c2)
                  | ((None, None), c2) \<Rightarrow> Some ((Some (Some nil_deref), Some ent), wr, c2)
                  | ((Some rd, None), c2) \<Rightarrow>
                      (case ls_entries (rn_Next fs rd) ctx wr c2 of
                         None \<Rightarrow> None
                       | Some (err, wr', c3) \<Rightarrow>
                           Some ((case err of Some e \<Rightarrow> Some (Some e) | None \<Rightarrow> None, Some ent), wr', c3)))))"

text \<open>
  The loop over the paths.  The first part of the result is whether and with what the command has
  returned; the entries are those to clunk when it does, the last one first.
\<close>

fun ls_paths :: "('w, 'e, 'f, 'n) FileSys \<Rightarrow> Context \<Rightarrow> bool \<Rightarrow> string list \<Rightarrow> 'e list \<Rightarrow> tabwriter \<Rightarrow> ('w, 'e) fsCommander \<Rightarrow>
    (error option option \<times> 'e list \<times> tabwriter \<times> ('w, 'e) fsCommander) option" where
  "ls_paths fs ctx many [] ents wr c = Some (None, ents, wr, c)"
| "ls_paths fs ctx many (p # ps) ents wr c =
     (let wr1 = (if many then tw_print (OHeader p) wr else wr) in
      case ls_path fs ctx p wr1 c of
        None \<Rightarrow> None
      | Some ((ret, ent), wr2, c2) \<Rightarrow>
          (let ents' = (case ent of Some e \<Rightarrow> e # ents | None \<Rightarrow> ents) in
           case ret of
             Some err \<Rightarrow> Some (Some err, ents', wr2, c2)
           | None \<Rightarrow> ls_paths fs ctx many ps ents' (if many then tw_print OBlank wr2 else wr2) c2))"

definition cmdls :: "('w, 'e, 'f, 'n) FileSys \<Rightarrow> Context \<Rightarrow> string list \<Rightarrow> ('w, 'e) fsCommander \<Rightarrow>
    (error option \<times> ('w, 'e) fsCommander) option" where
  "cmdls fs ctx args c =
     (let ps = (if 0 < length args then args else [[]]) in
      case ls_paths fs ctx (1 < length ps) ps [] \<lparr>tw_held = [], tw_written = []\<rparr> c of
        None \<Rightarrow> None
      | Some (ret, ents, wr, c1) \<Rightarrow>
          (let shown = tw_written wr @ (if ret = None then tw_held wr else []);
               c2 = c1\<lparr>cm_out := cm_out c1 @ shown\<rparr> in
           Some (fold (clunk fs ctx) ents (case ret of Some err \<Rightarrow> err | None \<Rightarrow> None, c2))))"

section \<open>The other commands\<close>

definition invalid_args :: "string list \<Rightarrow> error" where
  "invalid_args args = Errorf (''invalid args: ['' @ strings_Join args '' '' @ '']'')"

definition not_a_directory :: error where
  "not_a_directory = Errorf ''not a directory.''"

definition cmdcd :: "('w, 'e, 'f, 'n) FileSys \<Rightarrow> Context \<Rightarrow> string list \<Rightarrow> ('w, 'e) fsCommander \<Rightarrow> error option \<times> ('w, 'e) fsCommander" where
  "cmdcd fs ctx args c =
     (if 1 < length args then (Some (invalid_args args), c)
      else
        (case toWalk (case args of [] \<Rightarrow> ''/'' | p # _ \<Rightarrow> p) c of
           Inl err \<Rightarrow> (Some err, c)
         | Inr (rel, steps, path) \<Rightarrow>
             (case walk_to fs ctx rel steps c of
                (Inl err, c1) \<Rightarrow> (err, c1)
              | (Inr None, c1) \<Rightarrow> (Some nil_deref, c1)
              | (Inr (Some nxt), c1) \<Rightarrow>
                  if \<not> IsDir fs nxt (cm_world c1) then clunk fs ctx nxt (Some not_a_directory, c1)
                  else
                    (case on_world (de_Clunk fs ctx (cm_pwd c1)) c1 of
                       (e, c2) \<Rightarrow> if panics e then (e, c2) else (None, c2\<lparr>cm_pwd := nxt, cm_path := path\<rparr>)))))"

text \<open>\<open>rm\<close> goes on after an error; the error it returns in the end says no more.\<close>

fun rm_loop :: "('w, 'e, 'f, 'n) FileSys \<Rightarrow> Context \<Rightarrow> string list \<Rightarrow> error option \<Rightarrow> ('w, 'e) fsCommander \<Rightarrow>
    error option \<times> ('w, 'e) fsCommander" where
  "rm_loop fs ctx [] ret c = (ret, c)"
| "rm_loop fs ctx (p # ps) ret c =
     (let ret1 = Some (Errorf ''error'') in
      case toWalk p c of
        Inl err \<Rightarrow> rm_loop fs ctx ps ret1 (print (OInvalid p) c)
      | Inr (rel, steps, _) \<Rightarrow>
          (case on_world (de_Walk fs ctx rel steps) c of
             ((_, _, Some err), c1) \<Rightarrow>
               if panics (Some err) then (Some err, c1) else rm_loop fs ctx ps ret1 (print (OError err) c1)
           | ((_, None, None), c1) \<Rightarrow> (Some nil_deref, c1)
           | ((_, Some ent, None), c1) \<Rightarrow>
               (case on_world (de_Remove fs ctx ent) c1 of
                  (Some err, c2) \<Rightarrow>
                    if panics (Some err) then (Some err, c2) else rm_loop fs ctx ps ret1 (print (OError err) c2)
                | (None, c2) \<Rightarrow> rm_loop fs ctx ps ret c2)))"

definition cmdrm :: "('w, 'e, 'f, 'n) FileSys \<Rightarrow> Context \<Rightarrow> string list \<Rightarrow> ('w, 'e) fsCommander \<Rightarrow> error option \<times> ('w, 'e) fsCommander" where
  "cmdrm fs ctx args c = rm_loop fs ctx args None c"

text \<open>
  What \<open>touch\<close> and \<open>mkdir\<close> share: the directory that the path without its last element leads to,
  and that element.
\<close>

definition parent_of :: "('w, 'e, 'f, 'n) FileSys \<Rightarrow> Context \<Rightarrow> string list \<Rightarrow> ('w, 'e) fsCommander \<Rightarrow>
    (error option + 'e \<times> string) \<times> ('w, 'e) fsCommander" where
  "parent_of fs ctx args c =
     (if length args \<noteq> 1 then (Inl (Some (invalid_args args)), c)
      else
        (case toWalk (hd args) c of
           Inl err \<Rightarrow> (Inl (Some err), c)
         | Inr (rel, steps, _) \<Rightarrow>
             if length steps < 1 then (Inl (Some (Errorf ''Need a filename.'')), c)
             else
               (case walk_to fs ctx rel (butlast steps) c of
                  (Inl err, c1) \<Rightarrow> (Inl err, c1)
                | (Inr None, c1) \<Rightarrow> (Inl (Some nil_deref), c1)
                | (Inr (Some nxt), c1) \<Rightarrow>
                    if \<not> IsDir fs nxt (cm_world c1) then (case clunk fs ctx nxt (Some not_a_directory, c1) of (err, c2) \<Rightarrow> (Inl err, c2))
                    else (Inr (nxt, last steps), c1))))"

definition cmdtouch :: "('w, 'e, 'f, 'n) FileSys \<Rightarrow> Context \<Rightarrow> string list \<Rightarrow> ('w, 'e) fsCommander \<Rightarrow> error option \<times> ('w, 'e) fsCommander" where
  "cmdtouch fs ctx args c =
     (case parent_of fs ctx args c of
        (Inl err, c1) \<Rightarrow> (err, c1)
      | (Inr (nxt, p), c1) \<Rightarrow>
          (case on_world (de_Create fs ctx nxt p 0x1A4 OREAD) c1 of
             ((_, _, Some err), c2) \<Rightarrow> (Some err, c2)
           | ((None, _, None), c2) \<Rightarrow> (Some nil_deref, c2)
           | ((Some ref, _, None), c2) \<Rightarrow> clunk fs ctx ref (None, c2)))"

text \<open>\<open>mkdir\<close> clunks the reference when there is none.\<close>

definition cmdmkdir :: "('w, 'e, 'f, 'n) FileSys \<Rightarrow> Context \<Rightarrow> string list \<Rightarrow> ('w, 'e) fsCommander \<Rightarrow> error option \<times> ('w, 'e) fsCommander" where
  "cmdmkdir fs ctx args c =
     (case parent_of fs ctx args c of
        (Inl err, c1) \<Rightarrow> (err, c1)
      | (Inr (nxt, p), c1) \<Rightarrow>
          (case on_world (de_Create fs ctx nxt p (DMDIR OR 0x1A4) OREAD) c1 of
             ((_, _, None), c2) \<Rightarrow> (None, c2)
           | ((None, _, Some err), c2) \<Rightarrow> (Some nil_deref, c2)
           | ((Some ref, _, Some err), c2) \<Rightarrow> if panics (Some err) then (Some err, c2) else clunk fs ctx ref (Some err, c2)))"

definition cmdpwd :: "string list \<Rightarrow> ('w, 'e) fsCommander \<Rightarrow> error option \<times> ('w, 'e) fsCommander" where
  "cmdpwd args c =
     (if length args \<noteq> 0 then (Some (Errorf ''pwd takes no arguments''), c) else (None, print (OPath (cm_path c)) c))"

text \<open>\<open>cat\<close> shows the result of one read.\<close>

definition cat_file :: "('w, 'e, 'f, 'n) FileSys \<Rightarrow> Context \<Rightarrow> 'e \<Rightarrow> ('w, 'e) fsCommander \<Rightarrow> error option \<times> ('w, 'e) fsCommander" where
  "cat_file fs ctx ent c =
     (case on_world (de_Open fs ctx ent OREAD) c of
        ((_, Some err), c1) \<Rightarrow> (Some err, c1)
      | ((None, None), c1) \<Rightarrow> (Some nil_deref, c1)
      | ((Some file, None), c1) \<Rightarrow>
          (let n = fi_IOUnit fs file (cm_world c1) in
           if n < 0 then (Some makeslice_panic, c1)
           else
             (case on_world (fi_Read fs ctx file (nat n) 0) c1 of
                ((_, Some err), c2) \<Rightarrow> (Some err, c2)
              | ((b, None), c2) \<Rightarrow> (None, print (OBytes b) c2))))"

definition cmdcat :: "('w, 'e, 'f, 'n) FileSys \<Rightarrow> Context \<Rightarrow> string list \<Rightarrow> ('w, 'e) fsCommander \<Rightarrow> error option \<times> ('w, 'e) fsCommander" where
  "cmdcat fs ctx args c =
     (if 1 < length args then (Some (invalid_args args), c)
      else
        (case toWalk (case args of [] \<Rightarrow> ''/'' | p # _ \<Rightarrow> p) c of
           Inl err \<Rightarrow> (Some err, c)
         | Inr (rel, steps, _) \<Rightarrow>
             (case walk_to fs ctx rel steps c of
                (Inl err, c1) \<Rightarrow> (err, c1)
              | (Inr None, c1) \<Rightarrow> (Some nil_deref, c1)
              | (Inr (Some ent), c1) \<Rightarrow> clunk fs ctx ent (cat_file fs ctx ent c1))))"

text \<open>The loop of \<open>write\<close>; \<open>None\<close> when it never ends, as with a file that takes no bytes.\<close>

partial_function (option) write_loop :: "('w, 'e, 'f, 'n) FileSys \<Rightarrow> Context \<Rightarrow> 'f \<Rightarrow> byte list \<Rightarrow> int \<Rightarrow> ('w, 'e) fsCommander \<Rightarrow>
    (error option \<times> ('w, 'e) fsCommander) option" where
  "write_loop fs ctx file b nwritten c =
     (if length b = 0 then Some (None, c)
      else
        (case on_world (fi_Write fs ctx file b nwritten) c of
           ((_, Some err), c1) \<Rightarrow> Some (Some err, c1)
         | ((n, None), c1) \<Rightarrow>
             if n < 0 \<or> int (length b) < n then Some (Some (Panic ''slice bounds out of range''), c1)
             else write_loop fs ctx file (drop (nat n) b) (nwritten + n) c1))"

declare write_loop.simps [code]

definition cmdwrite :: "('w, 'e, 'f, 'n) FileSys \<Rightarrow> Context \<Rightarrow> string list \<Rightarrow> ('w, 'e) fsCommander \<Rightarrow>
    (error option \<times> ('w, 'e) fsCommander) option" where
  "cmdwrite fs ctx args c =
     (case args of
        [] \<Rightarrow> Some (Some index_panic, c)
      | p # texts \<Rightarrow>
          (case toWalk p c of
             Inl err \<Rightarrow> Some (Some err, c)
           | Inr (rel, steps, _) \<Rightarrow>
               (case walk_to fs ctx rel steps c of
                  (Inl err, c1) \<Rightarrow> Some (err, c1)
                | (Inr None, c1) \<Rightarrow> Some (Some nil_deref, c1)
                | (Inr (Some ent), c1) \<Rightarrow>
                    (case on_world (de_Open fs ctx ent OWRITE) c1 of
                       ((_, Some err), c2) \<Rightarrow> Some (clunk fs ctx ent (Some err, c2))
                     | ((None, None), c2) \<Rightarrow> Some (Some nil_deref, c2)
                     | ((Some file, None), c2) \<Rightarrow>
                         map_option (clunk fs ctx ent)
                           (write_loop fs ctx file (bytes_of_string (strings_Join texts '' '')) 0 c2)))))"

section \<open>The loop over the lines\<close>

text \<open>
  \<^verbatim>\<open>strings.Fields\<close>, with the white space of \<^verbatim>\<open>unicode.IsSpace\<close> in UTF-8: the length of the space at
  the head of a string, zero when there is none.
\<close>

definition space_at :: "string \<Rightarrow> nat" where
  "space_at s =
     (case map of_char s :: nat list of
        a # b # c # _ \<Rightarrow>
          if a \<in> {0x09, 0x0A, 0x0B, 0x0C, 0x0D, 0x20} then 1
          else if a = 0xC2 \<and> b \<in> {0x85, 0xA0} then 2
          else if (a, b, c) = (0xE1, 0x9A, 0x80) \<or> (a, b, c) = (0xE2, 0x81, 0x9F) \<or> (a, b, c) = (0xE3, 0x80, 0x80) \<or>
            a = 0xE2 \<and> b = 0x80 \<and> (0x80 \<le> c \<and> c \<le> 0x8A \<or> c \<in> {0xA8, 0xA9, 0xAF}) then 3
          else 0
      | [a, b] \<Rightarrow>
          if a \<in> {0x09, 0x0A, 0x0B, 0x0C, 0x0D, 0x20} then 1 else if a = 0xC2 \<and> b \<in> {0x85, 0xA0} then 2 else 0
      | [a] \<Rightarrow> if a \<in> {0x09, 0x0A, 0x0B, 0x0C, 0x0D, 0x20} then 1 else 0
      | [] \<Rightarrow> 0)"

function fields_loop :: "string \<Rightarrow> string \<Rightarrow> string list" where
  "fields_loop w [] = (if w = [] then [] else [w])"
| "fields_loop w (x # s) =
     (case space_at (x # s) of
        0 \<Rightarrow> fields_loop (w @ [x]) s
      | Suc k \<Rightarrow> (if w = [] then [] else [w]) @ fields_loop [] (drop k s))"
  by pat_completeness auto
termination by (relation "measure (length \<circ> snd)") auto

definition strings_Fields :: "string \<Rightarrow> string list" where
  "strings_Fields s = fields_loop [] s"

definition run_command :: "('w, 'e, 'f, 'n) FileSys \<Rightarrow> Context \<Rightarrow> string \<Rightarrow> string list \<Rightarrow> ('w, 'e) fsCommander \<Rightarrow>
    (error option \<times> ('w, 'e) fsCommander) option" where
  "run_command fs ctx name args c =
     (if name = ''ls'' then cmdls fs ctx args c
      else if name = ''cd'' then Some (cmdcd fs ctx args c)
      else if name = ''pwd'' then Some (cmdpwd args c)
      else if name = ''cat'' then Some (cmdcat fs ctx args c)
      else if name = ''rm'' then Some (cmdrm fs ctx args c)
      else if name = ''touch'' then Some (cmdtouch fs ctx args c)
      else if name = ''mkdir'' then Some (cmdmkdir fs ctx args c)
      else if name = ''write'' then cmdwrite fs ctx args c
      else Some (Some (Errorf ''command not implemented''), c))"

text \<open>How the loop goes on after a line: it reads the next one, or the session is stopped, or the program dies.\<close>

datatype after_line = Running | Stopped "error option" | Crashed error

definition run_line :: "('w, 'e, 'f, 'n) FileSys \<Rightarrow> Context \<Rightarrow> string \<Rightarrow> ('w, 'e) fsCommander \<Rightarrow>
    (after_line \<times> ('w, 'e) fsCommander) option" where
  "run_line fs ctx line c =
     (if line = [] then Some (Running, c)
      else
        (case strings_Fields line of
           [] \<Rightarrow> Some (Crashed index_panic, c)
         | name # args \<Rightarrow>
             if name = ''exit'' then Some (Stopped None, c)
             else
               (case run_command fs ctx name args c of
                  None \<Rightarrow> None
                | Some (None, c1) \<Rightarrow> Some (Running, c1)
                | Some (Some err, c1) \<Rightarrow>
                    Some (if err = ErrClosed then (Stopped (Some err), c1)
                          else if panics (Some err) then (Crashed err, c1)
                          else (Running, print (OFailed name err) c1)))))"

text \<open>The lines that are read, each with the context that its command gets; \<open>None\<close> when a command never ends.\<close>

fun run_lines :: "('w, 'e, 'f, 'n) FileSys \<Rightarrow> (Context \<times> string) list \<Rightarrow> ('w, 'e) fsCommander \<Rightarrow>
    (after_line \<times> ('w, 'e) fsCommander) option" where
  "run_lines fs [] c = Some (Running, c)"
| "run_lines fs ((ctx, line) # lines) c =
     (case run_line fs ctx line c of
        Some (Running, c1) \<Rightarrow> run_lines fs lines c1
      | r \<Rightarrow> r)"

text \<open>
  How \<open>main\<close> starts: it attaches, and clones the root for the working directory.  An entry that
  is nil beside no error, which fails at its first use, is taken as failing here.
\<close>

definition start_commander :: "('w, 'e, 'f, 'n) FileSys \<Rightarrow> Context \<Rightarrow> 'w \<Rightarrow> error + ('w, 'e) fsCommander" where
  "start_commander fs ctx w =
     (case fs_Attach fs ctx ''anonymous'' ''/'' None w of
        ((_, Some err), _) \<Rightarrow> Inl err
      | ((None, None), _) \<Rightarrow> Inl nil_deref
      | ((Some root, None), w1) \<Rightarrow>
          (case de_Walk fs ctx root [] w1 of
             ((_, _, Some err), _) \<Rightarrow> Inl err
           | ((_, None, None), _) \<Rightarrow> Inl nil_deref
           | ((_, Some pwd, None), w2) \<Rightarrow>
               Inr \<lparr>cm_pwd = pwd, cm_root = root, cm_path = ''/'', cm_out = [], cm_world = w2\<rparr>))"

end
