(* ===== verification/P9_Commander_Correct.thy ===== *)
theory P9_Commander_Correct
  imports P9_Commander "HOL-Library.Multiset"
begin

text \<open>
  What the commands of the interactive client do with the fids they ask for, where \<open>cd\<close> leads, and
  what \<open>write\<close>, \<open>rm\<close> and \<open>mkdir\<close> come to.
\<close>

section \<open>Paths\<close>

lemma toWalk_normal:
  assumes "toWalk p c = Inr (rel, steps, path)"
  obtains b gs where "steps = replicate b ''..'' @ gs" and "list_all good_name gs" and "rel \<in> {cm_root c, cm_pwd c}"
proof -
  let ?args = "strings_Split CHR ''/'' (strings_Trim p CHR ''/'')"
  have "\<exists>b gs. (case snd (ToWalk p) of Inl _ \<Rightarrow> [] | Inr steps \<Rightarrow> steps) = replicate b ''..'' @ gs \<and> list_all good_name gs"
    by (cases rule: NormalizePath_cases [of ?args]) (auto simp: ToWalk_def Let_def intro: exI [of _ 0])
  then show thesis
    using assms that by (auto simp: toWalk_def Let_def split: prod.splits sum.splits if_splits)
qed

lemma normal_butlast:
  assumes "list_all good_name gs"
  shows "\<exists>b' gs'. butlast (replicate b ''..'' @ gs) = replicate b' ''..'' @ gs' \<and> list_all good_name gs'"
proof (cases gs rule: rev_cases)
  case Nil
  then have "butlast (replicate b ''..'' @ gs) = replicate (b - 1) ''..'' @ []" by (cases b) (simp_all flip: replicate_append_same)
  then show ?thesis by (metis list.pred_inject(1))
next
  case (snoc gs' g)
  then show ?thesis using assms by (auto simp: butlast_append)
qed

definition normal :: "string list \<Rightarrow> bool" where
  "normal names \<longleftrightarrow> fst (NormalizePath names) = names"

lemma normal_toWalk: "toWalk p c = Inr (rel, steps, path) \<Longrightarrow> normal steps \<and> normal (butlast steps) \<and> rel \<in> {cm_root c, cm_pwd c}"
  by (elim toWalk_normal) (metis NormalizePath_normal fst_conv normal_butlast normal_def)

lemma panics_simps [simp]:
  "\<not> panics None" "panics (Some deadlock)" "panics (Some nil_deref)" "panics (Some makeslice_panic)" "panics (Some index_panic)"
  "panics (Some (Panic s))" "\<not> panics (Some (Errorf s))" "\<not> panics (Some ErrClosed)"
  by (simp_all add: panics_def deadlock_def nil_deref_def makeslice_panic_def index_panic_def)

text \<open>What the two loops keep, however often they go round.\<close>

lemma loop_inv:
  "write_loop fs ctx f b nwritten c = Some (err, c') \<Longrightarrow>
     (\<And>b offset c r c'. I c \<Longrightarrow> on_world (fi_Write fs ctx f b offset) c = (r, c') \<Longrightarrow> I c') \<Longrightarrow> I c \<Longrightarrow> I c'"
  "ls_entries reader ctx wr c = Some (err, wr', c') \<Longrightarrow>
     (\<And>c r c'. I c \<Longrightarrow> on_world (reader ctx) c = (r, c') \<Longrightarrow> I c') \<Longrightarrow> I c \<Longrightarrow> I c'"
proof goal_cases
  case 1
  have "fs = fs \<longrightarrow> ctx = ctx \<longrightarrow> f = f \<longrightarrow> I c \<longrightarrow> I (snd (err, c'))"
    by (rule write_loop.raw_induct [where P = "\<lambda>fs' ctx' f' b nwritten c r. fs' = fs \<longrightarrow> ctx' = ctx \<longrightarrow> f' = f \<longrightarrow> I c \<longrightarrow> I (snd r)", OF _ 1(1)])
      (auto split: if_splits prod.splits option.splits dest: 1(2))
  then show ?case using 1(3) by simp
next
  case 2
  have "reader = reader \<longrightarrow> ctx = ctx \<longrightarrow> I c \<longrightarrow> I (snd (snd (err, wr', c')))"
    by (rule ls_entries.raw_induct [where P = "\<lambda>reader' ctx' wr c r. reader' = reader \<longrightarrow> ctx' = ctx \<longrightarrow> I c \<longrightarrow> I (snd (snd r))", OF _ 2(1)])
      (auto split: if_splits prod.splits sum.splits dest: 2(2))
  then show ?case using 2(3) by simp
qed

section \<open>Who holds the entries\<close>

text \<open>Whether a line is one that can leave a fid behind.\<close>

definition makes :: "string \<Rightarrow> bool" where
  "makes line \<longleftrightarrow> (case strings_Fields line of [] \<Rightarrow> False | name # _ \<Rightarrow> name = ''touch'' \<or> name = ''mkdir'')"


text \<open>
  What the commander relies on in a file system: \<open>held w E\<close> says that exactly the entries \<open>E\<close> are
  given out, that files and open directories belong to an entry and can be used while it is held,
  and that a failed \<open>Create\<close> gives back an entry on which \<open>Clunk\<close> panics.
\<close>

locale entry_holder =
  fixes fs :: "('w, 'e, 'f, 'n) FileSys"
    and held :: "'w \<Rightarrow> 'e multiset \<Rightarrow> bool"
    and file_ent :: "'f \<Rightarrow> 'e option"
    and dir_ent :: "'n \<Rightarrow> 'w \<Rightarrow> 'e option"
  assumes held_Attach: "held w E \<Longrightarrow> fs_Attach fs ctx uname aname None w = ((oe, err), w') \<Longrightarrow>
      held w' (if err = None \<and> oe \<noteq> None then add_mset (the oe) E else E)"
    and held_Walk: "held w (add_mset e E) \<Longrightarrow> normal names \<Longrightarrow> de_Walk fs ctx e names w = ((qids, oe, err), w') \<Longrightarrow>
      held w' (if err = None \<and> oe \<noteq> None then add_mset (the oe) (add_mset e E) else add_mset e E)"
    and Walk_whole: "de_Walk fs ctx e names w = ((qids, oe, None), w') \<Longrightarrow> length qids = length names"
    and held_Create: "held w (add_mset e E) \<Longrightarrow> de_Create fs ctx e name perm mode w = ((oe, ofile, err), w') \<Longrightarrow>
      held w' (if err = None \<and> oe \<noteq> None then add_mset (the oe) E else add_mset e E)"
    and Create_dead: "de_Create fs ctx e name perm mode w = ((Some e', ofile, Some er), w') \<Longrightarrow>
      de_Clunk fs ctx' e' w'' = (Some nil_deref, w'')"
    and held_Clunk: "held w (add_mset e E) \<Longrightarrow> held (snd (de_Clunk fs ctx e w)) E"
    and held_Remove: "held w (add_mset e E) \<Longrightarrow> held (snd (de_Remove fs ctx e w)) E"
    and held_Stat: "held w (add_mset e E) \<Longrightarrow> held (snd (de_Stat fs ctx e w)) (add_mset e E)"
    and held_Open: "held w (add_mset e E) \<Longrightarrow> de_Open fs ctx e mode w = ((ofile, err), w') \<Longrightarrow>
      held w' (add_mset e E) \<and> (\<forall>f. ofile = Some f \<longrightarrow> file_ent f = Some e)"
    and held_Read: "held w (add_mset e E) \<Longrightarrow> file_ent f = Some e \<Longrightarrow> held (snd (fi_Read fs ctx f n offset w)) (add_mset e E)"
    and held_Write: "held w (add_mset e E) \<Longrightarrow> file_ent f = Some e \<Longrightarrow> held (snd (fi_Write fs ctx f p offset w)) (add_mset e E)"
    and held_OpenDir: "held w (add_mset e E) \<Longrightarrow> de_OpenDir fs ctx e w = ((ord, err), w') \<Longrightarrow>
      held w' (add_mset e E) \<and> (\<forall>rd. ord = Some rd \<longrightarrow> dir_ent rd w' = Some e)"
    and held_Next: "held w (add_mset e E) \<Longrightarrow> dir_ent rd w = Some e \<Longrightarrow> rn_Next fs rd ctx w = (r, w') \<Longrightarrow>
      held w' (add_mset e E) \<and> dir_ent rd w' = Some e"
begin

text \<open>The commander holds the root, the working directory, and \<open>L\<close>.\<close>

definition holds :: "('w, 'e) fsCommander \<Rightarrow> 'e multiset \<Rightarrow> bool" where
  "holds c L \<longleftrightarrow> held (cm_world c) (add_mset (cm_root c) (add_mset (cm_pwd c) L))"

text \<open>A command that ends without a panic leaves at most \<open>k\<close> more entries.\<close>

definition leaves :: "nat \<Rightarrow> error option \<times> ('w, 'e) fsCommander \<Rightarrow> bool" where
  "leaves k r \<longleftrightarrow> (panics (fst r) \<and> (\<exists>E. held (cm_world (snd r)) E)) \<or> (\<exists>L. holds (snd r) L \<and> size L \<le> k)"

lemma leavesI: "holds c L \<Longrightarrow> panics err \<or> size L \<le> k \<Longrightarrow> leaves k (err, c)"
  by (auto simp: leaves_def holds_def)

lemma leaves_panic: "panics err \<Longrightarrow> held (cm_world c) E \<Longrightarrow> leaves k (err, c)"
  by (auto simp: leaves_def)

lemma leaves_mono: "leaves k r \<Longrightarrow> k \<le> k' \<Longrightarrow> leaves k' r"
  by (auto simp: leaves_def intro: order_trans)

lemma holds_print [simp]: "holds (print l c) L = holds c L"
  by (simp add: holds_def print_def)

lemma on_world_fields: "on_world f c = (r, c') \<Longrightarrow> cm_pwd c' = cm_pwd c \<and> cm_root c' = cm_root c \<and> cm_path c' = cm_path c \<and>
    f (cm_world c) = (r, cm_world c')"
  by (auto simp: on_world_def split: prod.splits)

lemma on_world_Clunk: "holds c (add_mset e L) \<Longrightarrow> on_world (de_Clunk fs ctx e) c = (r, c') \<Longrightarrow> holds c' L"
  using held_Clunk [of "cm_world c" e "add_mset (cm_root c) (add_mset (cm_pwd c) L)" ctx]
  by (auto simp: holds_def add_mset_commute dest!: on_world_fields)

lemma clunk_leaves: "holds c (add_mset e L) \<Longrightarrow> panics err \<or> size L \<le> k \<Longrightarrow> leaves k (clunk fs ctx e (err, c))"
  by (auto simp: clunk_def split: prod.splits dest: on_world_Clunk intro: leavesI)

text \<open>The deferred calls.\<close>

lemma clunk_shape:
  assumes "holds c (add_mset e L)" and "clunk fs ctx e (err, c) = (err', c')"
  shows "holds c' L \<or> err' = Some deadlock \<and> c' = c" and "panics err \<Longrightarrow> panics err'"
  using assms by (auto simp: clunk_def split: prod.splits if_splits dest: on_world_Clunk)

lemma clunks_leaves:
  assumes "holds c (mset ents + L)" and "panics err \<or> size L \<le> k"
  shows "leaves k (fold (clunk fs ctx) ents (err, c))"
  using assms
proof (induction ents arbitrary: err c)
  case Nil
  then show ?case by (auto intro: leavesI)
next
  case (Cons e ents)
  obtain err' c' where c': "clunk fs ctx e (err, c) = (err', c')" by fastforce
  note sh = clunk_shape [of c e "mset ents + L" ctx err err' c']
  have stop: "fold (clunk fs ctx) es (Some deadlock, c) = (Some deadlock, c)" for es
    by (induction es) (simp_all add: clunk_def)
  show ?case
  proof (cases "holds c' (mset ents + L)")
    case True
    then show ?thesis using Cons.IH [OF True, of err'] Cons.prems sh(2) c' 
      by (auto simp: clunk_def split: prod.splits if_splits)
  next
    case False
    then have "err' = Some deadlock" "c' = c" using sh(1) Cons.prems(1) c' by auto
    then show ?thesis using c' stop [of ents] Cons.prems(1) leavesI [of c "mset (e # ents) + L" "Some deadlock" k]
      by simp
  qed
qed

lemma on_world_Walk:
  assumes "holds c L" and "normal names" and "rel \<in> {cm_root c, cm_pwd c}" and "on_world (de_Walk fs ctx rel names) c = ((qids, oe, err), c')"
  shows "holds c' (if err = None \<and> oe \<noteq> None then add_mset (the oe) L else L)"
proof -
  let ?E = "\<lambda>L. add_mset (cm_root c) (add_mset (cm_pwd c) L)"
  obtain E where E: "?E L = add_mset rel E" using assms(3) by (metis add_mset_commute empty_iff insert_iff)
  note f = on_world_fields [OF assms(4)]
  have "held (cm_world c) (add_mset rel E)" using assms(1) E by (simp add: holds_def)
  note h = held_Walk [OF this assms(2) conjunct2 [OF conjunct2 [OF conjunct2 [OF f]]]]
  have x: "?E (add_mset x L) = add_mset x (add_mset rel E)" for x unfolding E [symmetric] by (simp add: add_mset_commute)
  show ?thesis using h f by (cases err; cases oe) (simp_all add: holds_def x E)
qed

lemma walk_to_holds:
  assumes "holds c L" and "toWalk p c = Inr (rel, steps, path)" and "names \<in> {steps, butlast steps}" and "walk_to fs ctx rel names c = (r, c')"
  shows "holds c' (case r of Inr (Some e) \<Rightarrow> add_mset e L | _ \<Rightarrow> L)"
    and "cm_pwd c' = cm_pwd c" and "cm_root c' = cm_root c"
proof -
  have n: "normal names" "rel \<in> {cm_root c, cm_pwd c}" using normal_toWalk [OF assms(2)] assms(3) by auto
  obtain qids oe err where w: "on_world (de_Walk fs ctx rel names) c = ((qids, oe, err), c')"
    and r: "r = (if err \<noteq> None \<or> length qids \<noteq> length names then Inl err else Inr oe)"
    using assms(4) by (auto simp: walk_to_def split: prod.splits)
  have "length qids = length names" if "err = None" using Walk_whole on_world_fields [OF w] that by blast
  then show "holds c' (case r of Inr (Some e) \<Rightarrow> add_mset e L | _ \<Rightarrow> L)"
    using on_world_Walk [OF assms(1) n w] r by (cases err; cases oe) auto
  show "cm_pwd c' = cm_pwd c" and "cm_root c' = cm_root c" using on_world_fields [OF w] by simp_all
qed

lemma cmdcd_leaves:
  assumes "holds c L"
  shows "leaves (size L) (cmdcd fs ctx args c)"
proof (cases "length args \<le> 1")
  case True
  define p where "p = (case args of [] \<Rightarrow> ''/'' | p # _ \<Rightarrow> p)"
  show ?thesis
  proof (cases "toWalk p c")
    case (Inr t)
    obtain rel steps path where t: "toWalk p c = Inr (rel, steps, path)" using Inr by (metis surj_pair)
    obtain r c1 where w: "walk_to fs ctx rel steps c = (r, c1)" by fastforce
    note h = walk_to_holds [OF assms t _ w, simplified]
    obtain e c2 where k: "on_world (de_Clunk fs ctx (cm_pwd c1)) c1 = (e, c2)" by fastforce
    have "holds (c2\<lparr>cm_pwd := nxt, cm_path := path\<rparr>) L" if "r = Inr (Some nxt)" for nxt
    proof -
      have "held (cm_world c1) (add_mset (cm_pwd c1) (add_mset (cm_root c1) (add_mset nxt L)))"
        using h(1) that by (simp add: holds_def add_mset_commute)
      from held_Clunk [OF this, of ctx] show ?thesis using on_world_fields [OF k] by (simp add: holds_def)
    qed
    moreover have "leaves (size L) (e, c2)" if "r = Inr (Some nxt)" "panics e" for nxt
      using calculation [OF that(1)] that(2) by (auto simp: holds_def intro: leaves_panic)
    ultimately show ?thesis
      using True t w h(1) k clunk_leaves [of c1 _ L "Some not_a_directory" "size L" ctx]
      by (cases r) (auto simp: cmdcd_def p_def [symmetric] leavesI split: option.splits)
  qed (use True assms in \<open>auto simp: cmdcd_def p_def intro!: leavesI\<close>)
qed (use assms in \<open>auto simp: cmdcd_def intro!: leavesI\<close>)

lemma rm_loop_leaves: "holds c L \<Longrightarrow> leaves (size L) (rm_loop fs ctx ps ret c)"
proof (induction ps arbitrary: ret c)
  case Nil
  then show ?case by (auto intro: leavesI)
next
  case (Cons p ps)
  show ?case
  proof (cases "toWalk p c")
    case (Inr t)
    obtain rel steps path where t: "toWalk p c = Inr (rel, steps, path)" using Inr by (metis surj_pair)
    obtain qids oe err c1 where w: "on_world (de_Walk fs ctx rel steps) c = ((qids, oe, err), c1)" by (metis surj_pair)
    have h: "holds c1 (if err = None \<and> oe \<noteq> None then add_mset (the oe) L else L)"
      using on_world_Walk [OF Cons.prems _ _ w] normal_toWalk [OF t] by simp
    have r: "holds c2 L" if "holds c1 (add_mset e L)" "on_world (de_Remove fs ctx e) c1 = (er, c2)" for e er c2
      using held_Remove [of "cm_world c1" e "add_mset (cm_root c1) (add_mset (cm_pwd c1) L)" ctx] that
      by (auto simp: holds_def add_mset_commute dest!: on_world_fields)
    show ?thesis
    proof (cases err)
      case None
      show ?thesis
      proof (cases oe)
        case (Some e)
        obtain er c2 where c2: "on_world (de_Remove fs ctx e) c1 = (er, c2)" by fastforce
        have "holds c2 L" using r [OF _ c2] h None Some by simp
        then show ?thesis using Cons.IH t w None Some c2 by (cases er) (auto intro: leavesI)
      qed (use t w None h in \<open>auto intro: leavesI\<close>)
    qed (use Cons.IH t w h in \<open>cases oe; auto intro: leavesI\<close>)
  qed (use Cons in simp)
qed

lemma parent_of_leaves:
  assumes "holds c L" and "parent_of fs ctx args c = (r, c')"
  shows "case r of Inl err \<Rightarrow> leaves (size L) (err, c') | Inr (nxt, p) \<Rightarrow> holds c' (add_mset nxt L)"
proof (cases "length args = 1")
  case True
  show ?thesis
  proof (cases "toWalk (hd args) c")
    case (Inr t)
    obtain rel steps path where t: "toWalk (hd args) c = Inr (rel, steps, path)" using Inr by (metis surj_pair)
    obtain r1 c1 where w: "walk_to fs ctx rel (butlast steps) c = (r1, c1)" by fastforce
    note h = walk_to_holds(1) [OF assms(1) t _ w, simplified]
    show ?thesis
      using assms True t w h clunk_leaves [of c1 _ L "Some not_a_directory" "size L" ctx]
      by (cases r1) (force simp: parent_of_def leavesI split: option.splits if_splits prod.splits)+
  qed (use True assms in \<open>auto simp: parent_of_def intro!: leavesI\<close>)
qed (use assms in \<open>auto simp: parent_of_def intro!: leavesI\<close>)

lemma on_world_Create:
  assumes "holds c (add_mset e L)" and "on_world (de_Create fs ctx e name perm mode) c = ((oe, ofile, err), c')"
  shows "holds c' (add_mset (if err = None \<and> oe \<noteq> None then the oe else e) L)"
proof -
  note f = on_world_fields [OF assms(2)]
  have "held (cm_world c) (add_mset e (add_mset (cm_root c) (add_mset (cm_pwd c) L)))"
    using assms(1) by (simp add: holds_def add_mset_commute)
  from held_Create [OF this conjunct2 [OF conjunct2 [OF conjunct2 [OF f]]]] show ?thesis
    using f by (cases err; cases oe) (simp_all add: holds_def add_mset_commute)
qed

lemma cmdtouch_leaves:
  assumes "holds c L"
  shows "leaves (Suc (size L)) (cmdtouch fs ctx args c)"
proof -
  obtain r c1 where p: "parent_of fs ctx args c = (r, c1)" by fastforce
  note h = parent_of_leaves [OF assms p]
  show ?thesis
  proof (cases r)
    case (Inr np)
    obtain nxt q where np: "np = (nxt, q)" by fastforce
    obtain oe ofile err c2 where k: "on_world (de_Create fs ctx nxt q 0x1A4 OREAD) c1 = ((oe, ofile, err), c2)" by (metis surj_pair)
    have "holds c2 (add_mset (if err = None \<and> oe \<noteq> None then the oe else nxt) L)"
      using on_world_Create [OF _ k] h Inr np by simp
    then show ?thesis
      using p Inr np k clunk_leaves [of c2 _ L None "Suc (size L)" ctx]
      by (cases err; cases oe) (auto simp: cmdtouch_def intro: leavesI)
  qed (use p h in \<open>auto simp: cmdtouch_def intro: leaves_mono\<close>)
qed

lemma cmdmkdir_leaves:
  assumes "holds c L"
  shows "leaves (Suc (size L)) (cmdmkdir fs ctx args c)"
proof -
  obtain r c1 where p: "parent_of fs ctx args c = (r, c1)" by fastforce
  note h = parent_of_leaves [OF assms p]
  show ?thesis
  proof (cases r)
    case (Inr np)
    obtain nxt q where np: "np = (nxt, q)" by fastforce
    obtain oe ofile err c2 where k: "on_world (de_Create fs ctx nxt q (DMDIR OR 0x1A4) OREAD) c1 = ((oe, ofile, err), c2)"
      by (metis surj_pair)
    have h2: "holds c2 (add_mset (if err = None \<and> oe \<noteq> None then the oe else nxt) L)"
      using on_world_Create [OF _ k] h Inr np by simp
    have "leaves (Suc (size L)) (clunk fs ctx e (Some er, c2))" if "err = Some er" "oe = Some e" for e er
    proof -
      have "de_Clunk fs ctx e w = (Some nil_deref, w)" for w
        using Create_dead on_world_fields [OF k] that by blast
      then show ?thesis using h2 that by (auto simp: clunk_def on_world_def intro: leavesI)
    qed
    then show ?thesis
      using p Inr np k h2 by (cases err; cases oe) (auto simp: cmdmkdir_def intro: leavesI)
  qed (use p h in \<open>auto simp: cmdmkdir_def intro: leaves_mono\<close>)
qed

text \<open>Calls that leave the entries as they are.\<close>

lemma holds_held: "holds c (add_mset e L) \<longleftrightarrow> held (cm_world c) (add_mset e (add_mset (cm_root c) (add_mset (cm_pwd c) L)))"
  by (simp add: holds_def add_mset_commute)

lemma on_world_kept:
  "holds c (add_mset e L) \<Longrightarrow> on_world (de_Stat fs ctx e) c = (r1, c') \<Longrightarrow> holds c' (add_mset e L)"
  "holds c (add_mset e L) \<Longrightarrow> file_ent f = Some e \<Longrightarrow> on_world (fi_Read fs ctx f n offset) c = (r2, c') \<Longrightarrow> holds c' (add_mset e L)"
  "holds c (add_mset e L) \<Longrightarrow> file_ent f = Some e \<Longrightarrow> on_world (fi_Write fs ctx f b offset) c = (r3, c') \<Longrightarrow> holds c' (add_mset e L)"
  using held_Stat [of "cm_world c" e _ ctx] held_Read [of "cm_world c" e _ f ctx n offset] held_Write [of "cm_world c" e _ f ctx b offset]
  by (fastforce simp: holds_held dest!: on_world_fields)+

lemma on_world_Open:
  "holds c (add_mset e L) \<Longrightarrow> on_world (de_Open fs ctx e mode) c = ((ofile, err), c') \<Longrightarrow>
   holds c' (add_mset e L) \<and> (\<forall>f. ofile = Some f \<longrightarrow> file_ent f = Some e)"
  "holds c (add_mset e L) \<Longrightarrow> on_world (de_OpenDir fs ctx e) c = ((ord, err), c') \<Longrightarrow>
   holds c' (add_mset e L) \<and> (\<forall>rd. ord = Some rd \<longrightarrow> dir_ent rd (cm_world c') = Some e)"
  using held_Open [of "cm_world c" e _ ctx mode ofile err "cm_world c'"] held_OpenDir [of "cm_world c" e _ ctx ord err "cm_world c'"]
  by (auto simp: holds_held dest!: on_world_fields)

lemma on_world_Next:
  assumes "holds c (add_mset e L)" and "dir_ent rd (cm_world c) = Some e" and "on_world (rn_Next fs rd ctx) c = (r, c')"
  shows "holds c' (add_mset e L) \<and> dir_ent rd (cm_world c') = Some e"
  using held_Next [of "cm_world c" e _ rd ctx r "cm_world c'"] assms by (auto simp: holds_held dest!: on_world_fields)

lemma cat_file_holds:
  assumes "holds c (add_mset e L)" and "cat_file fs ctx e c = (err, c')"
  shows "holds c' (add_mset e L)"
proof -
  obtain ofile er c1 where o: "on_world (de_Open fs ctx e OREAD) c = ((ofile, er), c1)" by (metis surj_pair)
  note h = on_world_Open(1) [OF assms(1) o]
  show ?thesis
    using assms(2) h o by (auto simp: cat_file_def Let_def split: option.splits if_splits prod.splits dest: on_world_kept(2))
qed

lemma cmdcat_leaves:
  assumes "holds c L"
  shows "leaves (size L) (cmdcat fs ctx args c)"
proof (cases "length args \<le> 1")
  case True
  define p where "p = (case args of [] \<Rightarrow> ''/'' | p # _ \<Rightarrow> p)"
  show ?thesis
  proof (cases "toWalk p c")
    case (Inr t)
    obtain rel steps path where t: "toWalk p c = Inr (rel, steps, path)" using Inr by (metis surj_pair)
    obtain r c1 where w: "walk_to fs ctx rel steps c = (r, c1)" by fastforce
    note h = walk_to_holds(1) [OF assms t _ w, simplified]
    have "leaves (size L) (clunk fs ctx e (cat_file fs ctx e c1))" if "holds c1 (add_mset e L)" for e
      using clunk_leaves [OF cat_file_holds [OF that prod.collapse [symmetric], of ctx], of "fst (cat_file fs ctx e c1)" "size L" ctx]
      by simp
    then show ?thesis
      using True t w h by (cases r) (auto simp: cmdcat_def p_def [symmetric] leavesI split: option.splits)
  qed (use True assms in \<open>auto simp: cmdcat_def p_def intro!: leavesI\<close>)
qed (use assms in \<open>auto simp: cmdcat_def intro!: leavesI\<close>)

lemma write_loop_holds:
  assumes "write_loop fs ctx f b nwritten c = Some (err, c')" and "file_ent f = Some e" and "holds c (add_mset e L)"
  shows "holds c' (add_mset e L)"
  using loop_inv(1) [OF assms(1), where I = "\<lambda>c. holds c (add_mset e L)"] on_world_kept(3) assms(2,3) by blast

lemma cmdwrite_leaves:
  assumes "holds c L" and "cmdwrite fs ctx args c = Some r"
  shows "leaves (size L) r"
proof (cases args)
  case (Cons p texts)
  show ?thesis
  proof (cases "toWalk p c")
    case (Inr t)
    obtain rel steps path where t: "toWalk p c = Inr (rel, steps, path)" using Inr by (metis surj_pair)
    obtain r1 c1 where w: "walk_to fs ctx rel steps c = (r1, c1)" by fastforce
    note h = walk_to_holds(1) [OF assms(1) t _ w, simplified]
    show ?thesis
    proof (cases "r1 \<in> range Inl \<or> r1 = Inr None")
      case True
      then show ?thesis using assms(2) Cons t w h by (auto simp: cmdwrite_def intro: leavesI)
    next
      case False
      then obtain e where e: "r1 = Inr (Some e)" by (cases r1) auto
      obtain ofile er c2 where o: "on_world (de_Open fs ctx e OWRITE) c1 = ((ofile, er), c2)" by (metis surj_pair)
      note h2 = on_world_Open(1) [of c1 e L, OF _ o]
      show ?thesis
        using assms(2) Cons t w h e o h2 write_loop_holds clunk_leaves [of _ e L _ "size L" ctx]
        by (cases er; cases ofile) (auto simp: cmdwrite_def leavesI split: option.splits)
    qed
  qed (use assms Cons in \<open>auto simp: cmdwrite_def intro: leavesI\<close>)
qed (use assms in \<open>auto simp: cmdwrite_def intro: leavesI\<close>)

lemma ls_path_holds:
  assumes "holds c L" and "ls_path fs ctx p wr c = Some ((ret, ent), wr', c')"
  shows "holds c' (case ent of Some e \<Rightarrow> add_mset e L | None \<Rightarrow> L)"
proof (cases "toWalk p c")
  case (Inr t)
  obtain rel steps path where t: "toWalk p c = Inr (rel, steps, path)" using Inr by (metis surj_pair)
  obtain r1 c1 where w: "walk_to fs ctx rel steps c = (r1, c1)" by fastforce
  note h = walk_to_holds(1) [OF assms(1) t _ w, simplified]
  show ?thesis
  proof (cases "r1 \<in> range Inl \<or> r1 = Inr None")
    case True
    then show ?thesis using assms(2) t w h by (auto simp: ls_path_def)
  next
    case False
    then obtain e where e: "r1 = Inr (Some e)" by (cases r1) auto
    then have h1: "holds c1 (add_mset e L)" using h by simp
    obtain ord er c2 where o: "on_world (de_OpenDir fs ctx e) c1 = ((ord, er), c2)" by (metis surj_pair)
    note h2 = on_world_Open(2) [OF h1 o]
    have l: "holds c3 (add_mset e L)" if "ls_entries (rn_Next fs rd) ctx wr c2 = Some (er', wr'', c3)" "ord = Some rd" for rd er' wr'' c3
      using loop_inv(2) [OF that(1), where I = "\<lambda>c. holds c (add_mset e L) \<and> dir_ent rd (cm_world c) = Some e"] on_world_Next h2 that(2)
      by blast
    show ?thesis
      using assms(2) t w e o h2 l on_world_kept(1) [OF h1]
      by (cases "IsDir fs e (cm_world c1)"; cases er; cases ord) (auto simp: ls_path_def split: prod.splits sum.splits option.splits)
  qed
qed (use assms in \<open>auto simp: ls_path_def\<close>)

lemma ls_paths_holds:
  "holds c (mset ents + L) \<Longrightarrow> ls_paths fs ctx many ps ents wr c = Some (ret, ents', wr', c') \<Longrightarrow> holds c' (mset ents' + L)"
proof (induction ps arbitrary: ents wr c)
  case (Cons p ps)
  obtain ret1 ent wr2 c2 where p: "ls_path fs ctx p (if many then tw_print (OHeader p) wr else wr) c = Some ((ret1, ent), wr2, c2)"
    using Cons.prems(2) by (auto simp: Let_def split: option.splits)
  let ?ents = "case ent of Some e \<Rightarrow> e # ents | None \<Rightarrow> ents"
  have "holds c2 (mset ?ents + L)" using ls_path_holds [OF Cons.prems(1) p] by (cases ent) simp_all
  then show ?case using Cons.IH [of c2 ?ents] Cons.prems(2) p by (cases ret1) (auto simp: Let_def)
qed simp

lemma cmdls_leaves:
  assumes "holds c L" and "cmdls fs ctx args c = Some r"
  shows "leaves (size L) r"
proof -
  obtain ps where ps: "ps = (if 0 < length args then args else [[]])" by blast
  then obtain ret ents wr c1 where l: "ls_paths fs ctx (1 < length ps) ps [] \<lparr>tw_held = [], tw_written = []\<rparr> c = Some (ret, ents, wr, c1)"
    using assms(2) by (auto simp: cmdls_def Let_def split: option.splits)
  let ?c2 = "c1\<lparr>cm_out := cm_out c1 @ tw_written wr @ (if ret = None then tw_held wr else [])\<rparr>"
  have "holds ?c2 (mset ents + L)" using ls_paths_holds [of c "[]" L, OF _ l] assms(1) by (simp add: holds_def)
  then have "leaves (size L) (fold (clunk fs ctx) ents (case ret of Some err \<Rightarrow> err | None \<Rightarrow> None, ?c2))"
    by (rule clunks_leaves) simp
  then show ?thesis using assms(2) l ps by (simp add: cmdls_def Let_def)
qed

lemma run_command_leaves:
  assumes "holds c L" and "run_command fs ctx name args c = Some r"
  shows "leaves (size L + (if name = ''touch'' \<or> name = ''mkdir'' then 1 else 0)) r"
proof -
  have "leaves (size L) (cmdpwd args c)" using assms(1) by (auto simp: cmdpwd_def intro: leavesI)
  then show ?thesis
    using assms cmdcd_leaves cmdcat_leaves cmdrm_def rm_loop_leaves cmdtouch_leaves cmdmkdir_leaves cmdls_leaves cmdwrite_leaves leavesI
    by (auto simp: run_command_def cmdrm_def split: if_splits)
qed

lemma run_line_holds:
  assumes "holds c L" and "run_line fs ctx line c = Some (r, c')"
  shows "(\<exists>err. r = Crashed err) \<and> (\<exists>E. held (cm_world c') E) \<or> (\<exists>L'. holds c' L' \<and> size L' \<le> size L + (if makes line then 1 else 0))"
proof (cases "line = [] \<or> strings_Fields line = [] \<or> hd (strings_Fields line) = ''exit''")
  case True
  then have "c' = c" using assms(2) by (cases "line = []"; cases "strings_Fields line") (auto simp: run_line_def)
  then show ?thesis using assms(1) by auto
next
  case False
  then obtain name args where n: "strings_Fields line = name # args" "name \<noteq> ''exit''" by (cases "strings_Fields line") auto
  obtain err c1 where r: "run_command fs ctx name args c = Some (err, c1)"
    using assms(2) False n by (auto simp: run_line_def split: option.splits)
  have "leaves (size L + (if makes line then 1 else 0)) (err, c1)"
    using run_command_leaves [OF assms(1) r] n by (simp add: makes_def)
  then show ?thesis
    using assms(2) False n r by (cases err) (auto simp: run_line_def leaves_def split: if_splits)
qed

lemma run_lines_holds:
  "holds c L \<Longrightarrow> run_lines fs lines c = Some (r, c') \<Longrightarrow>
   (\<exists>err. r = Crashed err) \<and> (\<exists>E. held (cm_world c') E) \<or>
   (\<exists>L'. holds c' L' \<and> size L' \<le> size L + length (filter (makes \<circ> snd) lines))"
proof (induction lines arbitrary: c L)
  case Nil
  then show ?case by auto
next
  case (Cons l lines)
  obtain ctx line where l: "l = (ctx, line)" by fastforce
  obtain r1 c1 where r1: "run_line fs ctx line c = Some (r1, c1)" using Cons.prems(2) l by (auto split: option.splits)
  note h = run_line_holds [OF Cons.prems(1) r1]
  show ?case
  proof (cases r1)
    case Running
    then obtain L1 where L1: "holds c1 L1" "size L1 \<le> size L + (if makes line then 1 else 0)" using h by auto
    have "run_lines fs lines c1 = Some (r, c')" using Cons.prems(2) l r1 Running by simp
    from Cons.IH [OF L1(1) this] show ?thesis using L1(2) l by (fastforce split: if_splits)
  qed (use Cons.prems(2) l r1 h in \<open>auto split: if_splits intro: le_SucI trans_le_add1\<close>)
qed

lemma start_holds:
  assumes "held w {#}" and "start_commander fs ctx w = Inr c"
  shows "holds c {#}"
proof -
  obtain root w1 where 1: "fs_Attach fs ctx ''anonymous'' ''/'' None w = ((Some root, None), w1)"
    using assms(2) by (auto simp: start_commander_def split: prod.splits option.splits)
  then obtain qids pwd w2 where 2: "de_Walk fs ctx root [] w1 = ((qids, Some pwd, None), w2)"
    using assms(2) by (auto simp: start_commander_def split: prod.splits option.splits)
  have "normal []" using NormalizePath_normal [of "[]" 0] by (simp add: normal_def)
  from held_Walk [OF _ this 2, of "{#}"] held_Attach [OF assms(1) 1] show ?thesis
    using assms(2) 1 2 by (auto simp: start_commander_def holds_def add_mset_commute)
qed

end

section \<open>The fids of a log\<close>

text \<open>The fids that a call names, and those that are open after it.\<close>

fun used :: "log_line \<Rightarrow> Fid list" where
  "used (LAttach _ afid _ _ _) = (if afid = NOFID then [] else [afid])"
| "used (LClunk fid _) = [fid]"
| "used (LRemove fid _) = [fid]"
| "used (LWalk fid _ _ _) = [fid]"
| "used (LRead fid _ _ _ _) = [fid]"
| "used (LWrite fid _ _ _ _) = [fid]"
| "used (LOpen fid _ _) = [fid]"
| "used (LCreate fid _ _ _ _) = [fid]"
| "used (LStat fid _) = [fid]"
| "used (LWStat fid _ _) = [fid]"
| "used _ = []"

fun line_after :: "log_line \<Rightarrow> Fid set \<Rightarrow> Fid set" where
  "line_after (LAuth afid _ _ (Inr _)) F = insert afid F"
| "line_after (LAttach fid _ _ _ (Inr _)) F = insert fid F"
| "line_after (LWalk _ newfid names (Inr qids)) F = (if length qids = length names then insert newfid F else F)"
| "line_after (LClunk fid _) F = F - {fid}"
| "line_after (LRemove fid _) F = F - {fid}"
| "line_after _ F = F"

definition opened :: "log_line list \<Rightarrow> Fid set" where
  "opened log = fold line_after log {}"

text \<open>Every call names fids that are open, and asks for one that is not.\<close>

fun orderly :: "Fid set \<Rightarrow> log_line list \<Rightarrow> bool" where
  "orderly F [] \<longleftrightarrow> True"
| "orderly F (l # log) \<longleftrightarrow> set (used l) \<subseteq> F \<and> set (new_fid l) \<inter> F = {} \<and> orderly (line_after l F) log"

lemma orderly_snoc: "orderly F (log @ [l]) \<longleftrightarrow> orderly F log \<and> set (used l) \<subseteq> fold line_after log F \<and> set (new_fid l) \<inter> fold line_after log F = {}"
  by (induction log arbitrary: F) auto

lemma opened_snoc [simp]: "opened (log @ [l]) = line_after l (opened log)"
  by (simp add: opened_def)

abbreviation log_of :: "(log_line list \<times> 's) fsState \<Rightarrow> log_line list" where
  "log_of w \<equiv> fst (cs_session w)"

text \<open>Until the fids are used up, the calls are orderly and the fids of \<open>E\<close> are those that are open.\<close>

definition fids_held :: "(log_line list \<times> 's) fsState \<Rightarrow> cEnt multiset \<Rightarrow> bool" where
  "fids_held w E \<longleftrightarrow> 4294967295 \<le> length (asked w) \<or>
     orderly {} (log_of w) \<and> finite (opened (log_of w)) \<and> image_mset ce_fid E = mset_set (opened (log_of w)) \<and>
     (\<forall>e\<in>#E. ce_fs e) \<and> cs_nextfid w = word_of_nat (length (asked w)) \<and>
     (\<forall>fid\<in>opened (log_of w). unat fid \<le> length (asked w))"

lemma fids_held_dirs [simp]: "fids_held (w\<lparr>cs_dirs := d\<rparr>) E = fids_held w E"
  by (simp add: fids_held_def asked_def)

lemma held_open: "fids_held w (add_mset e E) \<Longrightarrow> 4294967295 \<le> length (asked w) \<or> ce_fid e \<in> opened (log_of w) \<and> ce_fs e"
  unfolding fids_held_def
  by (metis elem_mset_set image_mset_add_mset union_single_eq_member)

lemma quiet_held:
  assumes "fids_held w E" and "log_of w' = log_of w @ [l]" and "cs_nextfid w' = cs_nextfid w"
    and "set (used l) \<subseteq> ce_fid ` set_mset E" and "new_fid l = []" and "\<And>F. line_after l F = F"
  shows "fids_held w' E"
proof -
  have a: "asked w' = asked w" using assms(2,5) by (simp add: asked_def)
  have "set (used l) \<subseteq> opened (log_of w)" if "image_mset ce_fid E = mset_set (opened (log_of w))" "finite (opened (log_of w))"
    using arg_cong [OF that(1), of set_mset] that(2) assms(4) by simp
  then show ?thesis
    using assms a by (auto simp: fids_held_def orderly_snoc opened_def)
qed

lemma release_held:
  assumes "fids_held w (add_mset e E)" and "log_of w' = log_of w @ [l]" and "cs_nextfid w' = cs_nextfid w"
    and "used l = [ce_fid e]" and "new_fid l = []" and "\<And>F. line_after l F = F - {ce_fid e}"
  shows "fids_held w' E"
proof -
  have a: "asked w' = asked w" using assms(2,5) by (simp add: asked_def)
  note o = held_open [OF assms(1)]
  have "image_mset ce_fid E = mset_set (opened (log_of w) - {ce_fid e})"
    if "add_mset (ce_fid e) (image_mset ce_fid E) = mset_set (opened (log_of w))" "finite (opened (log_of w))" "ce_fid e \<in> opened (log_of w)"
    using that mset_set.remove [OF that(2,3)] by (metis add_mset_add_single union_single_eq_diff add_mset_remove_trivial)
  then show ?thesis
    using assms a o by (auto simp: fids_held_def orderly_snoc opened_def)
qed

lemma new_held:
  assumes "fids_held w E" and "log_of w' = log_of w @ [l]" and "cs_nextfid w' = cs_nextfid w + 1"
    and "set (used l) \<subseteq> ce_fid ` set_mset E" and "new_fid l = [cs_nextfid w + 1]"
    and "\<And>F. line_after l F = (if ok then insert (cs_nextfid w + 1) F else F)"
    and "ok \<Longrightarrow> ce_fid e = cs_nextfid w + 1 \<and> ce_fs e"
  shows "fids_held w' (if ok then add_mset e E else E)"
proof (cases "4294967294 \<le> length (asked w)")
  case True
  then show ?thesis using assms(2,5) by (simp add: fids_held_def asked_def)
next
  case False
  have a: "asked w' = asked w @ [cs_nextfid w + 1]" using assms(2,5) by (simp add: asked_def)
  have h: "orderly {} (log_of w)" "finite (opened (log_of w))" "image_mset ce_fid E = mset_set (opened (log_of w))"
    "\<forall>e\<in>#E. ce_fs e" "cs_nextfid w = word_of_nat (length (asked w))" "\<forall>fid\<in>opened (log_of w). unat fid \<le> length (asked w)"
    using assms(1) False by (auto simp: fids_held_def)
  have n: "cs_nextfid w + 1 = word_of_nat (Suc (length (asked w)))" using h(5) by simp
  have u: "unat (cs_nextfid w + 1) = Suc (length (asked w))" unfolding n using False by (simp add: unat_of_nat take_bit_nat_eq_self del: of_nat_Suc)
  have f: "cs_nextfid w + 1 \<notin> opened (log_of w)" using h(6) u by force
  have "set (used l) \<subseteq> opened (log_of w)" using arg_cong [OF h(3), of set_mset] h(2) assms(4) by simp
  then have "orderly {} (log_of w')" using h(1) f assms(2,5) by (simp add: orderly_snoc opened_def)
  moreover have "opened (log_of w') = (if ok then insert (cs_nextfid w + 1) (opened (log_of w)) else opened (log_of w))"
    using assms(2,6) by simp
  ultimately show ?thesis
    using h f u n a assms(3,7) by (auto simp: fids_held_def)
qed

lemma call_log: "call (logged f line) w = (r, w') \<Longrightarrow> log_of w' = log_of w @ [line r] \<and> cs_nextfid w' = cs_nextfid w \<and> cs_dirs w' = cs_dirs w"
  by (auto simp: call_def logged_def split: prod.splits)

lemma NewLogger_calls:
  "call (ss_Attach (NewLogger sess) ctx fid afid uname aname) w = (r0, w') \<Longrightarrow>
     log_of w' = log_of w @ [LAttach fid afid uname aname r0] \<and> cs_nextfid w' = cs_nextfid w \<and> cs_dirs w' = cs_dirs w"
  "call (ss_Walk (NewLogger sess) ctx fid newfid names) w = (r1, w') \<Longrightarrow>
     log_of w' = log_of w @ [LWalk fid newfid names r1] \<and> cs_nextfid w' = cs_nextfid w \<and> cs_dirs w' = cs_dirs w"
  "call (ss_Clunk (NewLogger sess) ctx fid) w = (r2, w') \<Longrightarrow>
     log_of w' = log_of w @ [LClunk fid r2] \<and> cs_nextfid w' = cs_nextfid w \<and> cs_dirs w' = cs_dirs w"
  "call (ss_Remove (NewLogger sess) ctx fid) w = (r3, w') \<Longrightarrow>
     log_of w' = log_of w @ [LRemove fid r3] \<and> cs_nextfid w' = cs_nextfid w \<and> cs_dirs w' = cs_dirs w"
  "call (ss_Open (NewLogger sess) ctx fid mode) w = (r4, w') \<Longrightarrow>
     log_of w' = log_of w @ [LOpen fid mode r4] \<and> cs_nextfid w' = cs_nextfid w \<and> cs_dirs w' = cs_dirs w"
  "call (ss_Create (NewLogger sess) ctx fid name perm mode) w = (r5, w') \<Longrightarrow>
     log_of w' = log_of w @ [LCreate fid name perm mode r5] \<and> cs_nextfid w' = cs_nextfid w \<and> cs_dirs w' = cs_dirs w"
  "call (ss_Stat (NewLogger sess) ctx fid) w = (r6, w') \<Longrightarrow>
     log_of w' = log_of w @ [LStat fid r6] \<and> cs_nextfid w' = cs_nextfid w \<and> cs_dirs w' = cs_dirs w"
  "call (ss_Read (NewLogger sess) ctx fid n offset) w = (r7, w') \<Longrightarrow>
     log_of w' = log_of w @ [LRead fid n offset (length (fst r7)) (snd r7)] \<and> cs_nextfid w' = cs_nextfid w \<and> cs_dirs w' = cs_dirs w"
  "call (ss_Write (NewLogger sess) ctx fid p offset) w = (r8, w') \<Longrightarrow>
     log_of w' = log_of w @ [LWrite fid (length p) offset (fst r8) (snd r8)] \<and> cs_nextfid w' = cs_nextfid w \<and> cs_dirs w' = cs_dirs w"
  "call (ss_Version (NewLogger sess)) w = (r9, w') \<Longrightarrow>
     log_of w' = log_of w @ [LVersion (fst r9) (snd r9)] \<and> cs_nextfid w' = cs_nextfid w \<and> cs_dirs w' = cs_dirs w"
  by (auto simp: NewLogger_def dest!: call_log split: prod.splits)

text \<open>The entry of a file, and of an open directory.\<close>

definition cFile_ent :: "cFile \<Rightarrow> cEnt option" where
  "cFile_ent f = (case f of FileRef ent _ \<Rightarrow> Some ent | AFile _ _ \<Rightarrow> None)"

definition openDir_ent :: "nat \<Rightarrow> 's fsState \<Rightarrow> cEnt option" where
  "openDir_ent i w = (if i < length (cs_dirs w) then Some (od_fileRef (cs_dirs w ! i)) else None)"

lemma file_iounit_held: "fids_held w E \<Longrightarrow> file_iounit (NewLogger sess) iounit w = (iou, w') \<Longrightarrow> fids_held w' E"
  by (auto simp: file_iounit_def split: if_splits prod.splits dest!: NewLogger_calls intro: quiet_held)

lemma cEnt_Open_held:
  assumes "fids_held w (add_mset e E)" and "cEnt_Open (NewLogger sess) ctx e mode w = ((ofile, err), w')"
  shows "fids_held w' (add_mset e E)" and "ofile = Some f \<Longrightarrow> cFile_ent f = Some e"
proof -
  obtain r w1 iou w2 where o: "call (ss_Open (NewLogger sess) ctx (ce_fid e) mode) w = (r, w1)"
    and i: "file_iounit (NewLogger sess) (case r of Inl _ \<Rightarrow> 0 | Inr (_, iounit) \<Rightarrow> iounit) w1 = (iou, w2)" by fastforce
  have "fids_held w1 (add_mset e E)" using assms(1) by (rule quiet_held) (use NewLogger_calls(5) [OF o] in auto)
  from file_iounit_held [OF this i] show "fids_held w' (add_mset e E)"
    using assms o i by (auto simp: cEnt_Open_def split: if_splits)
  show "ofile = Some f \<Longrightarrow> cFile_ent f = Some e"
    using assms o i by (auto simp: cEnt_Open_def cFile_ent_def split: if_splits)
qed

lemma cFile_Read_held:
  assumes "fids_held w (add_mset e E)" and "cFile_ent f = Some e" and "cFile_Read (NewLogger sess) ctx f n offset w = (r, w')"
  shows "fids_held w' (add_mset e E)" and "cs_dirs w' = cs_dirs w"
proof -
  obtain iou where f: "f = FileRef e iou" using assms(2) by (auto simp: cFile_ent_def split: cFile.splits)
  obtain r1 w1 where c: "call (ss_Read (NewLogger sess) ctx (ce_fid e) n offset) w = (r1, w1)" by fastforce
  have "fids_held w1 (add_mset e E)" using assms(1) by (rule quiet_held) (use NewLogger_calls(8) [OF c] in auto)
  then show "fids_held w' (add_mset e E)" and "cs_dirs w' = cs_dirs w"
    using assms(1,3) f c NewLogger_calls(8) [OF c] by (auto simp: cFile_Read_def split: if_splits)
qed

lemma cFile_Write_held:
  assumes "fids_held w (add_mset e E)" and "cFile_ent f = Some e"
  shows "fids_held (snd (cFile_Write (NewLogger sess) ctx f p offset w)) (add_mset e E)"
proof -
  obtain iou where f: "f = FileRef e iou" using assms(2) by (auto simp: cFile_ent_def split: cFile.splits)
  obtain r w1 where w: "call (ss_Write (NewLogger sess) ctx (ce_fid e) p offset) w = (r, w1)" by fastforce
  have "fids_held w1 (add_mset e E)" using assms(1) by (rule quiet_held) (use NewLogger_calls(9) [OF w] in auto)
  then show ?thesis using assms(1) f w by (simp add: cFile_Write_def)
qed

lemma cEnt_released:
  assumes "fids_held w (add_mset e E)"
  shows "fids_held (snd (cEnt_Clunk (NewLogger sess) ctx e w)) E" and "fids_held (snd (cEnt_Remove (NewLogger sess) ctx e w)) E"
proof -
  obtain r1 w1 r2 w2 where 1: "call (ss_Clunk (NewLogger sess) ctx (ce_fid e)) w = (r1, w1)"
    and 2: "call (ss_Remove (NewLogger sess) ctx (ce_fid e)) w = (r2, w2)" by fastforce
  have "fids_held w1 E" using assms by (rule release_held) (use NewLogger_calls(3) [OF 1] in auto)
  moreover have "fids_held w2 E" using assms by (rule release_held) (use NewLogger_calls(4) [OF 2] in auto)
  moreover have "fids_held w E" if "\<not> ce_fs e" using held_open [OF assms] that by (auto simp: fids_held_def)
  ultimately show "fids_held (snd (cEnt_Clunk (NewLogger sess) ctx e w)) E" and "fids_held (snd (cEnt_Remove (NewLogger sess) ctx e w)) E"
    using 1 2 by (simp_all add: cEnt_Clunk_def cEnt_Remove_def)
qed

lemma cEnt_Walk_held:
  assumes "fids_held w (add_mset e E)" and "normal names" and "cEnt_Walk (NewLogger sess) ctx e names w = ((qids, oe, err), w')"
  shows "fids_held w' (if err = None \<and> oe \<noteq> None then add_mset (the oe) (add_mset e E) else add_mset e E)"
proof -
  obtain b where n: "NormalizePath names = (names, b)" using assms(2) by (metis normal_def prod.collapse)
  let ?w1 = "w\<lparr>cs_nextfid := cs_nextfid w + 1\<rparr>"
  let ?nxt = "\<lparr>ce_fid = cs_nextfid w + 1, ce_qid = zero_Qid, ce_fs = True\<rparr>"
  obtain r w2 where c: "call (ss_Walk (NewLogger sess) ctx (ce_fid e) (cs_nextfid w + 1) names) ?w1 = (r, w2)" by fastforce
  note l = NewLogger_calls(2) [OF c]
  define ok where "ok = (case r of Inl _ \<Rightarrow> False | Inr qids \<Rightarrow> length qids = length names)"
  show ?thesis
  proof (cases "b < 0 \<or> \<not> ce_fs e")
    case True
    then show ?thesis using assms(1,3) n by (auto simp: cEnt_Walk_def split: if_splits)
  next
    case False
    have "fids_held w2 (if ok then add_mset (the oe) (add_mset e E) else add_mset e E)"
    proof (rule new_held [OF assms(1)])
      show "ok \<Longrightarrow> ce_fid (the oe) = cs_nextfid w + 1 \<and> ce_fs (the oe)"
        using assms(3) n False c
        by (auto simp: ok_def cEnt_Walk_def newEnt_def newFid_def split: sum.splits if_splits)
    qed (use l in \<open>auto simp: ok_def split: sum.splits\<close>)
    moreover have "w' = w2" "(err = None \<and> oe \<noteq> None) = ok"
      using assms(3) n False c by (auto simp: ok_def cEnt_Walk_def newEnt_def newFid_def split: sum.splits if_splits)
    ultimately show ?thesis by simp
  qed
qed

lemma cfs_Attach_held:
  assumes "fids_held w E" and "cfs_Attach (NewLogger sess) ctx uname aname None w = ((oe, err), w')"
  shows "fids_held w' (if err = None \<and> oe \<noteq> None then add_mset (the oe) E else E)"
proof -
  let ?w1 = "w\<lparr>cs_nextfid := cs_nextfid w + 1\<rparr>"
  obtain r w2 where c: "call (ss_Attach (NewLogger sess) ctx (cs_nextfid w + 1) NOFID uname aname) ?w1 = (r, w2)" by fastforce
  define ok where "ok = (case r of Inl _ \<Rightarrow> False | Inr _ \<Rightarrow> True)"
  have r: "w' = w2" "(err = None \<and> oe \<noteq> None) = ok" "ok \<Longrightarrow> ce_fid (the oe) = cs_nextfid w + 1 \<and> ce_fs (the oe)"
    using assms(2) c by (auto simp: ok_def cfs_Attach_def newFid_def split: sum.splits)
  have "fids_held w2 (if ok then add_mset (the oe) E else E)"
    by (rule new_held [OF assms(1)]) (use NewLogger_calls(1) [OF c] r(3) in \<open>auto simp: ok_def split: sum.splits\<close>)
  then show ?thesis using r by simp
qed

lemma cEnt_Create_held:
  assumes "fids_held w (add_mset e E)" and "cEnt_Create (NewLogger sess) ctx e name perm mode w = ((oe, ofile, err), w')"
  shows "fids_held w' (if err = None \<and> oe \<noteq> None then add_mset (the oe) E else add_mset e E)"
proof -
  obtain r w1 where c: "call (ss_Create (NewLogger sess) ctx (ce_fid e) name perm mode) w = (r, w1)" by fastforce
  have h1: "fids_held w1 (add_mset e E)" using assms(1) by (rule quiet_held) (use NewLogger_calls(6) [OF c] in auto)
  then have "fids_held w1 (add_mset (e\<lparr>ce_qid := q\<rparr>) E)" for q by (simp add: fids_held_def)
  note i = file_iounit_held [OF this]
  show ?thesis
    using assms c h1 by (auto simp: cEnt_Create_def Let_def split: if_splits sum.splits prod.splits intro: i)
qed

lemma cEnt_OpenDir_held:
  assumes "fids_held w (add_mset e E)" and "cEnt_OpenDir (NewLogger sess) ctx e w = ((ord, err), w')"
  shows "fids_held w' (add_mset e E) \<and> (\<forall>rd. ord = Some rd \<longrightarrow> openDir_ent rd w' = Some e)"
proof -
  obtain ofile er w1 where o: "cEnt_Open (NewLogger sess) ctx e OREAD w = ((ofile, er), w1)" by (metis surj_pair)
  note h = cEnt_Open_held [OF assms(1) o]
  show ?thesis
    using assms(2) o h
    by (auto simp: cEnt_OpenDir_def openDir_ent_def cFile_ent_def split: if_splits option.splits cFile.splits)
qed

lemma openDir_Next_held:
  assumes "fids_held w (add_mset e E)" and "openDir_ent i w = Some e" and "openDir_Next (NewLogger sess) i ctx w = (r, w')"
  shows "fids_held w' (add_mset e E) \<and> openDir_ent i w' = Some e"
proof -
  let ?dir = "cs_dirs w ! i"
  obtain p er w1 where c: "cFile_Read (NewLogger sess) ctx (FileRef (od_fileRef ?dir) 0) (od_buf ?dir) (od_nread ?dir) w = ((p, er), w1)"
    by (metis surj_pair)
  have d: "i < length (cs_dirs w)" "od_fileRef ?dir = e" using assms(2) by (auto simp: openDir_ent_def split: if_splits)
  note h = cFile_Read_held [OF assms(1) _ c]
  let ?upd = "\<lambda>dir. w1\<lparr>cs_dirs := (cs_dirs w1)[i := dir]\<rparr>"
  let ?dir1 = "?dir\<lparr>od_nread := od_nread ?dir + int (length p)\<rparr>"
  have "w' \<in> {w, w1, ?upd (?dir\<lparr>od_done := True\<rparr>), ?upd ?dir1, ?upd (?dir1\<lparr>od_done := True\<rparr>)}"
    using assms(3) c by (auto simp: openDir_Next_def Let_def split: if_splits option.splits prod.splits)
  then show ?thesis using assms(1,2) h d by (elim insertE) (simp_all add: cFile_ent_def openDir_ent_def)
qed

interpretation shell: entry_holder "cfs (NewLogger sess)" fids_held cFile_ent openDir_ent for sess
proof (unfold_locales, goal_cases)
  case (1 w E ctx uname aname oe err w')
  show ?case by (rule cfs_Attach_held [OF 1(1)]) (use 1 in \<open>simp add: cfs_def\<close>)
next
  case (2 w e E names ctx qids oe err w')
  show ?case by (rule cEnt_Walk_held [OF 2(1,2)]) (use 2 in \<open>simp add: cfs_def\<close>)
next
  case (3 ctx e names w qids oe w')
  then show ?case by (auto simp: cfs_def cEnt_Walk_def split: prod.splits sum.splits if_splits)
next
  case (4 w e E ctx name perm mode oe ofile err w')
  show ?case by (rule cEnt_Create_held [OF 4(1)]) (use 4 in \<open>simp add: cfs_def\<close>)
next
  case (5 ctx e name perm mode w e' ofile er w' ctx' w'')
  then have "e' = noEnt" by (auto simp: cfs_def cEnt_Create_def Let_def split: prod.splits sum.splits if_splits)
  then show ?case by (simp add: cfs_def cEnt_Clunk_def noEnt_def)
next
  case (8 w e E ctx)
  obtain r w1 where c: "call (ss_Stat (NewLogger sess) ctx (ce_fid e)) w = (r, w1)" by fastforce
  have "fids_held w1 (add_mset e E)" using 8 by (rule quiet_held) (use NewLogger_calls(7) [OF c] in auto)
  then show ?case using 8 c by (simp add: cfs_def cEnt_Stat_def)
next
  case (9 w e E ctx mode ofile err w')
  then show ?case using cEnt_Open_held by (simp add: cfs_def) blast
next
  case (10 w e E f ctx n offset)
  then show ?case using cFile_Read_held(1) [OF 10 prod.collapse [symmetric]] by (simp add: cfs_def)
next
  case (13 w e E rd ctx r w')
  then show ?case using openDir_Next_held by (simp add: cfs_def)
qed (simp_all add: cfs_def cEnt_released cFile_Write_held cEnt_OpenDir_held)

section \<open>Properties\<close>

text \<open>
  C15: whatever lines the user types, the interactive client never names a fid that is not open: none after
  it has been clunked or removed, and none twice.  While it runs, the root and the working directory are
  open under fids of their own, and besides them no more than one fid for each line that is a
  \<open>touch\<close> or a \<open>mkdir\<close>; the other commands leave none behind.  This is so over any session, until the
  fids of 32 bits are used up.
\<close>

theorem commander_fids:
  assumes "start_commander (cfs (NewLogger sess)) ctx (CFileSys ([], st)) = Inr c0"
    and "run_lines (cfs (NewLogger sess)) lines c0 = Some (r, c)" and "length (asked (cm_world c)) < 4294967295"
  shows "orderly {} (log_of (cm_world c)) \<and>
    (case r of Crashed _ \<Rightarrow> True
     | _ \<Rightarrow> {ce_fid (cm_root c), ce_fid (cm_pwd c)} \<subseteq> opened (log_of (cm_world c)) \<and> ce_fid (cm_root c) \<noteq> ce_fid (cm_pwd c) \<and>
           card (opened (log_of (cm_world c))) \<le> 2 + length (filter (makes \<circ> snd) lines))"
proof -
  have "fids_held (CFileSys ([], st)) {#}" by (simp add: fids_held_def CFileSys_def asked_def opened_def)
  from shell.run_lines_holds [OF shell.start_holds [OF this assms(1)] assms(2)] show ?thesis
  proof (elim disjE conjE exE)
    fix err E
    assume "r = Crashed err" "fids_held (cm_world c) E"
    then show ?thesis using assms(3) by (simp add: fids_held_def)
  next
    fix L
    assume h: "shell.holds c L" and s: "size L \<le> size {#} + length (filter (makes \<circ> snd) lines)"
    let ?E = "add_mset (cm_root c) (add_mset (cm_pwd c) L)" and ?F = "opened (log_of (cm_world c))"
    have f: "finite ?F" "image_mset ce_fid ?E = mset_set ?F" "orderly {} (log_of (cm_world c))"
      using h assms(3) by (simp_all add: shell.holds_def fids_held_def)
    have "card ?F = size ?E" using f(2) by (metis size_image_mset size_mset_set)
    moreover have "{ce_fid (cm_root c), ce_fid (cm_pwd c)} \<subseteq> ?F" using arg_cong [OF f(2), of set_mset] f(1) by simp blast
    moreover have "ce_fid (cm_root c) \<noteq> ce_fid (cm_pwd c)"
    proof
      assume "ce_fid (cm_root c) = ce_fid (cm_pwd c)"
      then have "2 \<le> count (image_mset ce_fid ?E) (ce_fid (cm_root c))" by simp
      moreover have "count (image_mset ce_fid ?E) (ce_fid (cm_root c)) \<le> 1" unfolding f(2) by (simp add: count_mset_set')
      ultimately show False by linarith
    qed
    ultimately show ?thesis using f(3) s by (simp split: after_line.split)
  qed
qed

text \<open>A session in which every name is a directory; what it is asked to make is refused for one name.\<close>

definition sample_sess :: "unit Session" where
  "sample_sess =
     (let q = \<lparr>q_Type = QTDIR, q_Version = 0, q_Path = 0\<rparr> in
      \<lparr>ss_Auth = (\<lambda>ctx afid uname aname st. (Inl (Rerr ''no auth''), st)), ss_Attach = (\<lambda>ctx fid afid uname aname st. (Inr q, st)),
       ss_Clunk = (\<lambda>ctx fid st. (None, st)), ss_Remove = (\<lambda>ctx fid st. (None, st)),
       ss_Walk = (\<lambda>ctx fid newfid names st. (Inr (replicate (length names) q), st)),
       ss_Read = (\<lambda>ctx fid n offset st. (([], None), st)), ss_Write = (\<lambda>ctx fid p offset st. ((int (length p), None), st)),
       ss_Open = (\<lambda>ctx fid mode st. (Inr (q, 10), st)),
       ss_Create = (\<lambda>ctx fid name perm mode st. (if name = ''x'' then Inl ErrPerm else Inr (q, 10), st)),
       ss_Stat = (\<lambda>ctx fid st. (Inl ErrPerm, st)), ss_WStat = (\<lambda>ctx fid dir st. (Some ErrPerm, st)),
       ss_Version = (\<lambda>st. ((100, DefaultVersion), st)), ss_Stop = (\<lambda>err st. (err, st))\<rparr>)"

definition sample_shell :: "((log_line list \<times> unit) fsState, cEnt) fsCommander" where
  "sample_shell = projr (start_commander (cfs (NewLogger sample_sess)) None (CFileSys ([], ())))"

definition sample_lines :: "(Context \<times> string) list" where
  "sample_lines = [(None, ''cd d''), (None, ''touch x''), (None, ''cat f''), (None, ''mkdir y''), (None, ''ls'')]"

theorem commander_fids_witness:
  "\<exists>c. run_lines (cfs (NewLogger sample_sess)) sample_lines sample_shell = Some (Running, c) \<and>
     orderly {} (log_of (cm_world c)) \<and> card (opened (log_of (cm_world c))) \<le> 4"
proof -
  have "\<not> isl (start_commander (cfs (NewLogger sample_sess)) None (CFileSys ([], ())))" by code_simp
  then have 1: "start_commander (cfs (NewLogger sample_sess)) None (CFileSys ([], ())) = Inr sample_shell"
    by (simp add: sample_shell_def)
  have "map_option (\<lambda>(r, c). (r, length (asked (cm_world c)))) (run_lines (cfs (NewLogger sample_sess)) sample_lines sample_shell) =
      Some (Running, 7)"
    by code_simp
  then obtain c where 2: "run_lines (cfs (NewLogger sample_sess)) sample_lines sample_shell = Some (Running, c)"
    and 3: "length (asked (cm_world c)) < 4294967295" by auto
  have "length (filter (makes \<circ> snd) sample_lines) = 2" by code_simp
  then show ?thesis using commander_fids [OF 1 2 3] 2 by simp
qed

text \<open>
  C22: after a \<open>cd\<close> that succeeds, the path that is shown and the working directory are reached by the same
  steps: the path is again an internal one, made of the elements that the argument leads to from the
  root or from the old path; the new entry is a directory, a walk by these steps has given it, and the
  old one has been clunked.  An argument that \<open>ToWalk\<close> refuses has no steps, and leads to the root or back to
  where it was.
\<close>

theorem cd_tracks_path:
  assumes "cm_path c = internal es" and "list_all good_name es" and "cmdcd (cfs sess) ctx [p] c = (None, c')"
    and "steps = (case snd (ToWalk p) of Inl _ \<Rightarrow> [] | Inr steps \<Rightarrow> steps)"
    and "(rel, base) = (if path_IsAbs p then (cm_root c, []) else (cm_pwd c, es))"
  shows "cm_path c' = internal (fold walk_step steps base) \<and> list_all good_name (fold walk_step steps base) \<and>
    (\<forall>st. snd (ToWalk p) = Inr st \<longrightarrow> fold walk_step steps base = fold walk_step (strings_Split CHR ''/'' p) base) \<and>
    cEnt_IsDir (cm_pwd c') \<and>
    (\<exists>qids w1. cEnt_Walk sess ctx rel steps (cm_world c) = ((qids, Some (cm_pwd c'), None), w1) \<and> length qids = length steps \<and>
       cm_world c' = snd (cEnt_Clunk sess ctx (cm_pwd c) w1))"
proof -
  have a: "fst (ToWalk p) = path_IsAbs p" by (simp add: ToWalk_def Let_def split: prod.split)
  have base: "list_all good_name base" "internal base = (if path_IsAbs p then ''/'' else cm_path c)" "rel = (if path_IsAbs p then cm_root c else cm_pwd c)"
    using assms(1,2,5) by (auto simp: internal_def split: if_splits)
  have t: "toWalk p c = (case WalkName (internal base) steps of Inl err \<Rightarrow> Inl err | Inr path \<Rightarrow> Inr (rel, steps, path))"
    using a assms(4) base(2,3) by (cases "ToWalk p") (auto simp: toWalk_def Let_def split: sum.split)
  have "\<exists>path. WalkName (internal base) steps = Inr path"
    using assms(3) t by (cases "WalkName (internal base) steps") (simp_all add: cmdcd_def)
  then have v: "0 \<le> ValidPath steps \<and> ValidPath steps \<le> int (length base)" using WalkName_refused [OF base(1)] by fastforce
  note n = WalkName_walk [OF base(1) v]
  obtain qids oe err w1 where w: "cEnt_Walk sess ctx rel steps (cm_world c) = ((qids, oe, err), w1)" by (metis surj_pair)
  have l: "length qids = length steps" if "err = None"
    using w that by (auto simp: cEnt_Walk_def split: prod.splits sum.splits if_splits)
  let ?fs = "cfs sess" and ?c1 = "c\<lparr>cm_world := w1\<rparr>"
  have wt: "walk_to ?fs ctx rel steps c = (if err = None then Inr oe else Inl err, ?c1)"
    using w l by (auto simp: walk_to_def on_world_def cfs_def)
  have ndir: "clunk ?fs ctx e (Some not_a_directory, c1) \<noteq> (None, c')" for e c1
    by (auto simp: clunk_def split: prod.splits)
  have e: "err = None" using assms(3) t n wt by (cases err) (simp_all add: cmdcd_def)
  then obtain nxt where o: "oe = Some nxt" using assms(3) t n wt by (cases oe) (simp_all add: cmdcd_def)
  have d: "IsDir ?fs nxt w1" using assms(3) t n wt e o ndir by (auto simp: cmdcd_def split: if_splits)
  obtain r w2 where k: "cEnt_Clunk sess ctx (cm_pwd c) w1 = (r, w2)" by fastforce
  have "on_world (de_Clunk ?fs ctx (cm_pwd c)) ?c1 = (r, ?c1\<lparr>cm_world := w2\<rparr>)" using k by (simp add: on_world_def cfs_def)
  then have "c' = ?c1\<lparr>cm_world := w2, cm_pwd := nxt, cm_path := internal (fold walk_step steps base)\<rparr>"
    using assms(3) t n wt e o d by (auto simp: cmdcd_def split: if_splits)
  then have r: "cm_path c' = internal (fold walk_step steps base) \<and> err = None \<and> length qids = length steps \<and> oe = Some (cm_pwd c') \<and>
      cEnt_IsDir (cm_pwd c') \<and> cm_world c' = snd (cEnt_Clunk sess ctx (cm_pwd c) w1)"
    using e o l d k by (simp add: IsDir_def cEnt_IsDir_def cfs_def)
  have "fold walk_step steps base = fold walk_step (strings_Split CHR ''/'' p) base" if "snd (ToWalk p) = Inr st" for st
  proof -
    let ?args = "strings_Split CHR ''/'' (strings_Trim p CHR ''/'')"
    have "fst (NormalizePath ?args) = steps \<and> 0 \<le> snd (NormalizePath ?args)"
      using that assms(4) by (auto simp: ToWalk_def Let_def split: prod.splits if_splits)
    then show ?thesis
      by (cases rule: NormalizePath_cases [of ?args]) (auto simp: walk_trim simp del: fold_append)
  qed
  then show ?thesis using r w walk_good_names [OF base(1)] v by simp
qed

theorem cd_tracks_path_witness:
  "cm_path (snd (cmdcd (cfs (NewLogger sample_sess)) None [''../b/./c''] (sample_shell\<lparr>cm_path := ''/a''\<rparr>))) =
     internal (fold walk_step [''..'', ''b'', ''c''] [''a''])"
proof -
  let ?c = "sample_shell\<lparr>cm_path := ''/a''\<rparr>" and ?p = "''../b/./c''"
  have "fst (cmdcd (cfs (NewLogger sample_sess)) None [?p] ?c) = None" by code_simp
  then have c: "cmdcd (cfs (NewLogger sample_sess)) None [?p] ?c = (None, snd (cmdcd (cfs (NewLogger sample_sess)) None [?p] ?c))"
    by (simp add: prod_eq_iff)
  have s: "[''..'', ''b'', ''c''] = (case snd (ToWalk ?p) of Inl _ \<Rightarrow> [] | Inr steps \<Rightarrow> steps)" by code_simp
  show ?thesis using cd_tracks_path [OF _ _ c s, of "[''a'']" "cm_pwd ?c" "[''a'']"]
    by (simp add: internal_def good_name_def path_IsAbs_def)
qed

text \<open>
  C39: \<open>write\<close> ends on every session of a client, whatever its server answers: the loop sends the bytes with one
  \<open>Twrite\<close>, an answer that acknowledges fewer is an error, and one that acknowledges more is a panic.
\<close>

theorem write_once:
  "(\<exists>r. cmdwrite (cfs (client_session cl)) ctx args c = Some r) \<and>
   write_loop (cfs (client_session cl)) ctx f b k c =
     Some (if b = [] then (None, c)
           else (case on_world (cFile_Write (client_session cl) ctx f b k) c of
                   ((n, err), c1) \<Rightarrow>
                     (if err = None \<and> int (length b) < n then Some (Panic ''slice bounds out of range'') else err, c1)))"
proof -
  have w: "write_loop (cfs (client_session cl)) ctx f b k c =
     Some (if b = [] then (None, c)
           else (case on_world (cFile_Write (client_session cl) ctx f b k) c of
                   ((n, err), c1) \<Rightarrow>
                     (if err = None \<and> int (length b) < n then Some (Panic ''slice bounds out of range'') else err, c1)))" for f b k c
  proof (cases "b = []")
    case False
    obtain n err c1 where o: "on_world (cFile_Write (client_session cl) ctx f b k) c = ((n, err), c1)" by (metis surj_pair)
    then have "cFile_Write (client_session cl) ctx f b k (cm_world c) = ((n, err), cm_world c1)"
      by (auto simp: on_world_def split: prod.splits)
    then have "err = None \<Longrightarrow> int (length b) \<le> n"
      by (auto simp: cFile_Write_def call_def client_session_def client_Write_def
          split: cFile.splits if_splits prod.splits sum.splits Message.splits)
    then show ?thesis
      using False o by (cases err) (auto simp: write_loop.simps [of _ _ _ b] write_loop.simps [of _ _ _ "[]"] cfs_def)
  qed (simp add: write_loop.simps)
  then show ?thesis
    by (auto simp: cmdwrite_def split: list.splits sum.splits prod.splits option.splits)
qed

text \<open>
  C40: a path that \<open>ToWalk\<close> refuses, such as one with a backslash in it, is not refused by \<open>rm\<close>, because
  \<open>toWalk\<close> overwrites the error: it removes a clone of the working directory, or of the root for an absolute
  path, and reports success.
\<close>

theorem rm_bad_path:
  assumes "snd (ToWalk p) = Inl e" and "cm_path c = internal es" and "list_all good_name es"
    and "rel = (if path_IsAbs p then cm_root c else cm_pwd c)"
    and "de_Walk fs ctx rel [] (cm_world c) = ((qids, Some ent, None), w1)" and "de_Remove fs ctx ent w1 = (None, w2)"
  shows "cmdrm fs ctx [p] c = (None, c\<lparr>cm_world := w2\<rparr>)"
proof -
  have a: "ToWalk p = (path_IsAbs p, Inl e)"
    using assms(1) by (cases "ToWalk p") (auto simp: ToWalk_def Let_def split: prod.splits if_splits)
  have v: "ValidPath [] = 0" by (simp add: ValidPath_def)
  have "WalkName ''/'' [] = Inr (internal [])" "WalkName (cm_path c) [] = Inr (cm_path c)"
    using WalkName_walk [of "[]" "[]"] WalkName_walk [OF assms(3), of "[]"] v assms(2) by (simp_all add: internal_def)
  then have "\<exists>path. toWalk p c = Inr (rel, [], path)" using a assms(4) by (simp add: toWalk_def Let_def)
  then show ?thesis using assms(5,6) by (auto simp: cmdrm_def on_world_def Let_def)
qed

theorem rm_bad_path_witness:
  "fst (cmdrm (cfs (NewLogger sample_sess)) None [[CHR ''a'', CHR 0x5C, CHR ''b'']] sample_shell) = None \<and>
   log_of (cm_world (snd (cmdrm (cfs (NewLogger sample_sess)) None [[CHR ''a'', CHR 0x5C, CHR ''b'']] sample_shell))) =
     log_of (cm_world sample_shell) @ [LWalk 2 3 [] (Inr []), LRemove 3 None]"
proof -
  let ?fs = "cfs (NewLogger sample_sess)" and ?p = "[CHR ''a'', CHR 0x5C, CHR ''b'']"
  define ent where "ent = \<lparr>ce_fid = 3, ce_qid = \<lparr>q_Type = QTDIR, q_Version = 0, q_Path = 0\<rparr>, ce_fs = True\<rparr>"
  define w1 where "w1 = snd (de_Walk ?fs None (cm_pwd sample_shell) [] (cm_world sample_shell))"
  define w2 where "w2 = snd (de_Remove ?fs None ent w1)"
  have "fst (de_Walk ?fs None (cm_pwd sample_shell) [] (cm_world sample_shell)) = ([], Some ent, None)" unfolding ent_def by code_simp
  then have w: "de_Walk ?fs None (cm_pwd sample_shell) [] (cm_world sample_shell) = (([], Some ent, None), w1)"
    by (simp add: w1_def prod_eq_iff)
  have "fst (de_Remove ?fs None ent w1) = None" unfolding ent_def w1_def by code_simp
  then have r: "de_Remove ?fs None ent w1 = (None, w2)" by (simp add: w2_def prod_eq_iff)
  have l: "log_of w2 = log_of (cm_world sample_shell) @ [LWalk 2 3 [] (Inr []), LRemove 3 None]"
    unfolding w2_def w1_def ent_def by code_simp
  have p: "snd (ToWalk ?p) = Inl (Rerr (''invalid path: '' @ ?p))" "\<not> path_IsAbs ?p" "cm_path sample_shell = internal []" by code_simp+
  show ?thesis using rm_bad_path [OF p(1,3) _ _ w r] p(2) l by simp
qed

text \<open>
  \<open>mkdir\<close> in a directory that is found reports no error of the server: when \<open>Create\<close> fails, the
  reference that comes with the error is \<open>noEnt\<close>, and clunking it dereferences nil.  When it succeeds, the fid of
  the new directory is left open.
\<close>

theorem mkdir_failure_panics:
  assumes "parent_of (cfs sess) ctx args c = (Inr (nxt, name), c1)"
    and "cEnt_Create sess ctx nxt name (DMDIR OR 0x1A4) OREAD (cm_world c1) = ((oe, ofile, err), w2)"
  shows "cmdmkdir (cfs sess) ctx args c =
    (if err = None then None else if panics err then err else Some nil_deref, c1\<lparr>cm_world := w2\<rparr>)"
proof -
  have o: "on_world (de_Create (cfs sess) ctx nxt name (DMDIR OR 0x1A4) OREAD) c1 = ((oe, ofile, err), c1\<lparr>cm_world := w2\<rparr>)"
    using assms(2) by (simp add: on_world_def cfs_def)
  have "err \<noteq> None \<Longrightarrow> oe = Some noEnt"
    using assms(2) by (auto simp: cEnt_Create_def Let_def split: if_splits sum.splits prod.splits)
  moreover have "clunk (cfs sess) ctx noEnt (Some er, c2) = (Some nil_deref, c2)" if "\<not> panics (Some er)" for er c2
    using that by (auto simp: clunk_def on_world_def cfs_def cEnt_Clunk_def noEnt_def)
  ultimately show ?thesis using assms(1) o by (cases err; cases oe) (auto simp: cmdmkdir_def)
qed

theorem mkdir_failure_panics_witness:
  "fst (cmdmkdir (cfs sample_sess) None [''x''] (projr (start_commander (cfs sample_sess) None (CFileSys ())))) = Some nil_deref"
proof -
  let ?c = "projr (start_commander (cfs sample_sess) None (CFileSys ()))"
  define ent where "ent = \<lparr>ce_fid = 3, ce_qid = \<lparr>q_Type = QTDIR, q_Version = 0, q_Path = 0\<rparr>, ce_fs = True\<rparr>"
  obtain r c1 where p: "parent_of (cfs sample_sess) None [''x''] ?c = (r, c1)" by fastforce
  have "fst (parent_of (cfs sample_sess) None [''x''] ?c) = Inr (ent, ''x'')" unfolding ent_def by code_simp
  then have 1: "parent_of (cfs sample_sess) None [''x''] ?c = (Inr (ent, ''x''), c1)" using p by simp
  have 2: "cEnt_Create sample_sess None ent ''x'' (DMDIR OR 0x1A4) OREAD (cm_world c1) = ((Some noEnt, Some noFile, Some ErrPerm), cm_world c1)"
    by (simp add: cEnt_Create_def ent_def cEnt_IsDir_def call_def sample_sess_def Let_def)
  show ?thesis using mkdir_failure_panics [OF 1 2] by (simp add: ErrPerm_def panics_def)
qed

end
