(* ===== verification/P9_Owner.thy ===== *)
theory P9_Owner
  imports P9_SFileSys "HOL-Library.Multiset"
begin

text \<open>
  Who owns the directory entries of a file system: the contract between the session of
  \<^verbatim>\<open>sfilesys.go\<close> and a \<open>FileSys\<close> that counts or otherwise manages the entries it has given
  out.  The session keeps one entry for each of its references, gives each entry up exactly once,
  by \<open>Clunk\<close>, \<open>Remove\<close> or \<open>Create\<close>, and uses no entry after that.
\<close>

section \<open>The entries of a table\<close>

definition ent_of :: "('w, 'e, 'f) SFid option \<Rightarrow> 'e multiset" where
  "ent_of r = (case Option.bind r sf_Ent of Some e \<Rightarrow> {#e#} | None \<Rightarrow> {#})"

definition ents :: "('w, 'e, 'f) session \<Rightarrow> 'e multiset" where
  "ents s = (\<Sum>fid\<in>UNIV. ent_of (se_refs s fid))"

lemma ent_of_simps [simp]:
  "ent_of None = {#}" "sf_Ent ref = None \<Longrightarrow> ent_of (Some ref) = {#}"
  "sf_Ent ref = Some e \<Longrightarrow> ent_of (Some ref) = {#e#}"
  by (simp_all add: ent_of_def)

text \<open>The entries of all references but one.\<close>

definition ents_but :: "Fid \<Rightarrow> ('w, 'e, 'f) session \<Rightarrow> 'e multiset" where
  "ents_but fid s = (\<Sum>g\<in>UNIV - {fid}. ent_of (se_refs s g))"

lemma ents_split: "ents s = ent_of (se_refs s fid) + ents_but fid s"
  unfolding ents_def ents_but_def by (rule sum.remove) simp_all

lemma ents_upd: "se_refs s' = (se_refs s)(fid := x) \<Longrightarrow> ents s' = ent_of x + ents_but fid s"
proof -
  assume u: "se_refs s' = (se_refs s)(fid := x)"
  then have "ents_but fid s' = ents_but fid s" unfolding ents_but_def by (intro sum.cong) auto
  then show ?thesis using ents_split [of s' fid] u by simp
qed

lemma ents_cong: "se_refs s' = se_refs s \<Longrightarrow> ents s' = ents s"
  by (simp add: ents_def)

section \<open>Open directories\<close>

text \<open>A function that yields entries of a directory keeps the owner's invariant \<open>own\<close>.\<close>

definition keeps :: "('w \<Rightarrow> 'e multiset \<Rightarrow> bool) \<Rightarrow> (Context \<Rightarrow> 'w \<Rightarrow> 'x \<times> 'w) \<Rightarrow> bool" where
  "keeps own nxt \<longleftrightarrow> (\<forall>ctx w E. own w E \<longrightarrow> own (snd (nxt ctx w)) E)"

definition file_ok :: "('w \<Rightarrow> 'e multiset \<Rightarrow> bool) \<Rightarrow> ('w, 'f) sfile option \<Rightarrow> bool" where
  "file_ok own file \<longleftrightarrow> (\<forall>rd. file = Some (DirFile rd) \<longrightarrow> (\<exists>nxt. rd_nextfn rd = mkNext1 nxt \<and> keeps own nxt))"

definition files_ok :: "('w \<Rightarrow> 'e multiset \<Rightarrow> bool) \<Rightarrow> ('w, 'e, 'f) session \<Rightarrow> bool" where
  "files_ok own s \<longleftrightarrow> (\<forall>fid ref. se_refs s fid = Some ref \<longrightarrow> file_ok own (sf_File ref))"

lemma file_ok_simps [simp]: "file_ok own None" "file_ok own (Some (FsFile f))"
  by (simp_all add: file_ok_def)

lemma file_ok_NewReaddir: "keeps own nxt \<Longrightarrow> file_ok own (Some (DirFile (NewReaddir cd nxt w)))"
  by (auto simp: file_ok_def NewReaddir_def)

lemma files_ok_upd:
  assumes "files_ok own s" and "se_refs s' = (se_refs s)(fid := x)" and "\<forall>ref. x = Some ref \<longrightarrow> file_ok own (sf_File ref)"
  shows "files_ok own s'"
  using assms by (auto simp: files_ok_def)

lemma mkNext1_keeps: "keeps own nxt \<Longrightarrow> own w E \<Longrightarrow> mkNext1 nxt ctx (dirs, fin, w) = (r, dirs', fin', w') \<Longrightarrow> own w' E"
  by (auto simp: mkNext1_def keeps_def split: if_splits list.splits prod.splits sum.splits) (metis snd_conv)+

lemma Readdir_loop_keeps:
  assumes "rd_nextfn rd = mkNext1 nxt" and "keeps own nxt" and "own (snd (snd (rd_state rd))) E"
    and "Readdir_loop k ctx cap rd p = Some (rd', q, err)"
  shows "rd_nextfn rd' = mkNext1 nxt \<and> own (snd (snd (rd_state rd'))) E"
  using assms(1,3,4)
proof (induction k arbitrary: rd p)
  case (Suc k)
  define step where "step = (case rd_buf rd of Some d \<Rightarrow> (Inr d, rd\<lparr>rd_buf := None\<rparr>)
      | None \<Rightarrow> (case rd_nextfn rd ctx (rd_state rd) of (r, w) \<Rightarrow> (r, rd\<lparr>rd_state := w\<rparr>)))"
  obtain r rd1 where st: "step = (r, rd1)" by fastforce
  obtain dirs fin w where w: "rd_state rd = (dirs, fin, w)" by (metis surj_pair)
  obtain r1 dirs1 fin1 w1 where m: "mkNext1 nxt ctx (dirs, fin, w) = (r1, dirs1, fin1, w1)" by (metis surj_pair)
  have ok: "rd_nextfn rd1 = mkNext1 nxt" "own (snd (snd (rd_state rd1))) E"
    using st Suc.prems(1,2) m w mkNext1_keeps [OF assms(2) _ m] by (auto simp: step_def split: option.splits)
  show ?case
  proof (cases "length p < cap")
    case True
    then have l: "(case r of Inl err \<Rightarrow> Some (rd1, p, Some err)
         | Inr d \<Rightarrow> (case co_Marshal (rd_codec rd1) (VDir d) of
             Inl err \<Rightarrow> Some (rd1, p, Some err)
           | Inr dp \<Rightarrow> if cap < length p + length dp then Some (rd1\<lparr>rd_buf := Some d\<rparr>, p, None)
               else Readdir_loop k ctx cap rd1 (p @ dp))) = Some (rd', q, err)"
      using Suc.prems(3) unfolding Readdir_loop.simps step_def [symmetric] st by (cases r) simp_all
    show ?thesis
    proof (cases r)
      case (Inl e)
      then show ?thesis using l ok by auto
    next
      case (Inr d)
      then show ?thesis
        using l ok Suc.IH [OF ok] by (cases "co_Marshal (rd_codec rd1) (VDir d)") (auto split: if_splits)
    qed
  next
    case False
    then show ?thesis using Suc.prems by simp
  qed
qed simp

lemma file_Read_keeps:
  assumes "\<And>f w E. own w E \<Longrightarrow> own (snd (fi_Read fs ctx f n offset w)) E" and "file_ok own (Some file)" and "own w E"
    and "file_Read fs ctx file n offset w = (r, file', w')"
  shows "file_ok own (Some file') \<and> own w' E"
proof (cases "file")
  case (FsFile f)
  then show ?thesis using assms(4) assms(1) [OF assms(3), of f] by (auto simp: file_Read_def split: prod.splits)
next
  case (DirFile rd)
  obtain nxt where n: "rd_nextfn rd = mkNext1 nxt" "keeps own nxt" using assms(2) DirFile by (auto simp: file_ok_def)
  obtain dirs fin w0 where w0: "rd_state rd = (dirs, fin, w0)" by (metis surj_pair)
  show ?thesis
  proof (cases "Readdir_Read ctx (rd\<lparr>rd_state := (dirs, fin, w)\<rparr>) n offset")
    case None
    then show ?thesis using assms DirFile w0 by (auto simp: file_Read_def)
  next
    case (Some res)
    obtain p err rd' where res: "res = (p, err, rd')" by (metis surj_pair)
    let ?rd = "rd\<lparr>rd_state := (dirs, fin, w)\<rparr>"
    have "rd' = ?rd \<or> (\<exists>rd1 q e. Readdir_loop (n + 1) ctx n ?rd [] = Some (rd1, q, e) \<and>
        rd' = rd1\<lparr>rd_offset := rd_offset rd1 + int (length q)\<rparr>)"
      using Some unfolding res Readdir_Read_def by (auto split: if_splits option.splits prod.splits)
    then have "rd_nextfn rd' = mkNext1 nxt \<and> own (snd (snd (rd_state rd'))) E"
    proof (elim disjE exE conjE)
      fix rd1 q e
      assume l: "Readdir_loop (n + 1) ctx n ?rd [] = Some (rd1, q, e)"
        and "rd' = rd1\<lparr>rd_offset := rd_offset rd1 + int (length q)\<rparr>"
      then show ?thesis using Readdir_loop_keeps [OF _ n(2) _ l, of E] n(1) assms(3) by (simp del: Readdir_loop.simps)
    qed (use n(1) assms(3) in simp)
    then show ?thesis using assms(4) DirFile w0 Some res n by (auto simp: file_Read_def file_ok_def)
  qed
qed

lemma EnsureNonNil_None: "EnsureNonNil x err = None \<longleftrightarrow> err = None \<and> x \<noteq> None"
  by (cases err; cases x) simp_all

lemma walk_cleanup_world [simp]: "se_world (walk_cleanup fid newfid s) = se_world s"
  by (simp add: walk_cleanup_def Let_def)

section \<open>Sessions in use\<close>

text \<open>What a request needs besides a fid: a removal must be of an entry that the file system can remove.\<close>

fun allowed :: "('e \<Rightarrow> 'w \<Rightarrow> bool) \<Rightarrow> Message \<Rightarrow> ('w, 'e, 'f) session \<Rightarrow> bool" where
  "allowed removable (MessageTremove fid) s \<longleftrightarrow>
     (case Option.bind (se_refs s fid) sf_Ent of Some e \<Rightarrow> removable e (se_world s) | None \<Rightarrow> True)"
| "allowed removable msg s \<longleftrightarrow> no_afid msg"

text \<open>The states of a session that handles requests one after the other, none of which stalls.\<close>

inductive served :: "('w, 'e, 'f, 'n) FileSys \<Rightarrow> ('e \<Rightarrow> 'w \<Rightarrow> bool) \<Rightarrow> 'w \<Rightarrow> ('w, 'e, 'f) session \<Rightarrow> bool"
  for fs removable w0 where
  start: "served fs removable w0 (new_session w0)"
| request: "served fs removable w0 s \<Longrightarrow> Handle (sfs fs order msize) ctx msg s = (r, s') \<Longrightarrow>
    allowed removable msg s \<Longrightarrow> \<not> stalled r \<Longrightarrow> served fs removable w0 s'"

fun all_allowed :: "('e \<Rightarrow> 'w \<Rightarrow> bool) \<Rightarrow> ('w, 'e, 'f) session sessionHandler \<Rightarrow> (Context \<times> Message) list \<Rightarrow>
    ('w, 'e, 'f) session \<Rightarrow> bool" where
  "all_allowed removable sess [] s \<longleftrightarrow> True"
| "all_allowed removable sess ((ctx, msg) # msgs) s \<longleftrightarrow>
     allowed removable msg s \<and> all_allowed removable sess msgs (snd (Handle sess ctx msg s))"

lemma served_handle_all:
  assumes "served fs removable w0 s" and "handle_all (sfs fs order msize) msgs s = (rs, s')"
    and "all_allowed removable (sfs fs order msize) msgs s" and "list_all (\<lambda>r. \<not> stalled r) rs"
  shows "served fs removable w0 s'"
  using assms
proof (induction msgs arbitrary: s rs)
  case (Cons m msgs)
  obtain ctx msg where m: "m = (ctx, msg)" by fastforce
  obtain r s1 where r: "Handle (sfs fs order msize) ctx msg s = (r, s1)" by fastforce
  obtain rs' where rs': "handle_all (sfs fs order msize) msgs s1 = (rs', s')" "rs = r # rs'"
    using Cons.prems(2) m r by (auto split: prod.splits)
  have "served fs removable w0 s1"
    using served.request [OF Cons.prems(1) r] Cons.prems(3,4) m rs'(2) by simp
  then show ?case using Cons.IH [OF _ rs'(1)] Cons.prems(3,4) m r rs'(2) by simp
qed simp

lemma allowed_no_afid: "allowed removable msg s \<Longrightarrow> no_afid msg"
  by (cases msg) auto

section \<open>The contract\<close>

text \<open>
  \<open>own w E\<close>: in the world \<open>w\<close> exactly the entries \<open>E\<close> are given out.  An entry may be removed only
  when it is \<open>removable\<close>.
\<close>

locale entry_owner =
  fixes fs :: "('w, 'e, 'f, 'n) FileSys"
    and own :: "'w \<Rightarrow> 'e multiset \<Rightarrow> bool"
    and removable :: "'e \<Rightarrow> 'w \<Rightarrow> bool"
  assumes own_RequireAuth: "own w E \<Longrightarrow> own (snd (fs_RequireAuth fs ctx w)) E"
    and own_Auth: "own w E \<Longrightarrow> own (snd (fs_Auth fs ctx uname aname w)) E"
    and own_Attach: "own w E \<Longrightarrow> fs_Attach fs ctx uname aname af w = ((oe, err), w') \<Longrightarrow>
      own w' (if err = None \<and> oe \<noteq> None then add_mset (the oe) E else E)"
    and own_Walk: "own w (add_mset e E) \<Longrightarrow> de_Walk fs ctx e names w = ((qids, oe, err), w') \<Longrightarrow>
      own w' (if err = None \<and> oe \<noteq> None \<and> (names = [] \<or> length qids = length names)
        then add_mset (the oe) (add_mset e E) else add_mset e E)"
    and own_Create: "own w (add_mset e E) \<Longrightarrow> de_Create fs ctx e name perm mode w = ((oe, ofile, err), w') \<Longrightarrow>
      own w' (if err = None \<and> oe \<noteq> None \<and> ofile \<noteq> None then add_mset (the oe) E else add_mset e E)"
    and own_Clunk: "own w (add_mset e E) \<Longrightarrow> own (snd (de_Clunk fs ctx e w)) E"
    and own_Remove: "own w (add_mset e E) \<Longrightarrow> removable e w \<Longrightarrow> own (snd (de_Remove fs ctx e w)) E"
    and own_OpenDir: "own w (add_mset e E) \<Longrightarrow> own (snd (de_OpenDir fs ctx e w)) (add_mset e E)"
    and own_Open: "own w (add_mset e E) \<Longrightarrow> own (snd (de_Open fs ctx e mode w)) (add_mset e E)"
    and own_Stat: "own w (add_mset e E) \<Longrightarrow> own (snd (de_Stat fs ctx e w)) (add_mset e E)"
    and own_WStat: "own w (add_mset e E) \<Longrightarrow> own (snd (de_WStat fs ctx e dir w)) (add_mset e E)"
    and own_Read: "own w E \<Longrightarrow> own (snd (fi_Read fs ctx f n offset w)) E"
    and own_Write: "own w E \<Longrightarrow> own (snd (fi_Write fs ctx f p offset w)) E"
    and own_Next: "own w E \<Longrightarrow> own (snd (rn_Next fs nx ctx w)) E"
begin

lemma known_own:
  assumes "own (se_world s) (ents s)" and "se_refs s fid = Some ref" and "sf_Ent ref = Some ent"
  shows "own (se_world s) (add_mset ent (ents_but fid s))"
  using assms ents_split [of s fid] by simp

lemma owned_same_ent:
  assumes "own w' (add_mset ent (ents_but fid s))" and "sf_Ent ref' = Some ent" and "file_ok own (sf_File ref')"
    and "files_ok own s" and "se_refs s' = (se_refs s)(fid := Some ref')" and "se_world s' = w'"
  shows "own (se_world s') (ents s') \<and> files_ok own s'"
  using assms ents_upd [OF assms(5)] files_ok_upd [OF assms(4,5)] by simp

lemma refused: "own (se_world s) (ents s) \<Longrightarrow> files_ok own s \<Longrightarrow> se_refs s' = se_refs s \<Longrightarrow> se_world s' = se_world s \<Longrightarrow>
    own (se_world s') (ents s') \<and> files_ok own s'"
  by (simp add: ents_def files_ok_def)

lemma openLocked_own:
  assumes "own w (add_mset ent E)" and "sf_Ent ref = Some ent" and "openLocked fs ctx ref mode w = (r, w')"
  shows "own w' (add_mset ent E) \<and> (\<forall>ref'. r = Inr ref' \<longrightarrow> file_ok own (sf_File ref'))"
proof -
  have k: "keeps own (case dirs of Some n \<Rightarrow> rn_Next fs n | None \<Rightarrow> (\<lambda>_ w. (Inl nil_deref, w)))" for dirs
    using own_Next by (simp add: keeps_def split: option.split)
  obtain od er w1 where d: "de_OpenDir fs ctx ent w = ((od, er), w1)" by (metis surj_pair)
  obtain ofl er2 w2 where o: "de_Open fs ctx ent mode w = ((ofl, er2), w2)" by (metis surj_pair)
  have w12: "own w1 (add_mset ent E)" "own w2 (add_mset ent E)"
    using own_OpenDir [OF assms(1), of ctx] own_Open [OF assms(1), of ctx mode] d o by simp_all
  consider (opened) "sf_File ref \<noteq> None" | (dir) "sf_File ref = None" "IsDir fs ent w" | (plain) "sf_File ref = None" "\<not> IsDir fs ent w"
    by blast
  then show ?thesis
  proof cases
    case opened
    then show ?thesis using assms by (auto simp: openLocked_def)
  next
    case dir
    then show ?thesis
      using assms(2,3) d w12 k
      by (cases er) (auto simp: openLocked_def Let_def intro!: file_ok_NewReaddir)
  next
    case plain
    then show ?thesis
      using assms(2,3) o w12 by (cases "EnsureNonNil ofl er2"; cases ofl) (auto simp: openLocked_def)
  qed
qed

lemma Open_own:
  assumes "quiet s" and "own (se_world s) (ents s)" and "files_ok own s" and "sess_Open fs ctx fid mode s = (r, s')"
  shows "own (se_world s') (ents s') \<and> files_ok own s'"
  using assms(1)
proof (cases rule: getRef_cases [of s fid])
  case unknown
  then show ?thesis using assms by (auto simp: sess_Open_def)
next
  case (known ref ent)
  have e: "own (se_world s) (add_mset ent (ents_but fid s))" by (rule known_own [OF assms(2) known(2,4)])
  have f: "file_ok own (sf_File ref)" using assms(3) known(2) by (auto simp: files_ok_def)
  obtain ro w where o: "openLocked fs ctx (ref\<lparr>sf_locked := True\<rparr>) mode (se_world s) = (ro, w)" by fastforce
  have ow: "own w (add_mset ent (ents_but fid s)) \<and> (\<forall>ref'. ro = Inr ref' \<longrightarrow> file_ok own (sf_File ref'))"
    by (rule openLocked_own [OF e _ o]) (simp add: known(4))
  show ?thesis
  proof (cases ro)
    case (Inl err)
    then show ?thesis
      using assms(4) known o ow f by (intro owned_same_ent [OF _ known(4) f assms(3)]) (auto simp: sess_Open_def)
  next
    case (Inr ref')
    then show ?thesis
      using assms(4) known o ow openLocked_Inr [of fs ctx "ref\<lparr>sf_locked := True\<rparr>" mode "se_world s" ref' w]
      by (intro owned_same_ent [of w ent fid s "ref'\<lparr>sf_locked := False\<rparr>"]) (auto simp: sess_Open_def assms(3))
  qed
qed

lemma Read_own:
  assumes "quiet s" and "own (se_world s) (ents s)" and "files_ok own s" and "sess_Read fs ctx fid n offset s = (r, s')"
  shows "own (se_world s') (ents s') \<and> files_ok own s'"
  using assms(1)
proof (cases rule: getRef_cases [of s fid])
  case unknown
  then show ?thesis using assms by (auto simp: sess_Read_def)
next
  case (known ref ent)
  have e: "own (se_world s) (add_mset ent (ents_but fid s))" by (rule known_own [OF assms(2) known(2,4)])
  have f: "file_ok own (sf_File ref)" using assms(3) known(2) by (auto simp: files_ok_def)
  show ?thesis
  proof (cases "sf_File ref = None \<or> sf_Mode ref AND OEXEC = OWRITE")
    case True
    then show ?thesis
      using assms(4) known
      by (intro owned_same_ent [OF e known(4) f assms(3)]) (auto simp: sess_Read_def split: option.splits)
  next
    case False
    then obtain fl where fl: "sf_File ref = Some fl" by auto
    obtain rr fl' w where rd: "file_Read fs ctx fl n offset (se_world s) = (rr, fl', w)" by (metis surj_pair)
    have "file_ok own (Some fl') \<and> own w (add_mset ent (ents_but fid s))"
      by (rule file_Read_keeps [where own = own, OF _ _ e rd]) (use own_Read f fl in auto)
    then show ?thesis
      using assms(4) known fl rd False
      by (intro owned_same_ent [of w ent fid s "ref\<lparr>sf_locked := False, sf_File := Some fl'\<rparr>"])
        (auto simp: sess_Read_def assms(3))
  qed
qed

lemma Write_own:
  assumes "quiet s" and "own (se_world s) (ents s)" and "files_ok own s" and "sess_Write fs ctx fid p offset s = (r, s')"
  shows "own (se_world s') (ents s') \<and> files_ok own s'"
  using assms(1)
proof (cases rule: getRef_cases [of s fid])
  case unknown
  then show ?thesis using assms by (auto simp: sess_Write_def)
next
  case (known ref ent)
  have e: "own (se_world s) (add_mset ent (ents_but fid s))" by (rule known_own [OF assms(2) known(2,4)])
  have f: "file_ok own (sf_File ref)" using assms(3) known(2) by (auto simp: files_ok_def)
  show ?thesis
  proof (cases "sf_File ref = None \<or> (sf_Mode ref AND OEXEC \<noteq> OWRITE \<and> sf_Mode ref AND OEXEC \<noteq> ORDWR)")
    case True
    then show ?thesis
      using assms(4) known
      by (intro owned_same_ent [OF e known(4) f assms(3)]) (auto simp: sess_Write_def split: option.splits if_splits)
  next
    case False
    then obtain fl where fl: "sf_File ref = Some fl" by auto
    obtain rr w where wr: "file_Write fs ctx fl p offset (se_world s) = (rr, w)" by (metis surj_pair)
    have "own w (add_mset ent (ents_but fid s))"
      using wr e own_Write [OF e, of ctx _ p offset] by (cases fl) (auto simp: file_Write_def, metis snd_conv)
    then show ?thesis
      using assms(4) known fl wr False
      by (intro owned_same_ent [OF _ known(4) f assms(3)]) (auto simp: sess_Write_def split: if_splits)
  qed
qed

lemma Stat_own:
  assumes "quiet s" and "own (se_world s) (ents s)" and "files_ok own s"
  shows "(sess_Stat fs ctx fid s = (r, s') \<longrightarrow> own (se_world s') (ents s') \<and> files_ok own s') \<and>
    (sess_WStat fs ctx fid dir s = (r', s') \<longrightarrow> own (se_world s') (ents s') \<and> files_ok own s')"
  using assms(1)
proof (cases rule: getRef_cases [of s fid])
  case unknown
  then show ?thesis using assms by (auto simp: sess_Stat_def sess_WStat_def)
next
  case (known ref ent)
  have e: "own (se_world s) (add_mset ent (ents_but fid s))" by (rule known_own [OF assms(2) known(2,4)])
  have f: "file_ok own (sf_File ref)" using assms(3) known(2) by (auto simp: files_ok_def)
  show ?thesis
  proof (rule conjI; rule impI)
    assume "sess_Stat fs ctx fid s = (r, s')"
    then show "own (se_world s') (ents s') \<and> files_ok own s'"
      using known by (intro owned_same_ent [OF own_Stat [OF e, of ctx] known(4) f assms(3)])
        (auto simp: sess_Stat_def split: prod.splits)
  next
    assume "sess_WStat fs ctx fid dir s = (r', s')"
    then show "own (se_world s') (ents s') \<and> files_ok own s'"
      using known by (intro owned_same_ent [OF own_WStat [OF e, of ctx dir] known(4) f assms(3)])
        (auto simp: sess_WStat_def split: prod.splits)
  qed
qed

lemma delRef_own:
  assumes "quiet s" and "own (se_world s) (ents s)" and "files_ok own s" and "delRef fs ctx fid remove s = (r, s')"
    and "\<And>ref ent. remove \<Longrightarrow> se_refs s fid = Some ref \<Longrightarrow> sf_Ent ref = Some ent \<Longrightarrow> removable ent (se_world s)"
  shows "own (se_world s') (ents s') \<and> files_ok own s'"
proof (cases "\<exists>ref ent. se_refs s fid = Some ref \<and> sf_Ent ref = Some ent")
  case False
  then have "se_refs s' = (se_refs s)(fid := None)" "se_world s' = se_world s" "ent_of (se_refs s fid) = {#}"
    using assms(1,4) by (auto simp: delRef_def quiet_def Let_def split: option.splits)
  then show ?thesis using assms(2,3) ents_upd [of s' s fid None] ents_split [of s fid] files_ok_upd [of own s s' fid None] by simp
next
  case True
  then obtain ref ent where k: "se_refs s fid = Some ref" "sf_Ent ref = Some ent" by blast
  have e: "own (se_world s) (add_mset ent (ents_but fid s))" by (rule known_own [OF assms(2) k])
  have "\<not> sf_locked ref" using assms(1) k(1) by (simp add: quiet_def)
  then have u: "se_refs s' = (se_refs s)(fid := None)"
      "se_world s' = snd (if remove then de_Remove fs ctx ent (se_world s) else de_Clunk fs ctx ent (se_world s))"
    using assms(4) k by (auto simp: delRef_def Let_def delRefAction_def split: prod.splits)
  have "own (se_world s') (ents_but fid s)"
    using u(2) own_Clunk [OF e] own_Remove [OF e] assms(5) k by simp
  then show ?thesis using assms(3) ents_upd [OF u(1)] files_ok_upd [OF assms(3) u(1)] by simp
qed

lemma Auth_own:
  assumes "own (se_world s) (ents s)" and "files_ok own s" and "sess_Auth fs ctx afid uname aname s = (r, s')"
  shows "own (se_world s') (ents s') \<and> files_ok own s'"
proof -
  obtain req w where q: "fs_RequireAuth fs ctx (se_world s) = (req, w)" by fastforce
  obtain af er w1 where a: "fs_Auth fs ctx uname aname w = ((af, er), w1)" by (metis surj_pair)
  have w: "own w (ents s)" "own w1 (ents s)"
    using own_RequireAuth [OF assms(1), of ctx] own_Auth [of w "ents s" ctx uname aname] q a by simp_all
  have same: ?thesis if "se_refs s' = se_refs s" "own (se_world s') (ents s)"
    using that assms(2) ents_cong [of s' s] by (simp add: files_ok_def)
  show ?thesis
  proof (cases "afid = NOFID \<or> \<not> req")
    case True
    then show ?thesis using assms(1,3) q w by (intro same) (auto simp: sess_Auth_def Let_def split: if_splits)
  next
    case False
    show ?thesis
    proof (cases rule: newRef_cases [of afid "s\<lparr>se_world := w\<rparr>"])
      case nofid
      then show ?thesis using False by simp
    next
      case (dup ref)
      then show ?thesis using assms(3) q w False by (intro same) (auto simp: sess_Auth_def Let_def)
    next
      case new
      show ?thesis
      proof (cases er)
        case (Some err)
        then show ?thesis using assms(3) q w False new a by (intro same) (auto simp: sess_Auth_def Let_def fun_upd_idem)
      next
        case None
        define ref' :: "('w, 'e, 'f) SFid" where "ref' =
          \<lparr>sf_locked = False, sf_Ent = None, sf_File = map_option FsFile af, sf_Mode = 0\<rparr>"
        have u: "se_refs s' = (se_refs s)(afid := Some ref')" "se_world s' = w1"
          using assms(3) q False new a None by (auto simp: sess_Auth_def Let_def ref'_def)
        have "file_ok own (sf_File ref')" by (cases af) (simp_all add: ref'_def)
        then show ?thesis
          using w(2) u(2) ents_upd [OF u(1)] ents_split [of s afid] new(2) files_ok_upd [OF assms(2) u(1)]
          by (simp add: ref'_def)
      qed
    qed
  qed
qed

lemma Attach_own:
  assumes "own (se_world s) (ents s)" and "files_ok own s" and "sess_Attach fs ctx fid NOFID uname aname s = (r, s')"
    and "r \<noteq> Inl nil_deref"
  shows "own (se_world s') (ents s') \<and> files_ok own s'"
proof -
  obtain oe er w where a: "fs_Attach fs ctx uname aname None (se_world s) = ((oe, er), w)" by (metis surj_pair)
  note o = own_Attach [OF assms(1) a]
  show ?thesis
  proof (cases rule: newRef_cases [of fid s])
    case nofid
    then show ?thesis using assms by (auto simp: sess_Attach_def attach_auth_def Let_def)
  next
    case (dup ref)
    then show ?thesis using assms by (auto simp: sess_Attach_def attach_auth_def Let_def)
  next
    case new
    have but: "ents_but fid s = ents s" using ents_split [of s fid] new(2) by simp
    show ?thesis
    proof (cases "er = None \<and> oe \<noteq> None")
      case True
      then obtain e where e: "oe = Some e" by auto
      define ref' :: "('w, 'e, 'f) SFid" where "ref' = \<lparr>sf_locked = False, sf_Ent = Some e, sf_File = None, sf_Mode = 0\<rparr>"
      have u: "se_refs s' = (se_refs s)(fid := Some ref')" "se_world s' = w"
        using True e a assms(3) new by (auto simp: sess_Attach_def attach_auth_def Let_def ref'_def)
      then show ?thesis
        using o True e ents_upd [OF u(1)] but files_ok_upd [OF assms(2) u(1)] by (simp add: ref'_def)
    next
      case False
      then have "se_refs s' = se_refs s" "se_world s' = w"
        using a assms(3,4) new
        by (cases er; cases oe; auto simp: sess_Attach_def attach_auth_def Let_def fun_upd_idem)+
      then show ?thesis using o False ents_cong [of s' s] assms(2) by (auto simp: files_ok_def)
    qed
  qed
qed

lemma walk_done_own:
  assumes "walk_held fid newfid ref s s2" and "sf_Ent ref = Some ent" and "files_ok own s"
    and "own (se_world s2) (add_mset ent' (ents s))"
    and "newref = (if newfid = fid then None else Some \<lparr>sf_locked = True, sf_Ent = None, sf_File = None, sf_Mode = 0\<rparr>)"
    and "s' = walk_done fs ctx fid newfid (ref\<lparr>sf_locked := True\<rparr>) newref ent' s2"
  shows "own (se_world s') (ents s') \<and> files_ok own s'"
proof (cases "newfid = fid")
  case True
  have r: "se_refs s fid = Some ref" "\<not> sf_locked ref" "se_refs s2 = (se_refs s)(fid := Some (ref\<lparr>sf_locked := True\<rparr>))"
    using assms(1) True by (auto simp: walk_held_def)
  have e: "own (snd (de_Clunk fs ctx ent (se_world s2))) (add_mset ent' (ents_but fid s))"
    using assms(4) ents_split [of s fid] r(1) assms(2) by (intro own_Clunk) (simp add: add_mset_commute)
  have "file_ok own (sf_File ref)" using assms(3) r(1) by (auto simp: files_ok_def)
  then show ?thesis
    using assms(2,5,6) True r
    by (intro owned_same_ent [OF e, of "ref\<lparr>sf_locked := False, sf_Ent := Some ent'\<rparr>"])
      (auto simp: walk_done_def assms(3) split: prod.splits)
next
  case False
  have r: "se_refs s fid = Some ref" "\<not> sf_locked ref" "se_refs s newfid = None"
    "se_refs s2 = (se_refs s)(fid := Some (ref\<lparr>sf_locked := True\<rparr>),
       newfid := Some \<lparr>sf_locked = True, sf_Ent = None, sf_File = None, sf_Mode = 0\<rparr>)"
    using assms(1) False by (auto simp: walk_held_def)
  have but: "ents_but newfid s = ents s" using ents_split [of s newfid] r(3) by simp
  define ref' :: "('w, 'e, 'f) SFid" where "ref' = \<lparr>sf_locked = False, sf_Ent = Some ent', sf_File = None, sf_Mode = 0\<rparr>"
  have "se_refs s' = (se_refs s)(newfid := Some ref')" "se_world s' = se_world s2"
    using assms(5,6) False r by (auto simp: walk_done_def ref'_def fun_upd_twist fun_upd_idem)
  then show ?thesis
    using assms(4) but by (intro owned_same_ent [of "se_world s2" ent' newfid s ref']) (simp_all add: ref'_def assms(3))
qed

text \<open>\<open>Walk\<close> while it holds the references, from the check of its arguments on.\<close>

lemma walk_held_own:
  assumes "own (se_world s) (ents s)" and "files_ok own s" and "se_refs s fid = Some ref" and "sf_Ent ref = Some ent"
    and "walk_held fid newfid ref s s2" and "de_Walk fs ctx ent names (se_world s) = ((qids, oe, er), w)"
    and "full \<longleftrightarrow> er = None \<and> oe \<noteq> None \<and> (names = [] \<or> length qids = length names)"
    and "s' = (if full then walk_done fs ctx fid newfid (ref\<lparr>sf_locked := True\<rparr>)
        (if newfid = fid then None else Some \<lparr>sf_locked = True, sf_Ent = None, sf_File = None, sf_Mode = 0\<rparr>) (the oe) (s2\<lparr>se_world := w\<rparr>)
      else walk_cleanup fid newfid (s2\<lparr>se_world := w\<rparr>))"
  shows "own (se_world s') (ents s') \<and> files_ok own s'"
proof -
  have ow: "own w (if full then add_mset (the oe) (ents s) else ents s)"
    using own_Walk [OF known_own [OF assms(1,3,4)] assms(6)] ents_split [of s fid] assms(3,4,7)
    by (simp only: ent_of_simps union_mset_add_mset_left add_0)
  show ?thesis
  proof (cases full)
    case True
    then show ?thesis
      using walk_done_own [of fid newfid ref s "s2\<lparr>se_world := w\<rparr>" ent "the oe", OF _ assms(4,2) _ refl] assms(5,8) ow by simp
  next
    case False
    then have "se_refs s' = se_refs s" "se_world s' = w"
      using assms(5,8) walk_cleanup_held [of fid newfid ref s "s2\<lparr>se_world := w\<rparr>"] by simp_all
    then show ?thesis using ow False assms(2) ents_cong [of s' s] by (simp add: files_ok_def)
  qed
qed

lemma Walk_own:
  assumes "quiet s" and "own (se_world s) (ents s)" and "files_ok own s" and "sess_Walk fs ctx fid newfid names s = (r, s')"
  shows "own (se_world s') (ents s') \<and> files_ok own s'"
  using assms(1)
proof (cases rule: getRef_cases [of s fid])
  case unknown
  then show ?thesis using assms by (auto simp: sess_Walk_def split: if_splits)
next
  case (known ref ent)
  have same: ?thesis if "se_refs s' = se_refs s" "se_world s' = se_world s"
    using refused [OF assms(2,3) that] .
  show ?thesis
    using known(1,2,3)
  proof (cases rule: walk_refs_cases [where newfid = newfid])
    case failed
    then show ?thesis using assms known by (intro same) (auto simp: sess_Walk_def fun_upd_idem split: if_splits)
  next
    case (held s2)
    obtain qids oe er w where w: "de_Walk fs ctx ent names (se_world s) = ((qids, oe, er), w)" by (metis surj_pair)
    have u: "newfid = fid \<Longrightarrow> se_refs (unlock fid s2) = se_refs s"
      using held(2) known(2) by (auto simp: walk_held_def fun_upd_idem)
    show ?thesis
    proof (cases "ValidPath names < 0 \<or> (names = [] \<and> newfid = fid) \<or> (names \<noteq> [] \<and> \<not> IsDir fs ent (se_world s))")
      case True
      then show ?thesis
        using assms(4) known held walk_cleanup_held [OF held(2)] u
        by (intro same) (auto simp: sess_Walk_def Let_def split: if_splits)
    next
      case False
      then show ?thesis
        using assms(4) known held w
        by (intro walk_held_own [OF assms(2,3) known(2,4) held(2) w refl], cases er; cases oe)
          (auto simp: sess_Walk_def Let_def split: if_splits)
    qed
  qed
qed

text \<open>The tail of \<open>Create\<close>, when the file system has made \<open>e'\<close> with the file \<open>f'\<close>.\<close>

lemma created_own:
  assumes "own w (add_mset e' (ents_but parent s))" and "files_ok own s" and "se_refs s parent = Some ref"
    and "s1 = set_ref parent (ref\<lparr>sf_locked := True\<rparr>) s\<lparr>se_world := w\<rparr>"
    and "(r, s') = (if IsDir fs e' w then
        (case openLocked fs ctx \<lparr>sf_locked = False, sf_Ent = Some e', sf_File = None, sf_Mode = 0\<rparr> mode w of
           (Inl err, w') \<Rightarrow> (Inl deadlock, s1\<lparr>se_world := w'\<rparr>)
         | (Inr nref, w') \<Rightarrow> create_done fs parent mode (ref\<lparr>sf_locked := True\<rparr>) e' (the (sf_File nref)) (s1\<lparr>se_world := w'\<rparr>))
      else create_done fs parent mode (ref\<lparr>sf_locked := True\<rparr>) e' (FsFile f') s1)"
    and "r \<noteq> Inl deadlock"
  shows "own (se_world s') (ents s') \<and> files_ok own s'"
proof -
  have finish: ?thesis if "file_ok own (Some fl)" "own w2 (add_mset e' (ents_but parent s))"
      "(r, s') = create_done fs parent mode (ref\<lparr>sf_locked := True\<rparr>) e' fl (s1\<lparr>se_world := w2\<rparr>)" for fl w2
    using that by (intro owned_same_ent [of w2 e' parent s
        "ref\<lparr>sf_locked := False, sf_Ent := Some e', sf_File := Some fl, sf_Mode := mode\<rparr>"])
      (auto simp: create_done_def assms(2,4))
  show ?thesis
  proof (cases "IsDir fs e' w")
    case False
    then show ?thesis using assms(1,4,5) by (intro finish [of "FsFile f'" w]) simp_all
  next
    case True
    let ?n = "\<lparr>sf_locked = False, sf_Ent = Some e', sf_File = None, sf_Mode = 0\<rparr>"
    obtain ro w2 where o: "openLocked fs ctx ?n mode w = (ro, w2)" by fastforce
    have ow: "own w2 (add_mset e' (ents_but parent s)) \<and> (\<forall>ref'. ro = Inr ref' \<longrightarrow> file_ok own (sf_File ref'))"
      by (rule openLocked_own [OF assms(1) _ o]) simp
    obtain nref where n: "ro = Inr nref" using assms(5,6) True o by (cases ro) simp_all
    then obtain fl where "sf_File nref = Some fl" using openLocked_Inr(2) [of fs ctx ?n mode w nref w2] o by auto
    then show ?thesis using assms(5) True o ow n by (intro finish [of fl w2]) simp_all
  qed
qed

lemma Create_own:
  assumes "quiet s" and "own (se_world s) (ents s)" and "files_ok own s"
    and "sess_Create fs ctx parent name perm mode s = (r, s')" and "r \<noteq> Inl deadlock"
  shows "own (se_world s') (ents s') \<and> files_ok own s'"
  using assms(1)
proof (cases rule: getRef_cases [of s parent])
  case unknown
  then show ?thesis using assms by (auto simp: sess_Create_def split: if_splits)
next
  case (known ref ent)
  have e: "own (se_world s) (add_mset ent (ents_but parent s))" by (rule known_own [OF assms(2) known(2,4)])
  have f: "file_ok own (sf_File ref)" using assms(3) known(2) by (auto simp: files_ok_def)
  obtain oe ofile er w where c: "de_Create fs ctx ent name perm mode (se_world s) = ((oe, ofile, er), w)"
    by (metis surj_pair)
  note w = own_Create [OF e c]
  have rel: ?thesis if "se_refs s' = (se_refs s)(parent := Some ref)" "se_world s' = w1" "own w1 (add_mset ent (ents_but parent s))" for w1
    by (rule owned_same_ent [OF that(3) known(4) f assms(3) that(1,2)])
  consider (name) "name = ''.'' \<or> name = ''..''" | (nodir) "name \<noteq> ''.''" "name \<noteq> ''..''" "\<not> IsDir fs ent (se_world s)"
    | (refused) err where "name \<noteq> ''.''" "name \<noteq> ''..''" "IsDir fs ent (se_world s)" "EnsureNonNil ofile (EnsureNonNil oe er) = Some err"
    | (made) "name \<noteq> ''.''" "name \<noteq> ''..''" "IsDir fs ent (se_world s)" "EnsureNonNil ofile (EnsureNonNil oe er) = None"
    by (cases "EnsureNonNil ofile (EnsureNonNil oe er)") auto
  then show ?thesis
  proof cases
    case name
    then show ?thesis using assms by (auto simp: sess_Create_def)
  next
    case nodir
    then show ?thesis using assms(4) known e by (intro rel [of "se_world s"]) (auto simp: sess_Create_def)
  next
    case refused
    then have "\<not> (er = None \<and> oe \<noteq> None \<and> ofile \<noteq> None)" by (cases er; cases oe; cases ofile) auto
    then show ?thesis
      using refused assms(4) known c w by (intro rel [of w]) (auto simp: sess_Create_def Let_def split: if_splits)
  next
    case made
    then obtain e' f' where ef: "oe = Some e'" "ofile = Some f'" "er = None" by (auto simp: EnsureNonNil_None)
    then have w': "own w (add_mset e' (ents_but parent s))" using w by simp
    show ?thesis
      by (rule created_own [OF w' assms(3) known(2) refl, where r = r and ctx = ctx and mode = mode and f' = f'])
        (use made assms(4,5) known c ef in \<open>auto simp: sess_Create_def Let_def delRef_def split: prod.splits sum.splits if_splits\<close>)
  qed
qed

lemma Handle_own:
  assumes "quiet s" and "own (se_world s) (ents s)" and "files_ok own s"
    and h: "Handle (sfs fs order msize) ctx msg s = (r, s')" and "allowed removable msg s" and "\<not> stalled r"
  shows "own (se_world s') (ents s') \<and> files_ok own s'"
proof (cases msg)
  case (MessageTauth afid uname aname)
  then show ?thesis using h Auth_own [OF assms(2,3)] by (auto simp: to_msg_eq)
next
  case (MessageTattach fid afid uname aname)
  then obtain r0 where "sess_Attach fs ctx fid NOFID uname aname s = (r0, s')" "r = map_sum id MessageRattach r0"
    using h assms(5) by (auto simp: to_msg_eq)
  then show ?thesis using assms(6) by (intro Attach_own [OF assms(2,3)]) (auto simp: stalled_def)
next
  case (MessageTwalk fid newfid names)
  then show ?thesis using h Walk_own [OF assms(1,2,3)] by (auto simp: to_msg_eq)
next
  case (MessageTopen fid mode)
  then show ?thesis using h Open_own [OF assms(1,2,3)] by (auto simp: to_msg_eq)
next
  case (MessageTcreate fid name perm mode)
  then obtain r0 where "sess_Create fs ctx fid name perm mode s = (r0, s')"
      "r = map_sum id (\<lambda>(qid, iounit). MessageRcreate qid iounit) r0"
    using h by (auto simp: to_msg_eq)
  then show ?thesis using assms(6) by (intro Create_own [OF assms(1,2,3)]) (auto simp: stalled_def)
next
  case (MessageTread fid offset count)
  then obtain r0 where "sess_Read fs ctx fid (read_count msize count) (sint offset) s = (r0, s')"
    using h by (simp split: prod.splits option.splits)
  then show ?thesis by (rule Read_own [OF assms(1,2,3)])
next
  case (MessageTwrite fid offset data)
  then obtain r0 where "sess_Write fs ctx fid data (sint offset) s = (r0, s')"
    using h by (simp split: prod.splits option.splits)
  then show ?thesis by (rule Write_own [OF assms(1,2,3)])
next
  case (MessageTclunk fid)
  then obtain e where "delRef fs ctx fid False s = (e, s')"
    using h by (auto simp: to_msg0_eq sess_Clunk_def)
  then show ?thesis by (rule delRef_own [OF assms(1,2,3)]) simp
next
  case (MessageTremove fid)
  then obtain e where "delRef fs ctx fid True s = (e, s')"
    using h by (auto simp: to_msg0_eq sess_Remove_def)
  then show ?thesis by (rule delRef_own [OF assms(1,2,3)]) (use assms(5) MessageTremove in simp)
next
  case (MessageTstat fid)
  then show ?thesis using h Stat_own [OF assms(1,2,3), of ctx fid _ s'] by (auto simp: to_msg_eq)
next
  case (MessageTwstat fid stat)
  then show ?thesis using h Stat_own [OF assms(1,2,3), of ctx fid _ s' stat] by (auto simp: to_msg0_eq)
qed (use h assms in \<open>simp_all\<close>)

lemma served_own:
  assumes "served fs removable w0 s" and "own w0 {#}"
  shows "quiet s \<and> own (se_world s) (ents s) \<and> files_ok own s"
  using assms(1)
proof induction
  case start
  show ?case using assms(2) by (simp add: new_session_def files_ok_def quiet_def ents_def)
next
  case (request s order msize ctx msg r s')
  have "quiet s'"
    using Handle_table [OF _ request.hyps(2)] request.IH request.hyps(3,4) allowed_no_afid by blast
  then show ?case using Handle_own [OF _ _ _ request.hyps(2-4)] request.IH by blast
qed

end

end
