(* ===== verification/P9_Ramfs.thy ===== *)
theory P9_Ramfs
  imports P9_Owner
begin

text \<open>
  The file system in memory (\<^verbatim>\<open>ramfs/\<close>): its entries with their reference counts
  (\<^verbatim>\<open>inode.go\<close>), the server (\<^verbatim>\<open>filesys.go\<close>) and the handles given to sessions
  (\<^verbatim>\<open>dirent.go\<close>).  Entries are in a heap, a list indexed by their address; the root is at
  address 0 and entries are never moved.  A map of children is an association list in the order
  in which the program's next loop over the map visits it.  Each function takes and releases the locks of
  entries itself, one at a time, so that no call waits when operations run one after the other.
\<close>

section \<open>Entries\<close>

type_synonym addr = nat

record FileEnt =
  fe_nref :: int
  fe_children :: "(string \<times> addr) list option"
  fe_Info :: Dir
  fe_Data :: "byte list"

type_synonym heap = "FileEnt list"

definition incref :: "addr \<Rightarrow> heap \<Rightarrow> string \<times> heap" where
  "incref a h = (d_Name (fe_Info (h ! a)), h[a := (h ! a)\<lparr>fe_nref := fe_nref (h ! a) + 1\<rparr>])"

text \<open>A loop that calls \<open>f\<close> for each element; \<open>None\<close> when a call runs out of fuel.\<close>

primrec each :: "('x \<Rightarrow> 'h \<Rightarrow> 'h option) \<Rightarrow> 'x list \<Rightarrow> 'h \<Rightarrow> 'h option" where
  "each f [] h = Some h"
| "each f (x # xs) h = (case f x h of None \<Rightarrow> None | Some h' \<Rightarrow> each f xs h')"

text \<open>
  The count is decremented under the lock; the count that is left decides on the children.  The
  fuel bounds the depth of the recursion.
\<close>

primrec decref_fuel :: "nat \<Rightarrow> addr \<Rightarrow> heap \<Rightarrow> heap option" where
  "decref_fuel 0 a h = None"
| "decref_fuel (Suc k) a h =
     (let h1 = h[a := (h ! a)\<lparr>fe_nref := fe_nref (h ! a) - 1\<rparr>]; n = fe_nref (h1 ! a) in
      if n = 0 \<and> fe_children (h1 ! a) \<noteq> None then
        (case each (decref_fuel k) (map snd (the (fe_children (h1 ! a)))) h1 of
           None \<Rightarrow> None
         | Some h2 \<Rightarrow> Some (h2[a := (h2 ! a)\<lparr>fe_children := None\<rparr>]))
      else Some h1)"

definition decref :: "addr \<Rightarrow> heap \<Rightarrow> heap" where
  "decref a h = (case decref_fuel (Suc (length h)) a h of Some h' \<Rightarrow> h' | None \<Rightarrow> h)"

definition link_child :: "addr \<Rightarrow> string \<Rightarrow> addr \<Rightarrow> heap \<Rightarrow> error option \<times> heap" where
  "link_child f name c h =
     (case fe_children (h ! f) of
        None \<Rightarrow> (Some (Errorf ''not a directory.''), h)
      | Some cs \<Rightarrow>
          if map_of cs name \<noteq> None then (Some (Errorf ''duplicate file name''), h)
          else (None, h[f := (h ! f)\<lparr>fe_children := Some ((name, c) # cs)\<rparr>]))"

definition unlink_child :: "addr \<Rightarrow> string \<Rightarrow> heap \<Rightarrow> error option \<times> heap" where
  "unlink_child f name h =
     (case fe_children (h ! f) of
        None \<Rightarrow> (Some (Errorf ''not a directory.''), h)
      | Some cs \<Rightarrow>
          if map_of cs name = None then (Some (Errorf ''not found''), h)
          else (None, h[f := (h ! f)\<lparr>fe_children := Some (filter (\<lambda>(n, _). n \<noteq> name) cs)\<rparr>]))"

text \<open>Dropping an entry from a list in place: \<open>i\<close> is where the next entry that is kept goes.\<close>

function dropEnt_loop :: "addr \<Rightarrow> nat \<Rightarrow> nat \<Rightarrow> addr list \<Rightarrow> addr list" where
  "dropEnt_loop x i j lst =
     (if j < length lst then
        (let lst' = lst[i := lst ! j] in dropEnt_loop x (if lst' ! i \<noteq> x then i + 1 else i) (j + 1) lst')
      else take i lst)"
  by auto
termination
  by (relation "measure (\<lambda>(x, i, j, lst). length lst - j)") (auto simp: Let_def)

declare dropEnt_loop.simps [simp del]

definition dropEnt :: "addr \<Rightarrow> addr list \<Rightarrow> addr list" where
  "dropEnt x lst = dropEnt_loop x 0 0 lst"

lemma dropEnt_loop_filter: "i \<le> j \<Longrightarrow> j \<le> length lst \<Longrightarrow>
    dropEnt_loop x i j lst = take i lst @ filter (\<lambda>y. y \<noteq> x) (drop j lst)"
proof (induction x i j lst rule: dropEnt_loop.induct)
  case (1 x i j lst)
  show ?case
  proof (cases "j < length lst")
    case True
    let ?l = "lst[i := lst ! j]" and ?i = "if lst ! j \<noteq> x then i + 1 else i"
    have i: "i < length lst" using 1 True by simp
    then have "dropEnt_loop x i j lst = dropEnt_loop x ?i (j + 1) ?l"
      using True by (subst dropEnt_loop.simps) (simp add: Let_def)
    also have "\<dots> = take ?i ?l @ filter (\<lambda>y. y \<noteq> x) (drop (j + 1) ?l)"
      using "1.IH" [OF True refl] "1.prems" True i by simp
    also have "drop (j + 1) ?l = drop (j + 1) lst" using "1.prems"(1) by simp
    also have "take ?i ?l = take i lst @ (if lst ! j \<noteq> x then [lst ! j] else [])"
      using i by (simp add: take_Suc_conv_app_nth)
    finally show ?thesis unfolding Cons_nth_drop_Suc [OF True, symmetric] by simp
  next
    case False
    then show ?thesis using "1.prems" by (subst dropEnt_loop.simps) simp
  qed
qed

lemma dropEnt_filter: "dropEnt x lst = filter (\<lambda>y. y \<noteq> x) lst"
  by (simp add: dropEnt_def dropEnt_loop_filter)

section \<open>The server\<close>

text \<open>
  \<open>fsv_lists\<close> holds the lists of entries that open directories are read from (\<open>dirList\<close> of
  \<^verbatim>\<open>dirent.go\<close>), each with the flag that it has been given out.
\<close>

record fServer =
  fsv_lastpath :: u64
  fsv_heap :: heap
  fsv_lists :: "(Dir list \<times> bool) list"

abbreviation (input) root :: addr where "root \<equiv> 0"

definition next_path :: "fServer \<Rightarrow> u64 \<times> fServer" where
  "next_path fs = (fsv_lastpath fs + 1, fs\<lparr>fsv_lastpath := fsv_lastpath fs + 1\<rparr>)"

record fSession =
  sn_uname :: string
  sn_umask :: u32

text \<open>A handle; \<open>fh_ent\<close> and \<open>fh_sess\<close> are nil in \<open>noHandle\<close> alone.\<close>

record FileHandle =
  fh_Path :: string
  fh_Mode :: Flag
  fh_ent :: "addr option"
  fh_sess :: "fSession option"
  fh_parents :: "addr list"

text \<open>\<open>now\<close> is the reading of the clock in the call that makes the entry of a path number.\<close>

definition newDir :: "(u64 \<Rightarrow> gotime) \<Rightarrow> u64 \<Rightarrow> string \<Rightarrow> string \<Rightarrow> u32 \<Rightarrow> Dir" where
  "newDir now path fname uname mode =
     \<lparr>d_Type = 0, d_Dev = 0,
      d_Qid = \<lparr>q_Type = (if mode AND DMDIR > 0 then QTDIR else 0), q_Version = 0, q_Path = path\<rparr>,
      d_Mode = mode, d_AccessTime = now path, d_ModTime = now path, d_Length = 0,
      d_Name = fname, d_UID = uname, d_GID = ''users'', d_MUID = uname\<rparr>"

definition fserver :: "(u64 \<Rightarrow> gotime) \<Rightarrow> fServer" where
  "fserver now =
     \<lparr>fsv_lastpath = 1,
      fsv_heap = [\<lparr>fe_nref = 1, fe_children = Some [], fe_Info = newDir now 1 ''/'' ''root'' (DMDIR OR 0x1FD), fe_Data = []\<rparr>],
      fsv_lists = []\<rparr>"

definition withName :: "string \<Rightarrow> Dir \<Rightarrow> Dir" where
  "withName name dir = dir\<lparr>d_Name := name\<rparr>"

definition fServer_Create :: "addr \<Rightarrow> Dir \<Rightarrow> heap \<Rightarrow> (error + addr) \<times> heap" where
  "fServer_Create parent info h =
     (let f = \<lparr>fe_nref = 1, fe_children = (if q_Type (d_Qid info) AND QTDIR \<noteq> 0 then Some [] else None),
               fe_Info = info, fe_Data = []\<rparr>;
          a = length h in
      case link_child parent (d_Name info) a (h @ [f]) of
        (Some err, _) \<Rightarrow> (Inl err, h)
      | (None, h') \<Rightarrow> (Inr a, h'))"

definition ram_Attach :: "string \<Rightarrow> fServer \<Rightarrow> FileHandle \<times> fServer" where
  "ram_Attach uname fs =
     (\<lparr>fh_Path = ''/'', fh_Mode = 0, fh_ent = Some root, fh_sess = Some \<lparr>sn_uname = uname, sn_umask = 0x12\<rparr>, fh_parents = []\<rparr>,
      fs\<lparr>fsv_heap := snd (incref root (fsv_heap fs))\<rparr>)"

section \<open>Handles\<close>

definition noHandle :: FileHandle where
  "noHandle = \<lparr>fh_Path = ''/'', fh_Mode = 0, fh_ent = None, fh_sess = None, fh_parents = []\<rparr>"

definition ENotImpl :: error where
  "ENotImpl = Rerr ''not implemented''"

definition FileEnt_IsDir :: "FileEnt \<Rightarrow> bool" where
  "FileEnt_IsDir f \<longleftrightarrow> d_Mode (fe_Info f) AND DMDIR > 0"

text \<open>The qid of \<open>noHandle\<close>, which no session asks for, would be a nil dereference.\<close>

definition handle_Qid :: "FileHandle \<Rightarrow> fServer \<Rightarrow> Qid" where
  "handle_Qid fh fs = (case fh_ent fh of Some a \<Rightarrow> d_Qid (fe_Info (fsv_heap fs ! a)) | None \<Rightarrow> zero_Qid)"

definition dirList_Next :: "nat \<Rightarrow> fServer \<Rightarrow> Dir list \<times> fServer" where
  "dirList_Next i fs =
     (case fsv_lists fs ! i of (dirs, done) \<Rightarrow>
        if done then ([], fs) else (dirs, fs\<lparr>fsv_lists := (fsv_lists fs)[i := (dirs, True)]\<rparr>))"

definition ent_OpenDir :: "addr \<Rightarrow> Dir \<Rightarrow> fServer \<Rightarrow> (error + nat) \<times> fServer" where
  "ent_OpenDir a dotdot fs =
     (let f = fsv_heap fs ! a in
      if \<not> FileEnt_IsDir f then (Inl (Rerr ''not a directory''), fs)
      else
        (let dirs = dotdot # map (\<lambda>(_, c). fe_Info (fsv_heap fs ! c))
               (case fe_children f of Some cs \<Rightarrow> cs | None \<Rightarrow> []) in
         (Inr (length (fsv_lists fs)), fs\<lparr>fsv_lists := fsv_lists fs @ [(dirs, False)]\<rparr>)))"

definition handle_OpenDir :: "FileHandle \<Rightarrow> fServer \<Rightarrow> (error + nat) \<times> fServer" where
  "handle_OpenDir fh fs =
     (case fh_ent fh of
        None \<Rightarrow> (Inl nil_deref, fs)
      | Some a \<Rightarrow>
          (let up = (if fh_parents fh = [] then a else last (fh_parents fh)) in
           ent_OpenDir a (withName ''..'' (fe_Info (fsv_heap fs ! up))) fs))"

definition handle_Clunk :: "FileHandle \<Rightarrow> heap \<Rightarrow> heap" where
  "handle_Clunk fh h = fold decref (rev (fh_parents fh)) (case fh_ent fh of Some a \<Rightarrow> decref a h | None \<Rightarrow> h)"

definition handle_Remove :: "FileHandle \<Rightarrow> heap \<Rightarrow> error option \<times> heap" where
  "handle_Remove fh h =
     (case fh_ent fh of
        None \<Rightarrow> (Some nil_deref, h)
      | Some a \<Rightarrow>
          if fh_parents fh = [] then (Some (Rerr ''cannot remove root''), handle_Clunk fh h)
          else
            (let p = last (fh_parents fh) in
             case unlink_child p (d_Name (fe_Info (h ! a))) h of
               (None, h1) \<Rightarrow> (None, handle_Clunk fh (decref a h1))
             | (Some err, h1) \<Rightarrow> (Some err, handle_Clunk fh h1)))"

text \<open>The entries met on the way, as far as the names are found.\<close>

fun ent_Walk :: "heap \<Rightarrow> addr \<Rightarrow> string list \<Rightarrow> addr list" where
  "ent_Walk h a [] = []"
| "ent_Walk h a (name # names) =
     (case (case fe_children (h ! a) of Some cs \<Rightarrow> map_of cs name | None \<Rightarrow> None) of
        None \<Rightarrow> []
      | Some c \<Rightarrow> c # ent_Walk h c names)"

definition handle_Walk :: "FileHandle \<Rightarrow> string list \<Rightarrow> heap \<Rightarrow> (Qid list \<times> FileHandle \<times> error option) \<times> heap" where
  "handle_Walk fh names h =
     (case WalkName (fh_Path fh) names of
        Inl err \<Rightarrow> (([], noHandle, Some err), h)
      | Inr newpath \<Rightarrow>
          (let ndel = length (takeWhile (\<lambda>n. n = ''..'') names); parents = fh_parents fh; np = length parents in
           if np < ndel then (([], noHandle, Some (Rerr ''invalid path'')), h)
           else
             (case (if 0 < ndel then Some (parents ! (np - ndel)) else fh_ent fh) of
                None \<Rightarrow> (([], noHandle, Some nil_deref), h)
              | Some ref \<Rightarrow>
                  (let ans = map (\<lambda>i. parents ! (np - 1 - i)) [0..<ndel] @ ent_Walk h ref (drop ndel names);
                       sz = length ans;
                       qids = map (\<lambda>a. d_Qid (fe_Info (h ! a))) ans in
                   if names \<noteq> [] \<and> sz = 0 then (([], noHandle, Some ErrNotfound), h)
                   else if names \<noteq> [] \<and> sz \<noteq> length names then ((qids, noHandle, None), h)
                   else
                     (let ps = take (np - ndel) parents @ [ref] @ drop ndel ans in
                      ((qids, \<lparr>fh_Path = newpath, fh_Mode = 0, fh_ent = Some (last ps), fh_sess = fh_sess fh,
                          fh_parents = butlast ps\<rparr>, None),
                       fold (\<lambda>p h. snd (incref p h)) ps h))))))"

definition session_newDir :: "(u64 \<Rightarrow> gotime) \<Rightarrow> fSession \<Rightarrow> string \<Rightarrow> u32 \<Rightarrow> fServer \<Rightarrow> Dir \<times> fServer" where
  "session_newDir now sess fname mode fs =
     (let mode = mode XOR (mode AND sn_umask sess) in
      case next_path fs of (path, fs') \<Rightarrow> (newDir now path fname (sn_uname sess) mode, fs'))"

definition createImpl :: "(u64 \<Rightarrow> gotime) \<Rightarrow> FileHandle \<Rightarrow> string \<Rightarrow> u32 \<Rightarrow> fServer \<Rightarrow> (error + FileHandle) \<times> fServer" where
  "createImpl now fh fname mode fs =
     (case CreateName (fh_Path fh) fname of
        Inl err \<Rightarrow> (Inl err, fs)
      | Inr path \<Rightarrow>
          (case (fh_sess fh, fh_ent fh) of
             (Some sess, Some a) \<Rightarrow>
               (case session_newDir now sess fname mode fs of (dir, fs1) \<Rightarrow>
                  (case fServer_Create a dir (fsv_heap fs1) of
                     (Inl err, _) \<Rightarrow> (Inl err, fs1)
                   | (Inr ent, h) \<Rightarrow>
                       (Inr \<lparr>fh_Path = path, fh_Mode = 0, fh_ent = Some ent, fh_sess = Some sess,
                             fh_parents = fh_parents fh @ [a]\<rparr>,
                        fs1\<lparr>fsv_heap := snd (incref ent h)\<rparr>)))
           | _ \<Rightarrow> (Inl nil_deref, fs)))"

definition handle_Create :: "(u64 \<Rightarrow> gotime) \<Rightarrow> FileHandle \<Rightarrow> string \<Rightarrow> u32 \<Rightarrow> Flag \<Rightarrow> fServer \<Rightarrow>
    (FileHandle \<times> FileHandle \<times> error option) \<times> fServer" where
  "handle_Create now fh name perm mode fs =
     (case createImpl now fh name perm fs of
        (Inl err, fs') \<Rightarrow> ((noHandle, noHandle, Some err), fs')
      | (Inr h2, fs') \<Rightarrow> (let h2 = h2\<lparr>fh_Mode := mode\<rparr> in ((h2, h2, None), fs')))"

text \<open>What is set before an error is met stays set.\<close>

definition ent_WStat :: "Dir \<Rightarrow> FileEnt \<Rightarrow> error option \<times> FileEnt" where
  "ent_WStat dir f =
     (let f1 = (if d_Mode dir \<noteq> NOT 0 then f\<lparr>fe_Info := (fe_Info f)\<lparr>d_Mode := d_Mode dir\<rparr>\<rparr> else f);
          f2 = (if d_UID dir \<noteq> [] then f1\<lparr>fe_Info := (fe_Info f1)\<lparr>d_UID := d_UID dir\<rparr>\<rparr> else f1);
          f3 = (if d_GID dir \<noteq> [] then f2\<lparr>fe_Info := (fe_Info f2)\<lparr>d_GID := d_GID dir\<rparr>\<rparr> else f2) in
      if d_Name dir \<noteq> [] then (Some ENotImpl, f3)
      else if d_Length dir \<noteq> NOT 0 then
        (if of_nat (length (fe_Data f3)) < d_Length dir then (Some (Rerr ''Size larger than file''), f3)
         else (None, f3\<lparr>fe_Data := take (unat (d_Length dir)) (fe_Data f3)\<rparr>))
      else (None, f3))"

definition slice_panic :: error where
  "slice_panic = Panic ''slice bounds out of range''"

text \<open>Reading into a buffer of \<open>m\<close> bytes gives the bytes that are put there.\<close>

definition ent_Read :: "nat \<Rightarrow> int \<Rightarrow> FileEnt \<Rightarrow> byte list \<times> error option" where
  "ent_Read m offset f =
     (let n = int (length (fe_Data f)) in
      if n < offset then ([], Some EOF)
      else
        (let m = (if n < offset + int m then n - offset else int m) in
         if offset < 0 then ([], Some slice_panic)
         else (take (nat m) (drop (nat offset) (fe_Data f)), None)))"

text \<open>\<open>copy\<close> to the slice of \<open>xs\<close> that starts at \<open>i\<close> and has the length of \<open>ys\<close>.\<close>

definition copy_at :: "nat \<Rightarrow> byte list \<Rightarrow> byte list \<Rightarrow> byte list" where
  "copy_at i ys xs = take i xs @ ys @ drop (i + length ys) xs"

definition ent_Write :: "byte list \<Rightarrow> int \<Rightarrow> FileEnt \<Rightarrow> (int \<times> error option) \<times> FileEnt" where
  "ent_Write p offset f =
     (let n = int (length (fe_Data f)) in
      if n < offset then ((0, Some (Rerr ''invalid address'')), f)
      else
        (let q = d_Qid (fe_Info f);
             f1 = f\<lparr>fe_Info := (fe_Info f)\<lparr>d_Qid := q\<lparr>q_Version := q_Version q + 1\<rparr>\<rparr>\<rparr>;
             m = int (length p) in
         if offset < 0 then ((0, Some slice_panic), f1)
         else
           (let data = (if n < offset + m then
                          (let n = n - offset;
                               data = (if 0 < n then copy_at (nat offset) (take (nat n) p) (fe_Data f1) else fe_Data f1) in
                           data @ drop (nat n) p)
                        else copy_at (nat offset) p (fe_Data f1)) in
            ((m, None),
             f1\<lparr>fe_Data := data, fe_Info := (fe_Info f1)\<lparr>d_Length := of_nat (length data)\<rparr>\<rparr>))))"

text \<open>An operation of an entry, through the handle.\<close>

definition through :: "FileHandle \<Rightarrow> 'r \<Rightarrow> (FileEnt \<Rightarrow> 'r \<times> FileEnt) \<Rightarrow> fServer \<Rightarrow> 'r \<times> fServer" where
  "through fh nil f fs =
     (case fh_ent fh of
        None \<Rightarrow> (nil, fs)
      | Some a \<Rightarrow> (case f (fsv_heap fs ! a) of (r, e) \<Rightarrow> (r, fs\<lparr>fsv_heap := (fsv_heap fs)[a := e]\<rparr>)))"

definition handle_WStat :: "FileHandle \<Rightarrow> Dir \<Rightarrow> fServer \<Rightarrow> error option \<times> fServer" where
  "handle_WStat fh dir = through fh (Some nil_deref) (ent_WStat dir)"

definition handle_Stat :: "FileHandle \<Rightarrow> fServer \<Rightarrow> (error + Dir) \<times> fServer" where
  "handle_Stat fh = through fh (Inl nil_deref) (\<lambda>e. (Inr (fe_Info e), e))"

definition handle_Read :: "FileHandle \<Rightarrow> nat \<Rightarrow> int \<Rightarrow> fServer \<Rightarrow> (byte list \<times> error option) \<times> fServer" where
  "handle_Read fh m offset = through fh ([], Some nil_deref) (\<lambda>e. (ent_Read m offset e, e))"

definition handle_Write :: "FileHandle \<Rightarrow> byte list \<Rightarrow> int \<Rightarrow> fServer \<Rightarrow> (int \<times> error option) \<times> fServer" where
  "handle_Write fh p offset = through fh (0, Some nil_deref) (ent_Write p offset)"

text \<open>The server as a file system for sessions.\<close>

definition ramfs :: "(u64 \<Rightarrow> gotime) \<Rightarrow> (fServer, FileHandle, FileHandle, nat) FileSys" where
  "ramfs now =
     \<lparr>fs_RequireAuth = (\<lambda>ctx w. (False, w)),
      fs_Auth = (\<lambda>ctx uname aname w. ((None, None), w)),
      fs_Attach = (\<lambda>ctx uname aname af w. case ram_Attach uname w of (fh, w') \<Rightarrow> ((Some fh, None), w')),
      de_Qid = handle_Qid,
      de_OpenDir = (\<lambda>ctx fh w. case handle_OpenDir fh w of
         (Inl err, w') \<Rightarrow> ((None, Some err), w') | (Inr n, w') \<Rightarrow> ((Some n, None), w')),
      de_Walk = (\<lambda>ctx fh names w. case handle_Walk fh names (fsv_heap w) of
         ((qids, fh', err), h) \<Rightarrow> ((qids, Some fh', err), w\<lparr>fsv_heap := h\<rparr>)),
      de_Create = (\<lambda>ctx fh name perm mode w. case handle_Create now fh name perm mode w of
         ((ent, file, err), w') \<Rightarrow> ((Some ent, Some file, err), w')),
      de_Open = (\<lambda>ctx fh mode w. ((Some fh, None), w)),
      de_Remove = (\<lambda>ctx fh w. case handle_Remove fh (fsv_heap w) of (err, h) \<Rightarrow> (err, w\<lparr>fsv_heap := h\<rparr>)),
      de_Clunk = (\<lambda>ctx fh w. (None, w\<lparr>fsv_heap := handle_Clunk fh (fsv_heap w)\<rparr>)),
      de_Stat = (\<lambda>ctx fh. handle_Stat fh),
      de_WStat = (\<lambda>ctx fh dir. handle_WStat fh dir),
      fi_Read = (\<lambda>ctx fh m offset. handle_Read fh m offset),
      fi_Write = (\<lambda>ctx fh p offset. handle_Write fh p offset),
      fi_IOUnit = (\<lambda>fh w. 0), fi_isAuthFile = (\<lambda>fh. False), af_Success = (\<lambda>fh w. False),
      rn_Next = (\<lambda>i ctx w. case dirList_Next i w of (dirs, w') \<Rightarrow> (Inr dirs, w'))\<rparr>"

section \<open>Dropping a reference\<close>

definition kids :: "FileEnt \<Rightarrow> addr list" where
  "kids f = (case fe_children f of Some cs \<Rightarrow> map snd cs | None \<Rightarrow> [])"

definition names_of :: "FileEnt \<Rightarrow> string list" where
  "names_of f = (case fe_children f of Some cs \<Rightarrow> map fst cs | None \<Rightarrow> [])"

text \<open>An entry of a heap of \<open>n\<close> entries: its children exist, and their names are distinct.\<close>

definition ent_ok :: "nat \<Rightarrow> FileEnt \<Rightarrow> bool" where
  "ent_ok n f \<longleftrightarrow> set (kids f) \<subseteq> {..<n} \<and> distinct (names_of f)"

definition wf_heap :: "heap \<Rightarrow> bool" where
  "wf_heap h \<longleftrightarrow> (\<forall>f\<in>set h. ent_ok (length h) f)"

text \<open>The entries that are in use.\<close>

definition live :: "heap \<Rightarrow> addr set" where
  "live h = {b. b < length h \<and> 1 \<le> fe_nref (h ! b)}"

lemma finite_live [simp, intro]: "finite (live h)"
  by (simp add: live_def)

lemma kids_upd [simp]:
  "kids (f\<lparr>fe_nref := n\<rparr>) = kids f" "kids (f\<lparr>fe_children := None\<rparr>) = []"
  "kids (f\<lparr>fe_children := Some cs\<rparr>) = map snd cs" "kids (f\<lparr>fe_Info := i\<rparr>) = kids f" "kids (f\<lparr>fe_Data := d\<rparr>) = kids f"
  by (simp_all add: kids_def)

lemma ent_ok_upd [simp]:
  "ent_ok m (f\<lparr>fe_nref := n\<rparr>) = ent_ok m f" "ent_ok m (f\<lparr>fe_children := None\<rparr>)"
  "ent_ok m (f\<lparr>fe_children := Some cs\<rparr>) \<longleftrightarrow> set (map snd cs) \<subseteq> {..<m} \<and> distinct (map fst cs)"
  "ent_ok m (f\<lparr>fe_Info := i\<rparr>) = ent_ok m f" "ent_ok m (f\<lparr>fe_Data := d\<rparr>) = ent_ok m f"
  by (simp_all add: ent_ok_def kids_def names_of_def)

lemma kids_children: "fe_children f = Some cs \<Longrightarrow> kids f = map snd cs"
  by (simp add: kids_def)

lemma ent_ok_mono: "ent_ok m f \<Longrightarrow> m \<le> n \<Longrightarrow> ent_ok n f"
  by (force simp: ent_ok_def)

lemma wf_heap_nth: "wf_heap h \<Longrightarrow> a < length h \<Longrightarrow> ent_ok (length h) (h ! a)"
  by (simp add: wf_heap_def)

lemma wf_heap_upd: "wf_heap h \<Longrightarrow> ent_ok (length h) f \<Longrightarrow> wf_heap (h[a := f])"
  using set_update_subset_insert [of h a f] by (auto simp: wf_heap_def)

lemma wf_heap_kids: "wf_heap h \<Longrightarrow> a < length h \<Longrightarrow> set (kids (h ! a)) \<subseteq> {..<length h}"
  using wf_heap_nth [of h a] by (simp add: ent_ok_def)

text \<open>\<open>h'\<close> has the entries of \<open>h\<close> with some references dropped.\<close>

definition dropped :: "heap \<Rightarrow> heap \<Rightarrow> bool" where
  "dropped h h' \<longleftrightarrow> length h' = length h \<and> live h' \<subseteq> live h \<and> wf_heap h' \<and>
     (\<forall>b<length h. fe_Info (h' ! b) = fe_Info (h ! b) \<and> fe_Data (h' ! b) = fe_Data (h ! b) \<and>
        fe_children (h' ! b) \<in> {fe_children (h ! b), None})"

lemma dropped_refl: "wf_heap h \<Longrightarrow> dropped h h"
  by (simp add: dropped_def)

lemma dropped_trans [trans]: "dropped h h1 \<Longrightarrow> dropped h1 h2 \<Longrightarrow> dropped h h2"
  by (auto simp: dropped_def) (metis option.distinct(1))

lemma each_dropped:
  assumes "\<And>a h. wf_heap h \<Longrightarrow> card (live h) < k \<Longrightarrow> a < length h \<Longrightarrow> \<exists>h'. f a h = Some h' \<and> dropped h h'"
    and "wf_heap h" and "card (live h) < k" and "set as \<subseteq> {..<length h}"
  shows "\<exists>h'. each f as h = Some h' \<and> dropped h h'"
  using assms(2-4)
proof (induction as arbitrary: h)
  case (Cons a as)
  obtain h1 where h1: "f a h = Some h1" "dropped h h1" using assms(1) [of h a] Cons.prems by auto
  then have "card (live h1) \<le> card (live h)" by (auto simp: dropped_def intro: card_mono)
  then obtain h2 where "each f as h1 = Some h2" "dropped h1 h2"
    using Cons.IH [of h1] Cons.prems h1(2) by (auto simp: dropped_def)
  then show ?case using h1 dropped_trans by auto
qed (simp add: dropped_refl)

lemma decref_fuel_dropped:
  assumes "wf_heap h" and "card (live h) < k" and "a < length h"
  shows "\<exists>h'. decref_fuel k a h = Some h' \<and> dropped h h'"
  using assms
proof (induction k arbitrary: a h)
  case (Suc k)
  let ?h1 = "h[a := (h ! a)\<lparr>fe_nref := fe_nref (h ! a) - 1\<rparr>]"
  have wf1: "wf_heap ?h1" using Suc.prems by (intro wf_heap_upd) (simp_all add: wf_heap_nth)
  have d1: "dropped h ?h1"
    using wf1 Suc.prems(3) by (auto simp: dropped_def live_def nth_list_update)
  show ?case
  proof (cases "fe_nref (?h1 ! a) = 0 \<and> fe_children (?h1 ! a) \<noteq> None")
    case True
    let ?cs = "map snd (the (fe_children (?h1 ! a)))"
    have cs: "?cs = kids (?h1 ! a)" using True by (auto simp: kids_def)
    have "live ?h1 = live h - {a}" and "a \<in> live h"
      using True Suc.prems(3) by (auto simp: live_def nth_list_update)
    then have k: "card (live ?h1) < k"
      using Suc.prems(2) card_Suc_Diff1 [of "live h" a] by simp
    have "set ?cs \<subseteq> {..<length ?h1}"
      unfolding cs by (rule wf_heap_kids [OF wf1]) (simp add: Suc.prems(3))
    from each_dropped [of k "decref_fuel k", OF _ wf1 k this] Suc.IH
    obtain h2 where h2: "each (decref_fuel k) ?cs ?h1 = Some h2" "dropped ?h1 h2" by blast
    have "dropped h2 (h2[a := (h2 ! a)\<lparr>fe_children := None\<rparr>])"
      using h2(2) Suc.prems(3) by (auto simp: dropped_def live_def nth_list_update intro!: wf_heap_upd)
    then have "dropped h (h2[a := (h2 ! a)\<lparr>fe_children := None\<rparr>])"
      using d1 h2(2) by (blast intro: dropped_trans)
    moreover have "decref_fuel (Suc k) a h = Some (h2[a := (h2 ! a)\<lparr>fe_children := None\<rparr>])"
      using True h2(1) by (simp only: decref_fuel.simps Let_def if_True option.case simp_thms)
    ultimately show ?thesis by blast
  qed (use d1 in \<open>auto simp: Let_def\<close>)
qed simp

lemma card_live: "card (live h) \<le> length h"
proof -
  have "live h \<subseteq> {..<length h}" by (auto simp: live_def)
  then show ?thesis by (metis card_lessThan card_mono finite_lessThan)
qed

lemma decref_dropped:
  assumes "wf_heap h" and "a < length h"
  shows "decref_fuel (Suc (length h)) a h = Some (decref a h)" and "dropped h (decref a h)"
proof -
  obtain h' where "decref_fuel (Suc (length h)) a h = Some h'" "dropped h h'"
    using decref_fuel_dropped [OF assms(1) _ assms(2), of "Suc (length h)"] card_live [of h] by auto
  then show "decref_fuel (Suc (length h)) a h = Some (decref a h)" "dropped h (decref a h)"
    by (simp_all add: decref_def)
qed

section \<open>Reference counts\<close>

text \<open>
  The links from the entries of the heap to their children, without those of \<open>D\<close>: entries whose
  count has become 0 and whose children are being released.
\<close>

definition links :: "addr set \<Rightarrow> heap \<Rightarrow> addr multiset" where
  "links D h = (\<Sum>b\<in>{..<length h} - D. mset (kids (h ! b)))"

text \<open>The count of every entry is the number of the links to it and of the references \<open>R\<close> held outside.\<close>

definition counted :: "addr set \<Rightarrow> heap \<Rightarrow> addr multiset \<Rightarrow> bool" where
  "counted D h R \<longleftrightarrow> wf_heap h \<and> (\<forall>a\<in>#R. a < length h) \<and> (\<forall>b\<in>D. b < length h \<and> fe_nref (h ! b) = 0) \<and>
     (\<forall>a<length h. fe_nref (h ! a) = int (count (links D h + R) a))"

lemma links_same: "kids f = kids (h ! a) \<Longrightarrow> links D (h[a := f]) = links D h"
proof -
  assume "kids f = kids (h ! a)"
  then have "kids (h[a := f] ! b) = kids (h ! b)" for b
    by (cases "a < length h") (auto simp: nth_list_update not_less list_update_beyond)
  then show ?thesis by (simp add: links_def)
qed

lemma links_in: "a \<in> D \<Longrightarrow> links D (h[a := f]) = links D h"
  unfolding links_def by (rule sum.cong) (auto, metis nth_list_update_neq)

lemma links_insert:
  assumes "a \<notin> D" and "a < length h"
  shows "links D h = links (insert a D) h + mset (kids (h ! a))"
  unfolding links_def Diff_insert [of _ a D] using assms
  by (subst sum.remove [where x = a]) (simp_all add: add.commute)

lemma counted_pos: "counted D h (add_mset a R) \<Longrightarrow> a < length h \<and> 1 \<le> fe_nref (h ! a) \<and> a \<notin> D"
  by (auto simp: counted_def)

lemma counted_step:
  assumes "counted D h (add_mset a R)"
  shows "counted D (h[a := (h ! a)\<lparr>fe_nref := fe_nref (h ! a) - 1\<rparr>]) R"
proof -
  have a: "a < length h" "1 \<le> fe_nref (h ! a)" "a \<notin> D" using counted_pos [OF assms] by auto
  have "wf_heap (h[a := (h ! a)\<lparr>fe_nref := fe_nref (h ! a) - 1\<rparr>])"
    using assms a by (intro wf_heap_upd) (simp_all add: counted_def wf_heap_nth)
  then show ?thesis
    using assms a unfolding counted_def
    by (subst links_same) (auto simp: nth_list_update)
qed

lemma counted_dying:
  assumes "counted D h R" and "a < length h" and "a \<notin> D" and "fe_nref (h ! a) = 0"
  shows "counted (insert a D) h (mset (kids (h ! a)) + R)"
proof -
  have "wf_heap h" using assms(1) by (simp add: counted_def)
  then have "\<forall>c\<in>#mset (kids (h ! a)) + R. c < length h"
    using assms(1,2) wf_heap_kids [of h a] by (auto simp: counted_def)
  then show ?thesis
    using assms links_insert [OF assms(3,2)] by (auto simp: counted_def)
qed

lemma counted_dead:
  assumes "counted (insert a D) h R" and "a \<notin> D"
  shows "counted D (h[a := (h ! a)\<lparr>fe_children := None\<rparr>]) R"
proof -
  let ?h = "h[a := (h ! a)\<lparr>fe_children := None\<rparr>]"
  have a: "a < length h" "fe_nref (h ! a) = 0" using assms(1) by (auto simp: counted_def)
  have "links D ?h = links (insert a D) h"
    using links_insert [OF assms(2), of ?h] links_in [of a "insert a D" h] a by simp
  moreover have "wf_heap ?h" using assms(1) by (intro wf_heap_upd) (auto simp: counted_def)
  ultimately show ?thesis using assms(1) a by (auto simp: counted_def nth_list_update)
qed

lemma each_counted:
  assumes "\<And>D h a R h'. counted D h (add_mset a R) \<Longrightarrow> f a h = Some h' \<Longrightarrow> counted D h' R \<and> (\<forall>b\<in>D. h' ! b = h ! b)"
    and "counted D h (mset as + R)" and "each f as h = Some h'"
  shows "counted D h' R \<and> (\<forall>b\<in>D. h' ! b = h ! b)"
  using assms(2,3)
proof (induction as arbitrary: h)
  case (Cons a as)
  then obtain h1 where h1: "f a h = Some h1" "each f as h1 = Some h'" by (auto split: option.splits)
  have "counted D h1 (mset as + R)" "\<forall>b\<in>D. h1 ! b = h ! b"
    using assms(1) [of D h a "mset as + R" h1] Cons.prems(1) h1(1) by auto
  then show ?case using Cons.IH [OF _ h1(2)] by auto
qed simp

lemma decref_fuel_counted:
  assumes "counted D h (add_mset a R)" and "decref_fuel k a h = Some h'"
  shows "counted D h' R \<and> (\<forall>b\<in>D. h' ! b = h ! b)"
  using assms
proof (induction k arbitrary: D a h R h')
  case (Suc k)
  let ?h1 = "h[a := (h ! a)\<lparr>fe_nref := fe_nref (h ! a) - 1\<rparr>]"
  have a: "a < length h" "a \<notin> D" using counted_pos [OF Suc.prems(1)] by auto
  then have same: "\<forall>b\<in>D. ?h1 ! b = h ! b" by (metis nth_list_update_neq)
  note c1 = counted_step [OF Suc.prems(1)]
  show ?case
  proof (cases "fe_nref (?h1 ! a) = 0 \<and> fe_children (?h1 ! a) \<noteq> None")
    case True
    let ?cs = "map snd (the (fe_children (?h1 ! a)))"
    have cs: "?cs = kids (?h1 ! a)" using True by (auto simp: kids_def)
    obtain h2 where h2: "each (decref_fuel k) ?cs ?h1 = Some h2" "h' = h2[a := (h2 ! a)\<lparr>fe_children := None\<rparr>]"
      using Suc.prems(2) True by (simp only: decref_fuel.simps Let_def if_True simp_thms option.inject split: option.splits) blast
    have "counted (insert a D) ?h1 (mset ?cs + R)"
      unfolding cs by (rule counted_dying [OF c1]) (use a True in auto)
    from each_counted [of "decref_fuel k", OF _ this h2(1)] Suc.IH
    have c2: "counted (insert a D) h2 R" "\<forall>b\<in>D. h2 ! b = ?h1 ! b" by blast+
    then show ?thesis
      using counted_dead [OF c2(1) a(2)] h2(2) same a(2) by (metis nth_list_update_neq)
  next
    case False
    then have "h' = ?h1" using Suc.prems(2) by (simp only: decref_fuel.simps Let_def if_False option.inject)
    then show ?thesis using c1 same by blast
  qed
qed simp

lemma decref_counted:
  assumes "counted {} h (add_mset a R)"
  shows "counted {} (decref a h) R"
proof -
  have "wf_heap h" "a < length h" using assms by (auto simp: counted_def)
  then show ?thesis using decref_fuel_counted [OF assms] decref_dropped(1) by blast
qed

lemma counted_wf: "counted D h R \<Longrightarrow> wf_heap h" and counted_range: "counted D h R \<Longrightarrow> a \<in># R \<Longrightarrow> a < length h"
  by (simp_all add: counted_def)

lemma counted_incref:
  assumes "counted {} h R" and "a < length h"
  shows "counted {} (snd (incref a h)) (add_mset a R)"
proof -
  have "wf_heap (h[a := (h ! a)\<lparr>fe_nref := fe_nref (h ! a) + 1\<rparr>])"
    using assms by (intro wf_heap_upd) (simp_all add: counted_def wf_heap_nth)
  then show ?thesis
    using assms unfolding counted_def incref_def snd_conv
    by (subst links_same) (auto simp: nth_list_update)
qed

lemma length_incref [simp]: "length (snd (incref a h)) = length h"
  by (simp add: incref_def)

lemma counted_increfs:
  assumes "counted {} h R" and "set as \<subseteq> {..<length h}"
  shows "counted {} (fold (\<lambda>p h. snd (incref p h)) as h) (mset as + R)"
  using assms
proof (induction as arbitrary: h R)
  case (Cons a as)
  then have "counted {} (snd (incref a h)) (add_mset a R)" by (intro counted_incref) auto
  from Cons.IH [OF this] Cons.prems(2) show ?case by simp
qed simp

lemma counted_decrefs: "counted {} h (mset as + R) \<Longrightarrow> counted {} (fold decref as h) R"
proof (induction as arbitrary: h)
  case (Cons a as)
  then show ?case using decref_counted [of h a "mset as + R"] by simp
qed simp

lemma counted_same:
  assumes "counted {} h R" and "fe_nref f = fe_nref (h ! a)" and "fe_children f = fe_children (h ! a)"
  shows "counted {} (h[a := f]) R"
proof (cases "a < length h")
  case True
  have k: "kids f = kids (h ! a)" "names_of f = names_of (h ! a)" using assms(3) by (simp_all add: kids_def names_of_def)
  have "wf_heap (h[a := f])"
    using wf_heap_nth [OF counted_wf [OF assms(1)] True] k
    by (intro wf_heap_upd [OF counted_wf [OF assms(1)]]) (simp add: ent_ok_def)
  then show ?thesis
    using assms(1,2) True unfolding counted_def links_same [of f h a, OF k(1)]
    by (simp add: nth_list_update)
next
  case False
  then show ?thesis using assms(1) by (simp add: list_update_beyond)
qed

section \<open>The references of a handle\<close>

definition handle_refs :: "FileHandle \<Rightarrow> addr multiset" where
  "handle_refs fh = (case fh_ent fh of Some a \<Rightarrow> {#a#} | None \<Rightarrow> {#}) + mset (fh_parents fh)"

lemma counted_Clunk:
  assumes "counted {} h (handle_refs fh + R)"
  shows "counted {} (handle_Clunk fh h) R"
proof -
  have "counted {} (case fh_ent fh of Some a \<Rightarrow> decref a h | None \<Rightarrow> h) (mset (rev (fh_parents fh)) + R)"
    using assms decref_counted [of h "the (fh_ent fh)" "mset (fh_parents fh) + R"]
    by (simp add: handle_refs_def split: option.splits)
  then show ?thesis unfolding handle_Clunk_def by (rule counted_decrefs)
qed

lemma filter_key:
  assumes "distinct (map fst cs)" and "map_of cs name = Some c"
  shows "mset (map snd cs) = add_mset c (mset (map snd (filter (\<lambda>(n, _). n \<noteq> name) cs)))"
  using assms
proof (induction cs)
  case (Cons p cs)
  obtain n d where p: "p = (n, d)" by fastforce
  show ?case
  proof (cases "n = name")
    case True
    then have "filter (\<lambda>(n, _). n \<noteq> name) cs = cs" using Cons.prems(1) p by (force simp: filter_id_conv)
    then show ?thesis using True Cons.prems(2) p by simp
  next
    case False
    then show ?thesis using Cons p by simp
  qed
qed simp

lemma counted_unlink:
  assumes "counted {} h R" and "f < length h" and "fe_children (h ! f) = Some cs" and "map_of cs name = Some c"
  shows "counted {} (h[f := (h ! f)\<lparr>fe_children := Some (filter (\<lambda>(n, _). n \<noteq> name) cs)\<rparr>]) (add_mset c R)"
    (is "counted {} ?h _")
proof -
  have wf: "wf_heap h" using assms(1) by (rule counted_wf)
  have ok: "ent_ok (length h) (h ! f)" using wf assms(2) by (rule wf_heap_nth)
  then have d: "distinct (map fst cs)" "set (map snd cs) \<subseteq> {..<length h}"
    using assms(3) by (simp_all add: ent_ok_def kids_def names_of_def)
  have c: "c < length h" using d(2) assms(4) by (auto dest!: map_of_SomeD)
  have "distinct (map fst (filter (\<lambda>(n, _). n \<noteq> name) cs))" using d(1) by (rule distinct_map_filter)
  then have "wf_heap ?h" using d(2) by (intro wf_heap_upd [OF wf]) auto
  moreover have "links {} h = links {} ?h + {#c#}"
    using links_insert [of f "{}" h] links_insert [of f "{}" ?h] links_in [of f "{f}" h] assms(2)
      filter_key [OF d(1) assms(4)] kids_children [OF assms(3)] by simp
  ultimately show ?thesis using assms(1,2) c by (auto simp: counted_def nth_list_update)
qed

text \<open>A removal can proceed when the name it unlinks is gone or still links to the entry.\<close>

definition link_intact :: "FileHandle \<Rightarrow> heap \<Rightarrow> bool" where
  "link_intact fh h \<longleftrightarrow>
     fh_parents fh = [] \<or>
     (case (fh_ent fh, fe_children (h ! last (fh_parents fh))) of
        (Some a, Some cs) \<Rightarrow> map_of cs (d_Name (fe_Info (h ! a))) \<in> {None, Some a}
      | _ \<Rightarrow> True)"

lemma counted_Remove:
  assumes "counted {} h (handle_refs fh + R)" and "fh_ent fh = Some a" and "link_intact fh h"
  shows "counted {} (snd (handle_Remove fh h)) R"
proof (cases "fh_parents fh = []")
  case True
  then show ?thesis using assms(2) counted_Clunk [OF assms(1)] by (simp add: handle_Remove_def)
next
  case False
  let ?p = "last (fh_parents fh)" and ?n = "d_Name (fe_Info (h ! a))"
  have p: "?p < length h" using counted_range [OF assms(1), of ?p] False by (simp add: handle_refs_def)
  show ?thesis
  proof (cases "\<exists>cs. fe_children (h ! ?p) = Some cs \<and> map_of cs ?n \<noteq> None")
    case True
    then obtain cs where cs: "fe_children (h ! ?p) = Some cs" "map_of cs ?n = Some a"
      using assms(2,3) False by (auto simp: link_intact_def)
    let ?h = "h[?p := (h ! ?p)\<lparr>fe_children := Some (filter (\<lambda>(n, _). n \<noteq> ?n) cs)\<rparr>]"
    have "counted {} ?h (add_mset a (handle_refs fh + R))"
      by (rule counted_unlink [OF assms(1) p cs])
    from counted_Clunk [OF decref_counted [OF this]] show ?thesis
      using assms(2) False cs by (simp add: handle_Remove_def unlink_child_def Let_def)
  next
    case no: False
    then have "snd (handle_Remove fh h) = handle_Clunk fh h"
      using assms(2) False by (auto simp: handle_Remove_def unlink_child_def Let_def split: option.splits)
    then show ?thesis using counted_Clunk [OF assms(1)] by simp
  qed
qed

lemma ent_Walk_range: "wf_heap h \<Longrightarrow> a < length h \<Longrightarrow> set (ent_Walk h a names) \<subseteq> {..<length h}"
proof (induction names arbitrary: a)
  case (Cons n ns)
  show ?case
  proof (cases "case fe_children (h ! a) of Some cs \<Rightarrow> map_of cs n | None \<Rightarrow> None")
    case None
    then show ?thesis by simp
  next
    case (Some c)
    then obtain cs where "fe_children (h ! a) = Some cs" "map_of cs n = Some c" by (auto split: option.splits)
    then have "c < length h" using wf_heap_kids [OF Cons.prems] kids_children map_of_SomeD by force
    then show ?thesis using Some Cons.IH [OF Cons.prems(1)] by simp
  qed
qed simp

text \<open>The new handle of a full walk, and the references that are taken for it.\<close>

lemma handle_Walk_cases:
  assumes "wf_heap h" and "fh_ent fh = Some a" and "a < length h" and "set (fh_parents fh) \<subseteq> {..<length h}"
    and "handle_Walk fh names h = ((qids, fh', err), h')"
  obtains (nothing) "h' = h" "err \<noteq> None \<or> (names \<noteq> [] \<and> length qids \<noteq> length names)"
  | (full) ps where "err = None" "ps \<noteq> []" "set ps \<subseteq> {..<length h}" "fh_ent fh' = Some (last ps)"
      "fh_parents fh' = butlast ps" "fh_sess fh' = fh_sess fh" "h' = fold (\<lambda>p h. snd (incref p h)) ps h"
      "length qids = length names"
proof (cases "WalkName (fh_Path fh) names")
  case (Inl e)
  show ?thesis by (rule nothing) (use Inl assms(5) in \<open>auto simp: handle_Walk_def\<close>)
next
  case (Inr newpath)
  define ndel where "ndel = length (takeWhile (\<lambda>n. n = ''..'') names)"
  let ?ps = "fh_parents fh" and ?np = "length (fh_parents fh)"
  have nd: "ndel \<le> length names" by (simp add: ndel_def length_takeWhile_le)
  show ?thesis
  proof (cases "?np < ndel")
    case True
    show ?thesis by (rule nothing) (use True Inr assms(5) in \<open>auto simp: handle_Walk_def Let_def ndel_def\<close>)
  next
    case False
    define ref where "ref = (if 0 < ndel then ?ps ! (?np - ndel) else a)"
    have refeq: "(if 0 < ndel then Some (?ps ! (?np - ndel)) else fh_ent fh) = Some ref"
      using assms(2) by (simp add: ref_def)
    have ref: "ref < length h" using assms(3,4) False by (auto simp: ref_def subset_iff)
    define ans where "ans = map (\<lambda>i. ?ps ! (?np - 1 - i)) [0..<ndel] @ ent_Walk h ref (drop ndel names)"
    have ans: "set ans \<subseteq> {..<length h}"
      using assms(4) False ent_Walk_range [OF assms(1) ref] by (force simp: ans_def)
    let ?r = "take (?np - ndel) ?ps @ [ref] @ drop ndel ans"
    have r: "set ?r \<subseteq> {..<length h}"
      using assms(4) ref ans set_take_subset [of "?np - ndel" ?ps] set_drop_subset [of ndel ans] by auto
    have "names = [] \<Longrightarrow> ans = []" using nd by (simp add: ans_def)
    then have w: "((qids, fh', err), h') =
        (if names \<noteq> [] \<and> length ans = 0 then (([], noHandle, Some ErrNotfound), h)
         else if names \<noteq> [] \<and> length ans \<noteq> length names
         then ((map (\<lambda>a. d_Qid (fe_Info (h ! a))) ans, noHandle, None), h)
         else ((map (\<lambda>a. d_Qid (fe_Info (h ! a))) ans,
            \<lparr>fh_Path = newpath, fh_Mode = 0, fh_ent = Some (last ?r), fh_sess = fh_sess fh, fh_parents = butlast ?r\<rparr>, None),
            fold (\<lambda>p h. snd (incref p h)) ?r h))"
      using assms(5) unfolding handle_Walk_def Inr sum.case Let_def ndel_def [symmetric]
      by (simp only: refeq False if_False option.case ans_def [symmetric])
    show ?thesis
    proof (cases "names \<noteq> [] \<and> length ans \<noteq> length names")
      case True
      show ?thesis by (rule nothing) (use True w in \<open>auto split: if_splits\<close>)
    next
      case False
      then have "length ans = length names" using \<open>names = [] \<Longrightarrow> ans = []\<close> by auto
      then show ?thesis using w False r by - (rule full [of ?r], auto split: if_splits)
    qed
  qed
qed

lemma counted_Create:
  assumes "counted {} h R" and "p < length h" and "fServer_Create p info h = (Inr a, h')"
  shows "counted {} h' R \<and> a < length h' \<and> length h \<le> length h'"
proof -
  let ?f = "\<lparr>fe_nref = 1, fe_children = (if q_Type (d_Qid info) AND QTDIR \<noteq> 0 then Some [] else None),
               fe_Info = info, fe_Data = []\<rparr>"
  let ?h = "h @ [?f]"
  obtain cs where cs: "fe_children (h ! p) = Some cs" "map_of cs (d_Name info) = None" "a = length h"
      "h' = ?h[p := (?h ! p)\<lparr>fe_children := Some ((d_Name info, a) # cs)\<rparr>]"
    using assms(2,3) by (auto simp: fServer_Create_def link_child_def Let_def nth_append split: option.splits if_splits)
  have wf: "wf_heap h" using assms(1) by (rule counted_wf)
  have okp: "set (map snd cs) \<subseteq> {..<length h}" "distinct (map fst cs)"
    using wf_heap_nth [OF wf assms(2)] cs(1) by (auto simp: ent_ok_def kids_def names_of_def)
  have "ent_ok n ?f" for n by (simp add: ent_ok_def kids_def names_of_def)
  then have wf1: "wf_heap ?h" using wf by (auto simp: wf_heap_def intro: ent_ok_mono)
  have wf2: "wf_heap h'" unfolding cs(4)
    using okp cs(2,3) by (intro wf_heap_upd [OF wf1]) (auto simp: map_of_eq_None_iff)
  have links1: "links {} ?h = links {} h"
  proof -
    have "kids (?h ! length h) = []" by (simp add: kids_def)
    then show ?thesis by (simp add: links_def nth_append)
  qed
  have "links {} h' = add_mset a (links {} h)"
    using links_insert [of p "{}" h'] links_insert [of p "{}" ?h] links_in [of p "{p}" ?h] cs assms(2) links1 kids_children [OF cs(1)]
    by (simp add: nth_append)
  moreover have "count (links {} h) a = 0" "count R a = 0"
  proof -
    have "a \<notin># kids_of" if "kids_of = mset (kids (h ! b))" "b < length h" for kids_of b
      using wf_heap_kids [OF wf that(2)] that(1) cs(3) by auto
    then show "count (links {} h) a = 0" by (auto simp: links_def count_sum not_in_iff)
    show "count R a = 0" using counted_range [OF assms(1), of a] cs(3) by (metis less_irrefl not_in_iff)
  qed
  ultimately show ?thesis
    using assms(1,2) wf2 cs by (auto simp: counted_def nth_list_update nth_append less_Suc_eq)
qed

section \<open>The server as an owner of its handles\<close>

definition held_refs :: "FileHandle multiset \<Rightarrow> addr multiset" where
  "held_refs E = (\<Sum>fh\<in>#E. handle_refs fh)"

lemma held_refs_simps [simp]: "held_refs {#} = {#}" "held_refs (add_mset fh E) = handle_refs fh + held_refs E"
  by (simp_all add: held_refs_def)

text \<open>The counts are exact when the handles \<open>E\<close> are given out; the root has one reference of its own.\<close>

definition ram_own :: "fServer \<Rightarrow> FileHandle multiset \<Rightarrow> bool" where
  "ram_own fs E \<longleftrightarrow> counted {} (fsv_heap fs) (add_mset root (held_refs E)) \<and>
     (\<forall>fh\<in>#E. fh_ent fh \<noteq> None \<and> fh_sess fh \<noteq> None)"

definition ram_removable :: "FileHandle \<Rightarrow> fServer \<Rightarrow> bool" where
  "ram_removable fh fs \<longleftrightarrow> link_intact fh (fsv_heap fs)"

lemma ram_own_heap: "ram_own fs E \<Longrightarrow> fsv_heap fs' = fsv_heap fs \<Longrightarrow> ram_own fs' E"
  by (simp add: ram_own_def)

lemma ram_own_init: "ram_own (fserver now) {#}"
  by (auto simp: ram_own_def fserver_def counted_def wf_heap_def ent_ok_def kids_def names_of_def links_def)

lemma ram_own_handle:
  assumes "ram_own fs (add_mset fh E)"
  obtains a sess where "fh_ent fh = Some a" "fh_sess fh = Some sess" "a < length (fsv_heap fs)"
    "set (fh_parents fh) \<subseteq> {..<length (fsv_heap fs)}" "wf_heap (fsv_heap fs)"
    "counted {} (fsv_heap fs) (handle_refs fh + add_mset root (held_refs E))"
proof -
  have c: "counted {} (fsv_heap fs) (handle_refs fh + add_mset root (held_refs E))"
    using assms by (simp add: ram_own_def)
  obtain a sess where "fh_ent fh = Some a" "fh_sess fh = Some sess" using assms by (auto simp: ram_own_def)
  then show thesis
    using that [of a sess] c counted_wf [OF c] counted_range [OF c] by (auto simp: handle_refs_def)
qed

lemma through_own:
  assumes "ram_own fs E" and "\<And>e. fe_nref (snd (f e)) = fe_nref e \<and> fe_children (snd (f e)) = fe_children e"
  shows "ram_own (snd (through fh nil f fs)) E"
  using assms counted_same by (auto simp: through_def ram_own_def split: option.splits prod.splits) (metis snd_conv counted_same)+

lemma ent_WStat_counts: "fe_nref (snd (ent_WStat dir e)) = fe_nref e \<and> fe_children (snd (ent_WStat dir e)) = fe_children e"
  by (simp add: ent_WStat_def Let_def)

lemma ent_Write_counts: "fe_nref (snd (ent_Write p offset e)) = fe_nref e \<and> fe_children (snd (ent_Write p offset e)) = fe_children e"
  by (simp add: ent_Write_def Let_def)

lemma ram_Attach_own:
  assumes "ram_own fs E" and "ram_Attach uname fs = (fh, fs')"
  shows "ram_own fs' (add_mset fh E)"
proof -
  have c: "counted {} (fsv_heap fs) (add_mset root (held_refs E))" using assms(1) by (simp add: ram_own_def)
  have "root < length (fsv_heap fs)" using counted_range [OF c, of root] by simp
  from counted_incref [OF c this] show ?thesis
    using assms by (auto simp: ram_own_def ram_Attach_def handle_refs_def)
qed

lemma handle_Walk_own:
  assumes "ram_own fs (add_mset fh E)" and "handle_Walk fh names (fsv_heap fs) = ((qids, fh', err), h')"
  shows "ram_own (fs\<lparr>fsv_heap := h'\<rparr>) (if err = None \<and> (names = [] \<or> length qids = length names)
    then add_mset fh' (add_mset fh E) else add_mset fh E)"
proof -
  obtain a sess where r: "fh_ent fh = Some a" "fh_sess fh = Some sess" "a < length (fsv_heap fs)"
    "set (fh_parents fh) \<subseteq> {..<length (fsv_heap fs)}" "wf_heap (fsv_heap fs)"
    using ram_own_handle [OF assms(1)] by metis
  show ?thesis
  proof (cases rule: handle_Walk_cases [OF r(5,1,3,4) assms(2)])
    case 1
    then show ?thesis using assms(1) ram_own_heap [OF assms(1)] by auto
  next
    case (2 ps)
    have c: "counted {} (fsv_heap fs) (add_mset root (held_refs (add_mset fh E)))" using assms(1) by (simp add: ram_own_def)
    have "mset ps = add_mset (last ps) (mset (butlast ps))"
      by (metis 2(2) append_butlast_last_id mset_append mset_single_iff union_mset_add_mset_right add.right_neutral mset.simps)
    then have "handle_refs fh' = mset ps" using 2 by (simp add: handle_refs_def)
    then show ?thesis
      using counted_increfs [OF c 2(3)] 2 assms(1) r by (auto simp: ram_own_def)
  qed
qed

lemma handle_Create_own:
  assumes "ram_own fs (add_mset fh E)" and "handle_Create now fh name perm mode fs = ((fh', file, err), fs')"
  shows "ram_own fs' (if err = None then add_mset fh' E else add_mset fh E)"
proof -
  obtain a sess where r: "fh_ent fh = Some a" "fh_sess fh = Some sess" "a < length (fsv_heap fs)"
    "counted {} (fsv_heap fs) (handle_refs fh + add_mset root (held_refs E))"
    using ram_own_handle [OF assms(1)] by metis
  obtain rc fs1 where c: "createImpl now fh name perm fs = (rc, fs1)" by fastforce
  show ?thesis
  proof (cases rc)
    case (Inl e)
    then have "fsv_heap fs1 = fsv_heap fs"
      using c r by (auto simp: createImpl_def session_newDir_def next_path_def Let_def split: sum.splits prod.splits)
    then show ?thesis using Inl c assms ram_own_heap [OF assms(1), of fs1] by (auto simp: handle_Create_def)
  next
    case (Inr fh2)
    obtain path where p: "CreateName (fh_Path fh) name = Inr path"
      using Inr c by (cases "CreateName (fh_Path fh) name") (auto simp: createImpl_def)
    obtain info fs2 where n: "session_newDir now sess name perm fs = (info, fs2)" by fastforce
    then have hp: "fsv_heap fs2 = fsv_heap fs" by (auto simp: session_newDir_def next_path_def Let_def)
    obtain b h where b: "fServer_Create a info (fsv_heap fs) = (Inr b, h)"
      using Inr c p n r hp by (cases "fServer_Create a info (fsv_heap fs)"; cases "fst (fServer_Create a info (fsv_heap fs))")
        (auto simp: createImpl_def)
    have k: "counted {} h (handle_refs fh + add_mset root (held_refs E)) \<and> b < length h \<and> length (fsv_heap fs) \<le> length h"
      by (rule counted_Create [OF r(4,3) b])
    then have k2: "counted {} (snd (incref b h)) (add_mset b (handle_refs fh + add_mset root (held_refs E)))"
      by (intro counted_incref) auto
    have "fh' = fh2\<lparr>fh_Mode := mode\<rparr>" "err = None" "fs' = fs1"
      using assms(2) c Inr by (auto simp: handle_Create_def Let_def)
    moreover have "fh_ent fh2 = Some b" "fh_sess fh2 = Some sess" "fh_parents fh2 = fh_parents fh @ [a]"
        "fsv_heap fs1 = snd (incref b h)"
      using Inr c p n r hp b by (auto simp: createImpl_def)
    ultimately show ?thesis
      using k2 r(1) assms(1) by (auto simp: ram_own_def handle_refs_def add_mset_commute ac_simps)
  qed
qed

interpretation ram: entry_owner "ramfs now" ram_own ram_removable for now
proof unfold_locales
  fix w :: fServer and E :: "FileHandle multiset" and ctx uname aname
  assume o: "ram_own w E"
  show "ram_own (snd (fs_RequireAuth (ramfs now) ctx w)) E" using o by (simp add: ramfs_def)
  show "ram_own (snd (fs_Auth (ramfs now) ctx uname aname w)) E" using o by (simp add: ramfs_def)
  show "ram_own (snd (fi_Read (ramfs now) ctx f n offset w)) E" for f n offset
    by (simp add: ramfs_def handle_Read_def through_own [OF o])
  show "ram_own (snd (fi_Write (ramfs now) ctx f p offset w)) E" for f p offset
    by (simp add: ramfs_def handle_Write_def through_own [OF o] ent_Write_counts)
  show "ram_own (snd (rn_Next (ramfs now) nx ctx w)) E" for nx
    using o ram_own_heap [OF o] by (auto simp: ramfs_def dirList_Next_def split: prod.splits)
  show "ram_own w' (if err = None \<and> oe \<noteq> None then add_mset (the oe) E else E)"
    if "fs_Attach (ramfs now) ctx uname aname af w = ((oe, err), w')" for af oe err w'
    using that ram_Attach_own [OF o] by (auto simp: ramfs_def split: prod.splits)
next
  fix w :: fServer and E :: "FileHandle multiset" and ctx :: Context and e
  assume o: "ram_own w (add_mset e E)"
  obtain a sess where r: "fh_ent e = Some a" "fh_sess e = Some sess"
    "counted {} (fsv_heap w) (handle_refs e + add_mset root (held_refs E))"
    using ram_own_handle [OF o] by metis
  have E: "\<forall>fh\<in>#E. fh_ent fh \<noteq> None \<and> fh_sess fh \<noteq> None" using o by (simp add: ram_own_def)
  show "ram_own (snd (de_Clunk (ramfs now) ctx e w)) E"
    using counted_Clunk [OF r(3)] E by (simp add: ramfs_def ram_own_def)
  show "ram_own (snd (de_Remove (ramfs now) ctx e w)) E" if "ram_removable e w"
    using counted_Remove [OF r(3,1)] that E by (simp add: ramfs_def ram_own_def ram_removable_def case_prod_beta)
  show "ram_own (snd (de_OpenDir (ramfs now) ctx e w)) (add_mset e E)"
    using o ram_own_heap [OF o]
    by (auto simp: ramfs_def handle_OpenDir_def ent_OpenDir_def Let_def split: prod.splits sum.splits option.splits if_splits)
  show "ram_own (snd (de_Open (ramfs now) ctx e mode w)) (add_mset e E)" for mode
    using o by (simp add: ramfs_def)
  show "ram_own (snd (de_Stat (ramfs now) ctx e w)) (add_mset e E)"
    by (simp add: ramfs_def handle_Stat_def through_own [OF o])
  show "ram_own (snd (de_WStat (ramfs now) ctx e dir w)) (add_mset e E)" for dir
    by (simp add: ramfs_def handle_WStat_def through_own [OF o] ent_WStat_counts)
  show "ram_own w' (if err = None \<and> oe \<noteq> None \<and> (names = [] \<or> length qids = length names)
        then add_mset (the oe) (add_mset e E) else add_mset e E)"
    if "de_Walk (ramfs now) ctx e names w = ((qids, oe, err), w')" for names qids oe err w'
  proof -
    obtain q fh' er h' where w: "handle_Walk e names (fsv_heap w) = ((q, fh', er), h')" by (metis surj_pair)
    then have "qids = q" "oe = Some fh'" "err = er" "w' = w\<lparr>fsv_heap := h'\<rparr>" using that by (simp_all add: ramfs_def)
    then show ?thesis using handle_Walk_own [OF o w] by (auto split: if_splits)
  qed
  show "ram_own w' (if err = None \<and> oe \<noteq> None \<and> ofile \<noteq> None then add_mset (the oe) E else add_mset e E)"
    if "de_Create (ramfs now) ctx e name perm mode w = ((oe, ofile, err), w')" for name perm mode oe ofile err w'
  proof -
    obtain fh' fl er fs' where c: "handle_Create now e name perm mode w = ((fh', fl, er), fs')" by (metis surj_pair)
    then have "oe = Some fh'" "ofile = Some fl" "err = er" "w' = fs'" using that by (simp_all add: ramfs_def)
    then show ?thesis using handle_Create_own [OF o c] by (auto split: if_splits)
  qed
qed

end
