(* ===== verification/P9_Ramfs_Correct.thy ===== *)
theory P9_Ramfs_Correct
  imports P9_Ramfs
begin

text \<open>
  What the file system in memory does when a session serves it: its reference counts, removal,
  reading and writing.
\<close>

section \<open>What removing does to the tree\<close>

lemma fold_decref_dropped: "wf_heap h \<Longrightarrow> set as \<subseteq> {..<length h} \<Longrightarrow> dropped h (fold decref as h)"
proof (induction as arbitrary: h)
  case (Cons a as)
  have d: "dropped h (decref a h)" using Cons.prems by (intro decref_dropped(2)) auto
  then have "dropped (decref a h) (fold decref as (decref a h))"
    using Cons.prems by (intro Cons.IH) (auto simp: dropped_def)
  with d show ?case by (auto intro: dropped_trans)
qed (simp add: dropped_refl)

lemma Clunk_dropped:
  assumes "wf_heap h" and "fh_ent fh = Some a" and "a < length h" and "set (fh_parents fh) \<subseteq> {..<length h}"
  shows "dropped h (handle_Clunk fh h)"
proof -
  have d: "dropped h (decref a h)" using assms by (intro decref_dropped(2))
  then have "dropped (decref a h) (fold decref (rev (fh_parents fh)) (decref a h))"
    using assms(4) by (intro fold_decref_dropped) (auto simp: dropped_def)
  with d show ?thesis using assms(2) by (auto simp: handle_Clunk_def intro: dropped_trans)
qed

lemma dropped_children:
  "dropped h h' \<Longrightarrow> b < length h \<Longrightarrow> fe_children (h' ! b) = fe_children (h ! b) \<or> fe_children (h' ! b) = None"
  by (auto simp: dropped_def)

lemma filter_key_None: "map_of (filter (\<lambda>(n, _). n \<noteq> name) cs) name = None"
  by (induction cs) auto

lemma Remove_name_gone:
  assumes "wf_heap h" and "fh_ent fh = Some a" and "a < length h" and "set (fh_parents fh) \<subseteq> {..<length h}"
    and "fh_parents fh \<noteq> []" and "fe_children (h ! last (fh_parents fh)) = Some cs"
    and "map_of cs (d_Name (fe_Info (h ! a))) = Some b"
  shows "fst (handle_Remove fh h) = None \<and>
    ent_Walk (snd (handle_Remove fh h)) (last (fh_parents fh)) [d_Name (fe_Info (h ! a))] = []"
proof -
  let ?p = "last (fh_parents fh)" and ?n = "d_Name (fe_Info (h ! a))"
  let ?cs = "filter (\<lambda>(n, _). n \<noteq> ?n) cs"
  let ?h = "h[?p := (h ! ?p)\<lparr>fe_children := Some ?cs\<rparr>]"
  have p: "?p < length h" using assms(4,5) last_in_set by blast
  have ok: "ent_ok (length h) (h ! ?p)" using assms(1) p by (rule wf_heap_nth)
  have "distinct (map fst ?cs)"
    using ok assms(6) by (intro distinct_map_filter) (simp add: ent_ok_def names_of_def)
  then have wf: "wf_heap ?h"
    using ok assms(6) by (intro wf_heap_upd [OF assms(1)]) (auto simp: ent_ok_def kids_def names_of_def)
  have d: "dropped ?h (decref a ?h)" using wf assms(3) by (intro decref_dropped(2)) simp_all
  moreover have "dropped (decref a ?h) (handle_Clunk fh (decref a ?h))"
    using d assms(2,3,4) by (intro Clunk_dropped [where a = a]) (auto simp: dropped_def)
  ultimately have "dropped ?h (handle_Clunk fh (decref a ?h))" by (rule dropped_trans)
  from dropped_children [OF this, of ?p] p
  have "fe_children (handle_Clunk fh (decref a ?h) ! ?p) \<in> {Some ?cs, None}" by auto
  moreover have "handle_Remove fh h = (None, handle_Clunk fh (decref a ?h))"
    using assms(2,5,6,7) by (simp add: handle_Remove_def unlink_child_def Let_def)
  ultimately show ?thesis by (auto simp: filter_key_None)
qed

section \<open>Reading and writing through a session\<close>

text \<open>The fid is open on the entry at the address with the mode.\<close>

definition open_on :: "Fid \<Rightarrow> addr \<Rightarrow> Flag \<Rightarrow> (fServer, FileHandle, FileHandle) session \<Rightarrow> bool" where
  "open_on fid a mode s \<longleftrightarrow> fid \<noteq> NOFID \<and>
     (case se_refs s fid of
        Some ref \<Rightarrow> \<not> sf_locked ref \<and> sf_Ent ref \<noteq> None \<and> sf_Mode ref = mode \<and>
          (case sf_File ref of Some (FsFile fh) \<Rightarrow> fh_ent fh = Some a | _ \<Rightarrow> False)
      | None \<Rightarrow> False)"

lemma open_onE:
  assumes "open_on fid a mode s"
  obtains ref fh where "fid \<noteq> NOFID" "se_refs s fid = Some ref" "\<not> sf_locked ref" "sf_Mode ref = mode"
    "sf_File ref = Some (FsFile fh)" "fh_ent fh = Some a"
    "getRef fid s = (Inr (ref\<lparr>sf_locked := True\<rparr>), set_ref fid (ref\<lparr>sf_locked := True\<rparr>) s)"
  using assms by (auto simp: open_on_def intro: getRef_free split: option.splits sfile.splits)

text \<open>The contents of a file after a write.\<close>

definition written :: "nat \<Rightarrow> byte list \<Rightarrow> byte list \<Rightarrow> byte list" where
  "written offset p data = take offset data @ p @ drop (offset + length p) data"

lemma ent_Write_data:
  assumes "0 \<le> offset" and "offset \<le> int (length (fe_Data f))"
  shows "fst (ent_Write p offset f) = (int (length p), None) \<and>
    fe_Data (snd (ent_Write p offset f)) = written (nat offset) p (fe_Data f)"
proof -
  let ?o = "nat offset" and ?n = "length (fe_Data f)"
  have o: "?o \<le> ?n" "offset = int ?o" using assms by auto
  show ?thesis
  proof (cases "int ?n < offset + int (length p)")
    case True
    then have l: "?n < ?o + length p" using o by linarith
    have "nat (int ?n - offset) = ?n - ?o" using o by linarith
    then show ?thesis
      using True o l assms
      by (auto simp: ent_Write_def Let_def written_def copy_at_def min_def)
  next
    case False
    then show ?thesis using assms by (simp add: ent_Write_def Let_def written_def copy_at_def)
  qed
qed

lemma ent_Read_data:
  assumes "0 \<le> offset" and "offset \<le> int (length (fe_Data f))"
  shows "ent_Read m offset f = (take m (drop (nat offset) (fe_Data f)), None)"
  using assms by (auto simp: ent_Read_def Let_def)

lemma Handle_Tread_ram:
  assumes "open_on fid a mode s" and "mode AND 3 \<noteq> OWRITE"
  shows "fst (Handle (sfs (ramfs now) order msize) ctx (MessageTread fid offset cnt) s) =
    (case ent_Read (read_count msize cnt) (sint offset) (fsv_heap (se_world s) ! a) of
       (p, Some err) \<Rightarrow> Inl err | (p, None) \<Rightarrow> Inr (MessageRread p))"
proof -
  obtain ref fh where r: "sf_Mode ref = mode" "sf_File ref = Some (FsFile fh)" "fh_ent fh = Some a"
    "getRef fid s = (Inr (ref\<lparr>sf_locked := True\<rparr>), set_ref fid (ref\<lparr>sf_locked := True\<rparr>) s)"
    using open_onE [OF assms(1)] by metis
  show ?thesis
    using assms(2) r
    by (simp add: sess_Read_def file_Read_def ramfs_def handle_Read_def through_def split: prod.split option.split)
qed

lemma Handle_Twrite_ram:
  assumes "open_on fid a mode s" and "mode AND 3 = OWRITE \<or> mode AND 3 = ORDWR"
  shows "Handle (sfs (ramfs now) order msize) ctx (MessageTwrite fid offset data) s =
    (case ent_Write data (sint offset) (fsv_heap (se_world s) ! a) of
       ((n, err), e) \<Rightarrow>
         (case err of Some err \<Rightarrow> Inl err | None \<Rightarrow> Inr (MessageRwrite (word_of_int n)),
          s\<lparr>se_world := (se_world s)\<lparr>fsv_heap := (fsv_heap (se_world s))[a := e]\<rparr>\<rparr>))"
proof -
  obtain ref fh where r: "fid \<noteq> NOFID" "se_refs s fid = Some ref" "\<not> sf_locked ref"
    "sf_Mode ref = mode" "sf_File ref = Some (FsFile fh)" "fh_ent fh = Some a"
    "getRef fid s = (Inr (ref\<lparr>sf_locked := True\<rparr>), set_ref fid (ref\<lparr>sf_locked := True\<rparr>) s)"
    using open_onE [OF assms(1)] by metis
  have u: "unlock fid (set_ref fid (ref\<lparr>sf_locked := True\<rparr>) s\<lparr>se_world := w\<rparr>) = s\<lparr>se_world := w\<rparr>" for w
    using r(2,3) by (simp add: unlock_def set_ref_def fun_upd_idem)
  obtain n err e where w: "ent_Write data (sint offset) (fsv_heap (se_world s) ! a) = ((n, err), e)"
    by (metis surj_pair)
  show ?thesis
    using assms(2) r(4-7) w u
    by (auto simp: sess_Write_def file_Write_def ramfs_def handle_Write_def through_def split: option.split)
qed

section \<open>A small tree\<close>

text \<open>
  For examples: the root with a file \<open>''x''\<close>, made after another file of that name was removed, which
  a handle still holds.  The clock stands still.
\<close>

abbreviation (input) ram0 :: "(fServer, FileHandle, FileHandle) session sessionHandler" where
  "ram0 \<equiv> sfs (ramfs (\<lambda>_. zero_time)) [] 1000"

definition ram_reqs :: "(Context \<times> Message) list" where
  "ram_reqs = [(None, MessageTattach 1 NOFID ''glenda'' []), (None, MessageTwalk 1 2 [])]"

definition ram_state :: "(fServer, FileHandle, FileHandle) session" where
  "ram_state = snd (handle_all ram0 ram_reqs (new_session (fserver (\<lambda>_. zero_time))))"

lemma ram_state_served: "served (ramfs (\<lambda>_. zero_time)) ram_removable (fserver (\<lambda>_. zero_time)) ram_state"
proof -
  let ?s0 = "new_session (fserver (\<lambda>_. zero_time))"
  have ok: "all_allowed ram_removable ram0 ram_reqs ?s0" by code_simp
  have st: "list_all (\<lambda>r. \<not> stalled r) (fst (handle_all ram0 ram_reqs ?s0))" by code_simp
  show ?thesis
    unfolding ram_state_def by (rule served_handle_all [OF served.start _ ok st]) (simp only: prod.collapse)
qed

definition ram_file :: "int \<Rightarrow> u64 \<Rightarrow> FileEnt" where
  "ram_file n path = \<lparr>fe_nref = n, fe_children = None, fe_Info = newDir (\<lambda>_. zero_time) path ''x'' ''glenda'' 0x1A4, fe_Data = []\<rparr>"

definition ram_tree :: fServer where
  "ram_tree = \<lparr>fsv_lastpath = 3,
     fsv_heap = [\<lparr>fe_nref = 2, fe_children = Some [(''x'', 2)],
       fe_Info = newDir (\<lambda>_. zero_time) 1 ''/'' ''root'' (DMDIR OR 0x1FD), fe_Data = []\<rparr>, ram_file 1 2, ram_file 1 3],
     fsv_lists = []\<rparr>"

definition ram_handle :: FileHandle where
  "ram_handle = \<lparr>fh_Path = ''/x'', fh_Mode = ORDWR, fh_ent = Some 1,
     fh_sess = Some \<lparr>sn_uname = ''glenda'', sn_umask = 0x12\<rparr>, fh_parents = [root]\<rparr>"

definition ram_open :: "(fServer, FileHandle, FileHandle) session" where
  "ram_open = \<lparr>se_refs = (\<lambda>_. None)(4 := Some \<lparr>sf_locked = False, sf_Ent = Some ram_handle,
     sf_File = Some (FsFile ram_handle), sf_Mode = ORDWR\<rparr>), se_world = ram_tree\<rparr>"

lemma ram_tree_own: "ram_own ram_tree {#ram_handle#}"
proof -
  have "{..<3::nat} = {0, 1, 2}" by auto
  then show ?thesis
    by (auto simp: ram_own_def ram_tree_def ram_handle_def ram_file_def counted_def wf_heap_def ent_ok_def kids_def
        names_of_def links_def handle_refs_def numeral_3_eq_3 less_Suc_eq)
qed

lemma ram_open_on: "open_on 4 1 ORDWR ram_open"
  by (simp add: open_on_def ram_open_def ram_handle_def NOFID_eq)

section \<open>Properties\<close>



text \<open>
  C37.  What that excludes: removing through a handle whose name now links to another entry succeeds,
  and the name of the other entry is gone.
\<close>

theorem stale_remove_unlinks_other:
  assumes "ram_own fs (add_mset fh E)" and "fh_ent fh = Some a" and "fh_parents fh \<noteq> []"
    and "ent_Walk (fsv_heap fs) (last (fh_parents fh)) [d_Name (fe_Info (fsv_heap fs ! a))] = [b]" and "b \<noteq> a"
  shows "fst (handle_Remove fh (fsv_heap fs)) = None \<and>
    ent_Walk (snd (handle_Remove fh (fsv_heap fs))) (last (fh_parents fh)) [d_Name (fe_Info (fsv_heap fs ! a))] = []"
proof -
  obtain cs where "fe_children (fsv_heap fs ! last (fh_parents fh)) = Some cs"
    "map_of cs (d_Name (fe_Info (fsv_heap fs ! a))) = Some b"
    using assms(4) by (auto split: option.splits)
  moreover have "a < length (fsv_heap fs)" "set (fh_parents fh) \<subseteq> {..<length (fsv_heap fs)}" "wf_heap (fsv_heap fs)"
    using ram_own_handle [OF assms(1)] assms(2) by (metis option.inject)+
  ultimately show ?thesis using assms(2,3) by (intro Remove_name_gone [where b = b])
qed

theorem stale_remove_unlinks_other_witness:
  "ent_Walk (fsv_heap ram_tree) root [''x''] = [2] \<and> fst (handle_Remove ram_handle (fsv_heap ram_tree)) = None \<and>
   ent_Walk (snd (handle_Remove ram_handle (fsv_heap ram_tree))) root [''x''] = []"
proof -
  have v: "fh_ent ram_handle = Some 1" "fh_parents ram_handle = [root]" by (simp_all add: ram_handle_def)
  have n: "d_Name (fe_Info (fsv_heap ram_tree ! 1)) = ''x''" "ent_Walk (fsv_heap ram_tree) root [''x''] = [2]"
    by (simp_all add: ram_tree_def ram_file_def newDir_def)
  from stale_remove_unlinks_other [OF ram_tree_own v(1), of 2, unfolded n(1) v(2) last.simps] show ?thesis
    by (simp add: n(2) del: ent_Walk.simps)
qed

text \<open>
  C13.  What is written through one fid is read through any fid that is open on the same entry: a
  write at an offset inside the file or at its end succeeds for all its bytes, and afterwards a read
  gives as many bytes as were asked for and fit a message, from the contents with the bytes at the
  offset replaced.
\<close>

theorem ramfs_write_then_read:
  assumes "open_on fid a mode s" and "mode AND 3 = OWRITE \<or> mode AND 3 = ORDWR"
    and "open_on fid' a mode' s" and "mode' AND 3 \<noteq> OWRITE" and "a < length (fsv_heap (se_world s))"
    and "0 \<le> sint offset" and "sint offset \<le> int (length (fe_Data (fsv_heap (se_world s) ! a)))"
    and "new = written (nat (sint offset)) p (fe_Data (fsv_heap (se_world s) ! a))"
    and "0 \<le> sint offset'" and "sint offset' \<le> int (length new)"
  shows "\<exists>s1. Handle (sfs (ramfs now) order msize) ctx (MessageTwrite fid offset p) s =
      (Inr (MessageRwrite (word_of_int (int (length p)))), s1) \<and>
    fst (Handle (sfs (ramfs now) order msize) ctx' (MessageTread fid' offset' cnt) s1) =
      Inr (MessageRread (take (read_count msize cnt) (drop (nat (sint offset')) new)))"
proof -
  obtain e where e: "ent_Write p (sint offset) (fsv_heap (se_world s) ! a) = ((int (length p), None), e)" "fe_Data e = new"
    using ent_Write_data [OF assms(6,7), of p] assms(8) by (metis prod.collapse)
  let ?s1 = "s\<lparr>se_world := (se_world s)\<lparr>fsv_heap := (fsv_heap (se_world s))[a := e]\<rparr>\<rparr>"
  have "open_on fid' a mode' ?s1" using assms(3) by (simp add: open_on_def)
  from Handle_Tread_ram [OF this assms(4)]
  have "fst (Handle (sfs (ramfs now) order msize) ctx' (MessageTread fid' offset' cnt) ?s1) =
      Inr (MessageRread (take (read_count msize cnt) (drop (nat (sint offset')) new)))"
    using ent_Read_data [of "sint offset'" e] assms(5,9,10) e(2) by simp
  moreover have "Handle (sfs (ramfs now) order msize) ctx (MessageTwrite fid offset p) s =
      (Inr (MessageRwrite (word_of_int (int (length p)))), ?s1)"
    using Handle_Twrite_ram [OF assms(1,2)] e(1) by simp
  ultimately show ?thesis by blast
qed

theorem ramfs_write_then_read_witness:
  "\<exists>s1. Handle ram0 None (MessageTwrite 4 0 [1, 2, 3]) ram_open = (Inr (MessageRwrite 3), s1) \<and>
     fst (Handle ram0 None (MessageTread 4 1 10) s1) = Inr (MessageRread [2, 3])"
proof -
  have "1 < length (fsv_heap (se_world ram_open))" "fe_Data (fsv_heap (se_world ram_open) ! 1) = []"
    by (simp_all add: ram_open_def ram_tree_def ram_file_def)
  then show ?thesis
    using ramfs_write_then_read [OF ram_open_on _ ram_open_on, of 0 "[1, 2, 3]" "[1, 2, 3]" 1 "\<lambda>_. zero_time" "[]" 1000 None None 10]
    by (simp add: written_def read_count_def)
qed

text \<open>
  A request whose offset has its top bit set stops the server: a read or a write of an open
  file at such an offset panics.
\<close>

theorem negative_offset_panics:
  assumes "open_on fid a mode s" and "sint offset < 0"
  shows "(mode AND 3 \<noteq> OWRITE \<longrightarrow>
      fst (Handle (sfs (ramfs now) order msize) ctx (MessageTread fid offset cnt) s) = Inl slice_panic) \<and>
    (mode AND 3 = OWRITE \<or> mode AND 3 = ORDWR \<longrightarrow>
      fst (Handle (sfs (ramfs now) order msize) ctx (MessageTwrite fid offset p) s) = Inl slice_panic)"
proof (rule conjI; rule impI)
  assume "mode AND 3 \<noteq> OWRITE"
  from Handle_Tread_ram [OF assms(1) this]
  show "fst (Handle (sfs (ramfs now) order msize) ctx (MessageTread fid offset cnt) s) = Inl slice_panic"
    using assms(2) by (simp add: ent_Read_def Let_def)
next
  assume "mode AND 3 = OWRITE \<or> mode AND 3 = ORDWR"
  from Handle_Twrite_ram [OF assms(1) this]
  show "fst (Handle (sfs (ramfs now) order msize) ctx (MessageTwrite fid offset p) s) = Inl slice_panic"
    using assms(2) by (simp add: ent_Write_def Let_def)
qed

theorem negative_offset_panics_witness:
  "fst (Handle ram0 None (MessageTread 4 0x8000000000000000 10) ram_open) = Inl slice_panic"
  using negative_offset_panics [OF ram_open_on, of "0x8000000000000000" "\<lambda>_. zero_time" "[]" 1000 None 10 "[]"] by simp

end
