(* ===== verification/P9_World.thy ===== *)
theory P9_World
  imports P9_Owner
begin

text \<open>
  Invariants of the world of a file system while it is served: the contract of a \<open>FileSys\<close> whose
  operations all keep a predicate on the world, whatever entry they are called on, and that the
  session of \<^verbatim>\<open>sfilesys.go\<close> then keeps it for every request, also for those that fail or wait for
  ever.
\<close>

locale world_invariant =
  fixes fs :: "('w, 'e, 'f, 'n) FileSys" and I :: "'w \<Rightarrow> bool"
  assumes inv_RequireAuth: "I w \<Longrightarrow> I (snd (fs_RequireAuth fs ctx w))"
    and inv_Auth: "I w \<Longrightarrow> I (snd (fs_Auth fs ctx uname aname w))"
    and inv_Attach: "I w \<Longrightarrow> I (snd (fs_Attach fs ctx uname aname af w))"
    and inv_OpenDir: "I w \<Longrightarrow> I (snd (de_OpenDir fs ctx e w))"
    and inv_Walk: "I w \<Longrightarrow> I (snd (de_Walk fs ctx e names w))"
    and inv_Create: "I w \<Longrightarrow> I (snd (de_Create fs ctx e name perm mode w))"
    and inv_Open: "I w \<Longrightarrow> I (snd (de_Open fs ctx e mode w))"
    and inv_Remove: "I w \<Longrightarrow> I (snd (de_Remove fs ctx e w))"
    and inv_Clunk: "I w \<Longrightarrow> I (snd (de_Clunk fs ctx e w))"
    and inv_Stat: "I w \<Longrightarrow> I (snd (de_Stat fs ctx e w))"
    and inv_WStat: "I w \<Longrightarrow> I (snd (de_WStat fs ctx e dir w))"
    and inv_Read: "I w \<Longrightarrow> I (snd (fi_Read fs ctx f n offset w))"
    and inv_Write: "I w \<Longrightarrow> I (snd (fi_Write fs ctx f p offset w))"
    and inv_Next: "I w \<Longrightarrow> I (snd (rn_Next fs nx ctx w))"
begin

text \<open>The predicate on the world of a session, which its open directories keep.\<close>

abbreviation kept :: "'w \<Rightarrow> 'e multiset \<Rightarrow> bool" where
  "kept \<equiv> (\<lambda>w E. I w)"

definition holds :: "('w, 'e, 'f) session \<Rightarrow> bool" where
  "holds s \<longleftrightarrow> I (se_world s) \<and> files_ok kept s"

lemma holds_new: "I w \<Longrightarrow> holds (new_session w)"
  by (simp add: holds_def new_session_def files_ok_def)

lemma holds_refs:
  "holds s \<Longrightarrow> holds (unlock fid s)" "holds s \<Longrightarrow> holds (del_ref fid s)"
  "holds s \<Longrightarrow> I w \<Longrightarrow> holds (s\<lparr>se_world := w\<rparr>)"
  "holds s \<Longrightarrow> file_ok kept (sf_File ref) \<Longrightarrow> holds (set_ref fid ref s)"
  by (auto simp: holds_def unlock_def del_ref_def set_ref_def files_ok_def split: if_splits)

lemma holds_world: "holds s \<Longrightarrow> I (se_world s)"
  by (simp add: holds_def)

lemma getRef_holds:
  assumes "holds s" and "getRef fid s = (r, s1)"
  shows "holds s1" and "r = Inr ref \<Longrightarrow> file_ok kept (sf_File ref)"
  using assms by (auto simp: getRef_def Let_def holds_def files_ok_def set_ref_def split: if_splits option.splits)

lemma newRef_holds:
  assumes "holds s" and "newRef fid s = (r, s1)"
  shows "holds s1" and "r = Inr ref \<Longrightarrow> file_ok kept (sf_File ref)"
  using assms by (auto simp: newRef_def Let_def holds_def files_ok_def set_ref_def split: if_splits option.splits)

lemma delRef_holds:
  assumes "holds s"
  shows "holds (snd (delRef fs ctx fid remove s))"
  using assms holds_refs(2) [OF assms, of fid] inv_Remove [OF holds_world [OF assms]] inv_Clunk [OF holds_world [OF assms]]
  by (auto simp: delRef_def delRefAction_def Let_def del_ref_def holds_def files_ok_def split: option.split prod.split) 
    (metis snd_conv)+

lemma Auth_holds:
  assumes "holds s"
  shows "holds (snd (sess_Auth fs ctx afid uname aname s))"
proof -
  obtain req w where w: "fs_RequireAuth fs ctx (se_world s) = (req, w)" by fastforce
  have 0: "holds (s\<lparr>se_world := w\<rparr>)" using holds_refs(3) [OF assms] inv_RequireAuth [OF holds_world [OF assms], of ctx] w by simp
  obtain r1 s1 where 1: "newRef afid (s\<lparr>se_world := w\<rparr>) = (r1, s1)" by fastforce
  obtain af er w2 where 2: "fs_Auth fs ctx uname aname (se_world s1) = ((af, er), w2)" by (metis surj_pair)
  note h1 = newRef_holds [OF 0 1]
  have h2: "holds (s1\<lparr>se_world := w2\<rparr>)"
    using holds_refs(3) [OF h1(1)] inv_Auth [OF holds_world [OF h1(1)], of ctx uname aname] 2 by simp
  have "file_ok kept (map_option FsFile af)" by (cases af) simp_all
  then have h3: "holds (unlock afid (set_ref afid (aref\<lparr>sf_File := map_option FsFile af\<rparr>) (s1\<lparr>se_world := w2\<rparr>)))" for aref
    by (intro holds_refs(1) holds_refs(4) h2) simp
  show ?thesis
    using assms 0 1 2 h1(1) holds_refs(2) [OF h2] h3 w by (simp add: sess_Auth_def Let_def split: sum.split option.split)
qed

lemma attach_auth_holds: "holds s \<Longrightarrow> attach_auth fs afid s = (r, s1) \<Longrightarrow> holds s1"
proof (cases "getRef afid s")
  case (Pair r0 s0)
  assume "holds s" and a: "attach_auth fs afid s = (r, s1)"
  note h = getRef_holds(1) [OF this(1) Pair]
  have "s1 \<in> {s, s0, unlock afid s0}"
    using a Pair by (auto simp: attach_auth_def split: if_splits sum.splits option.splits sfile.splits)
  then show ?thesis using \<open>holds s\<close> h holds_refs(1) [OF h] by auto
qed

lemma Attach_holds:
  assumes "holds s"
  shows "holds (snd (sess_Attach fs ctx fid afid uname aname s))"
proof -
  obtain r1 s1 r2 s2 where 1: "attach_auth fs afid s = (r1, s1)" and 2: "newRef fid s1 = (r2, s2)" by fastforce
  note h1 = attach_auth_holds [OF assms 1]
  note h2 = newRef_holds [OF h1 2]
  have rel: "holds s' \<Longrightarrow> holds (if afid = NOFID then s' else unlock afid s')" for s'
    by (simp add: holds_refs(1))
  show ?thesis
  proof (cases r1)
    case (Inl e)
    then show ?thesis using 1 h1 by (simp add: sess_Attach_def)
  next
    case af: (Inr af)
    show ?thesis
    proof (cases r2)
      case (Inl e)
      then show ?thesis using 1 2 af rel [OF h2(1)] by (simp add: sess_Attach_def Let_def)
    next
      case (Inr ref)
      obtain oe er w where 3: "fs_Attach fs ctx uname aname af (se_world s2) = ((oe, er), w)" by (metis surj_pair)
      have h3: "holds (s2\<lparr>se_world := w\<rparr>)"
        using holds_refs(3) [OF h2(1)] inv_Attach [OF holds_world [OF h2(1)], of ctx uname aname af] 3 by simp
      let ?ok = "unlock fid (set_ref fid (ref\<lparr>sf_Ent := oe\<rparr>) (s2\<lparr>se_world := w\<rparr>))"
      let ?del = "del_ref fid (s2\<lparr>se_world := w\<rparr>)"
      have ok: "holds ?ok" by (intro holds_refs(1) holds_refs(4) h3) (simp add: h2(2) [OF Inr])
      have "snd (sess_Attach fs ctx fid afid uname aname s) \<in>
          {s2\<lparr>se_world := w\<rparr>, if afid = NOFID then ?ok else unlock afid ?ok, if afid = NOFID then ?del else unlock afid ?del}"
        by (cases er; cases oe) (simp_all add: sess_Attach_def Let_def 1 2 3 af Inr)
      then show ?thesis using h3 rel [OF ok] rel [OF holds_refs(2) [OF h3, of fid]] by (elim insertE) simp_all
    qed
  qed
qed

lemma walk_done_holds:
  assumes "holds s" and "file_ok kept (sf_File ref)" and "\<And>nref. newref = Some nref \<Longrightarrow> file_ok kept (sf_File nref)"
  shows "holds (walk_done fs ctx fid newfid ref newref ent s)"
proof (cases newref)
  case None
  obtain r w where w: "de_Clunk fs ctx (the (sf_Ent ref)) (se_world s) = (r, w)" by fastforce
  have "holds (s\<lparr>se_world := w\<rparr>)"
    using holds_refs(3) [OF assms(1)] inv_Clunk [OF holds_world [OF assms(1)], of ctx "the (sf_Ent ref)"] w by simp
  then have "holds (unlock fid (set_ref fid (ref\<lparr>sf_Ent := Some ent\<rparr>) (s\<lparr>se_world := w\<rparr>)))"
    by (intro holds_refs(1) holds_refs(4)) (use assms(2) in simp_all)
  then show ?thesis using None w by (simp add: walk_done_def)
next
  case (Some nref)
  have "holds (unlock newfid (set_ref newfid (nref\<lparr>sf_Ent := Some ent\<rparr>) (unlock fid s)))"
    by (intro holds_refs(1) holds_refs(4) assms(1)) (simp add: assms(3) [OF Some])
  then show ?thesis using Some by (simp add: walk_done_def)
qed

lemma walk_cleanup_holds: "holds s \<Longrightarrow> holds (walk_cleanup fid newfid s)"
  by (simp add: walk_cleanup_def Let_def holds_refs)

lemma Walk_holds:
  assumes "holds s"
  shows "holds (snd (sess_Walk fs ctx fid newfid names s))"
proof (cases "getRef fid s")
  case 1: (Pair r1 s1)
  note h1 = getRef_holds [OF assms 1]
  show ?thesis
  proof (cases r1)
    case (Inl e)
    then show ?thesis using 1 assms h1(1) by (simp add: sess_Walk_def)
  next
    case ref: (Inr ref)
    define st where "st = (if newfid \<noteq> fid then (case newRef newfid s1 of (r, s2) \<Rightarrow> (map_sum id Some r, s2)) else (Inr None, s1))"
    obtain r2 s2 r3 s3 where 2: "st = (r2, s2)" and 3: "newRef newfid s1 = (r3, s3)" by fastforce
    have h2: "holds s2" "r2 = Inr (Some nref) \<Longrightarrow> file_ok kept (sf_File nref)" for nref
      using 2 3 h1(1) newRef_holds [OF h1(1) 3] by (auto simp: st_def map_sum_def split: if_splits sum.splits)
    show ?thesis
    proof (cases r2)
      case (Inl e)
      then show ?thesis
        using 1 2 ref assms holds_refs(1) [OF h2(1)] by (simp add: sess_Walk_def flip: st_def)
    next
      case (Inr newref)
      obtain qids oe er w where w: "de_Walk fs ctx (the (sf_Ent ref)) names (se_world s2) = ((qids, oe, er), w)" by (metis surj_pair)
      let ?s3 = "s2\<lparr>se_world := w\<rparr>"
      have h3: "holds ?s3"
        using holds_refs(3) [OF h2(1)] inv_Walk [OF holds_world [OF h2(1)], of ctx "the (sf_Ent ref)" names] w by simp
      have "snd (sess_Walk fs ctx fid newfid names s) \<in> {s, unlock fid s2, walk_cleanup fid newfid s2,
          walk_cleanup fid newfid ?s3, walk_done fs ctx fid newfid ref newref (the oe) ?s3}"
        using 1 2 ref Inr w by (simp add: sess_Walk_def Let_def flip: st_def split: option.split)
      moreover have "holds (walk_done fs ctx fid newfid ref newref (the oe) ?s3)"
        by (rule walk_done_holds [OF h3 h1(2) [OF ref]]) (use h2(2) Inr in simp)
      ultimately show ?thesis
        using assms holds_refs(1) [OF h2(1)] walk_cleanup_holds [OF h2(1)] walk_cleanup_holds [OF h3] by (elim insertE) simp_all
    qed
  qed
qed

lemma Read_holds:
  assumes "holds s"
  shows "holds (snd (sess_Read fs ctx fid n offset s))"
proof (cases "getRef fid s")
  case 1: (Pair r1 s1)
  note h1 = getRef_holds [OF assms 1]
  show ?thesis
  proof (cases "\<exists>ref file. r1 = Inr ref \<and> sf_File ref = Some file")
    case True
    then obtain ref "file" where r: "r1 = Inr ref" "sf_File ref = Some file" by blast
    obtain r file' w where 2: "file_Read fs ctx file n offset (se_world s1) = (r, file', w)" by (metis surj_pair)
    have f: "file_ok kept (Some file') \<and> I w"
      using file_Read_keeps [of kept fs ctx n offset "file" "se_world s1" _ r file' w, OF inv_Read _ holds_world [OF h1(1)] 2]
        h1(2) [OF r(1)] r(2) by simp
    have "holds (unlock fid (set_ref fid (ref\<lparr>sf_File := Some file'\<rparr>) (s1\<lparr>se_world := w\<rparr>)))"
      by (intro holds_refs(1) holds_refs(4) holds_refs(3) h1(1)) (use f in simp_all)
    then show ?thesis using 1 2 r holds_refs(1) [OF h1(1)] by (simp add: sess_Read_def)
  next
    case False
    then show ?thesis using 1 h1(1) holds_refs(1) [OF h1(1)] by (auto simp: sess_Read_def split: sum.split option.split)
  qed
qed

lemma Write_holds:
  assumes "holds s"
  shows "holds (snd (sess_Write fs ctx fid p offset s))"
proof (cases "getRef fid s")
  case 1: (Pair r1 s1)
  note h1 = getRef_holds [OF assms 1]
  have "I (snd (file_Write fs ctx file p offset (se_world s1)))" for "file"
    using inv_Write [OF holds_world [OF h1(1)]] holds_world [OF h1(1)] by (simp add: file_Write_def split: sfile.split)
  then have "holds (unlock fid (s1\<lparr>se_world := snd (file_Write fs ctx file p offset (se_world s1))\<rparr>))" for "file"
    by (intro holds_refs(1) holds_refs(3) h1(1))
  then show ?thesis
    using 1 h1(1) holds_refs(1) [OF h1(1)] by (simp add: sess_Write_def case_prod_beta split: sum.split option.split)
qed

lemma openLocked_holds:
  assumes "I w" and "openLocked fs ctx ref mode w = (r, w')"
  shows "I w'" and "file_ok kept (sf_File ref) \<Longrightarrow> r = Inr ref' \<Longrightarrow> file_ok kept (sf_File ref')"
proof -
  have k: "keeps kept (rn_Next fs n)" "keeps kept (\<lambda>_ w. (Inl nil_deref, w))" for n
    using inv_Next by (simp_all add: keeps_def)
  have 1: "I w1" if "de_OpenDir fs ctx e w = (r1, w1)" for e r1 w1 using inv_OpenDir [OF assms(1), of ctx e] that by simp
  have 2: "I w1" if "de_Open fs ctx e mode w = (r1, w1)" for e r1 w1 using inv_Open [OF assms(1), of ctx e mode] that by simp
  have f: "file_ok kept (map_option FsFile file)" for "file" by (cases "file") simp_all
  show "I w'" using assms 1 2 by (auto simp: openLocked_def Let_def split: if_splits prod.splits option.splits)
  show "file_ok kept (sf_File ref')" if "file_ok kept (sf_File ref)" "r = Inr ref'"
    using assms(2) that(2) file_ok_NewReaddir [OF k(1)] file_ok_NewReaddir [OF k(2)] f
    by (auto simp: openLocked_def Let_def split: if_splits prod.splits option.splits)
qed

lemma Open_holds:
  assumes "holds s"
  shows "holds (snd (sess_Open fs ctx fid mode s))"
proof (cases "getRef fid s")
  case 1: (Pair r1 s1)
  note h1 = getRef_holds [OF assms 1]
  show ?thesis
  proof (cases r1)
    case (Inl e)
    then show ?thesis using 1 h1(1) by (simp add: sess_Open_def)
  next
    case (Inr ref)
    obtain r w where 2: "openLocked fs ctx ref mode (se_world s1) = (r, w)" by fastforce
    note h2 = openLocked_holds [OF holds_world [OF h1(1)] 2]
    note h3 = holds_refs(3) [OF h1(1) h2(1)]
    show ?thesis
      using 1 Inr 2 h2(2) [OF h1(2) [OF Inr]] h3 by (cases r) (simp_all add: sess_Open_def holds_refs)
  qed
qed

lemma create_done_holds: "holds s \<Longrightarrow> file_ok kept (Some file) \<Longrightarrow> holds (snd (create_done fs parent mode ref ent file s))"
  by (simp add: create_done_def holds_refs)

lemma Create_holds:
  assumes "holds s"
  shows "holds (snd (sess_Create fs ctx parent name perm mode s))"
proof (cases "getRef parent s")
  case 1: (Pair r1 s1)
  note h1 = getRef_holds [OF assms 1]
  show ?thesis
  proof (cases r1)
    case (Inl e)
    then show ?thesis using 1 assms h1(1) by (simp add: sess_Create_def)
  next
    case (Inr ref)
    obtain oe ofl er w where 2: "de_Create fs ctx (the (sf_Ent ref)) name perm mode (se_world s1) = ((oe, ofl, er), w)" by (metis surj_pair)
    let ?s2 = "s1\<lparr>se_world := w\<rparr>" and ?nref = "\<lparr>sf_locked = False, sf_Ent = oe, sf_File = None, sf_Mode = 0\<rparr>"
    have h2: "holds ?s2"
      using holds_refs(3) [OF h1(1)] inv_Create [OF holds_world [OF h1(1)], of ctx "the (sf_Ent ref)" name perm mode] 2 by simp
    obtain r3 w3 where 3: "openLocked fs ctx ?nref mode w = (r3, w3)" by fastforce
    have "I w" using h2 by (simp add: holds_def)
    note h3 = openLocked_holds [OF this 3]
    let ?s3 = "s1\<lparr>se_world := w3\<rparr>"
    have s3: "holds ?s3" by (rule holds_refs(3) [OF h1(1) h3(1)])
    have dir: "holds (snd (create_done fs parent mode ref (the oe) (the (sf_File nref)) ?s3))" if "r3 = Inr nref" for nref
      by (rule create_done_holds [OF s3]) (use h3(2) [of nref] that openLocked_Inr(2) [of fs ctx ?nref mode w nref w3] 3 in auto)
    have del: "holds s4" if "delRef fs ctx parent False ?s3 = (e, s4)" for e s4
      using delRef_holds [OF s3, of ctx parent False] that by simp
    have "holds (unlock parent s1)" "holds (unlock parent ?s2)" "holds (snd (create_done fs parent mode ref (the oe) (FsFile (the ofl)) ?s2))"
      using holds_refs(1) [OF h1(1)] holds_refs(1) [OF h2] create_done_holds [OF h2] by simp_all
    then show ?thesis
      using 1 Inr 2 3 assms dir del by (cases r3) (simp_all add: sess_Create_def Let_def split: option.split prod.split)
  qed
qed

lemma Stat_holds:
  assumes "holds s"
  shows "holds (snd (sess_Stat fs ctx fid s))" and "holds (snd (sess_WStat fs ctx fid dir s))"
proof -
  obtain r1 s1 where 1: "getRef fid s = (r1, s1)" by fastforce
  note h1 = getRef_holds(1) [OF assms 1]
  have "holds (unlock fid (s1\<lparr>se_world := snd (de_Stat fs ctx e (se_world s1))\<rparr>))"
    "holds (unlock fid (s1\<lparr>se_world := snd (de_WStat fs ctx e dir (se_world s1))\<rparr>))" for e
    by (intro holds_refs(1) holds_refs(3) h1 inv_Stat inv_WStat holds_world)+
  then show "holds (snd (sess_Stat fs ctx fid s))" "holds (snd (sess_WStat fs ctx fid dir s))"
    using 1 h1 by (simp_all add: sess_Stat_def sess_WStat_def case_prod_beta split: sum.split)
qed

lemma snd_to_msg: "snd (to_msg f x) = snd x" "snd (to_msg0 m y) = snd y"
  by (simp_all add: to_msg_def to_msg0_def split: prod.split sum.split option.split)

lemma Handle_holds:
  assumes "holds s"
  shows "holds (snd (Handle (sfs fs order msize) ctx msg s))"
proof (cases msg)
  case (MessageTread fid offset count)
  then show ?thesis using Read_holds [OF assms, of ctx fid "read_count msize count" "sint offset"]
    by (auto split: prod.split option.split)
next
  case (MessageTwrite fid offset data)
  then show ?thesis using Write_holds [OF assms, of ctx fid data "sint offset"]
    by (auto split: prod.split option.split)
qed (simp_all add: assms snd_to_msg Auth_holds Attach_holds Walk_holds Open_holds Create_holds Stat_holds
    delRef_holds sess_Clunk_def sess_Remove_def)

lemma handle_all_holds: "holds s \<Longrightarrow> handle_all (sfs fs order msize) msgs s = (rs, s') \<Longrightarrow> holds s'"
proof (induction msgs arbitrary: s rs)
  case (Cons m msgs)
  obtain ctx msg where m: "m = (ctx, msg)" by fastforce
  obtain r s1 where "Handle (sfs fs order msize) ctx msg s = (r, s1)" by fastforce
  with Cons.IH [of s1] Cons.prems m Handle_holds [of s order msize ctx msg] show ?case by (auto split: prod.splits)
qed simp

end

end
