(* ===== verification/P9_Strconv.thy ===== *)
theory P9_Strconv
  imports P9_Types
begin

text \<open>Reading numbers (\<^verbatim>\<open>strconv\<close>), as the file systems do with names and user ids.\<close>

text \<open>
  \<^verbatim>\<open>strconv.Atoi\<close>, where an \<open>int\<close> has 64 bits.  \<open>quote\<close> stands for \<^verbatim>\<open>strconv.Quote\<close>, which
  only the text of an error shows.
\<close>

definition digits :: "string \<Rightarrow> int" where
  "digits s = fold (\<lambda>c n. n * 10 + (int (of_char c) - 48)) s 0"

definition is_digit :: "char \<Rightarrow> bool" where
  "is_digit c \<longleftrightarrow> c \<in> set ''0123456789''"

text \<open>The digits are read until one is none or the number no longer fits 64 bits.\<close>

definition strconv_Atoi :: "(string \<Rightarrow> string) \<Rightarrow> string \<Rightarrow> error + int" where
  "strconv_Atoi quote s =
     (let (neg, ds) = (case s of c # ds \<Rightarrow> if c = CHR ''-'' then (True, ds) else if c = CHR ''+'' then (False, ds) else (False, s)
                       | [] \<Rightarrow> (False, s));
          pre = takeWhile is_digit ds;
          n = (if neg then - digits pre else digits pre);
          fail = (\<lambda>why. Inl (Errorf (''strconv.Atoi: parsing '' @ quote s @ '': '' @ why))) in
      if 2 ^ 64 \<le> digits pre then fail ''value out of range''
      else if ds = [] \<or> pre \<noteq> ds then fail ''invalid syntax''
      else if n < - (2 ^ 63) \<or> 2 ^ 63 \<le> n then fail ''value out of range''
      else Inr n)"

lemma digits_append: "digits (s @ [c]) = digits s * 10 + (int (of_char c) - 48)"
  by (simp add: digits_def)

section \<open>Reading back a number\<close>

lemma of_char_digit: "d < 10 \<Longrightarrow> of_char (char_of (48 + d) :: char) = (48 + d :: nat)"
  by simp

lemma is_digit_char: "d < 10 \<Longrightarrow> is_digit (char_of (48 + d :: nat))"
proof -
  have "list_all (\<lambda>d. is_digit (char_of (48 + d :: nat))) [0..<10]" by code_simp
  then show "d < 10 \<Longrightarrow> ?thesis" by (simp add: list_all_iff)
qed

lemma utoa_digits: "digits (utoa n) = int n \<and> list_all is_digit (utoa n) \<and> utoa n \<noteq> []"
proof (induction n rule: utoa.induct)
  case (1 n)
  show ?case
  proof (cases "n < 10")
    case True
    then show ?thesis using is_digit_char [of n] by (simp add: utoa.simps [of n] digits_def)
  next
    case False
    have "n = n div 10 * 10 + n mod 10" by simp
    then have "int n = int (n div 10) * 10 + int (n mod 10)" by (metis of_nat_add of_nat_mult of_nat_numeral)
    then show ?thesis using False 1 is_digit_char [of "n mod 10"] by (simp add: utoa.simps [of n] digits_append)
  qed
qed

lemma Atoi_itoa:
  assumes "0 \<le> n" and "n < 2 ^ 63"
  shows "strconv_Atoi quote (itoa n) = Inr n"
proof -
  obtain c ds where c: "utoa (nat n) = c # ds" using utoa_digits [of "nat n"] by (cases "utoa (nat n)") auto
  have d: "digits (c # ds) = n" "list_all is_digit (c # ds)" using utoa_digits [of "nat n"] assms(1) by (simp_all add: c)
  have t: "takeWhile is_digit (c # ds) = c # ds" using d(2) by (simp add: list_all_iff)
  have "c \<noteq> CHR ''-''" "c \<noteq> CHR ''+''" using d(2) by (auto simp: is_digit_def)
  then have "(case itoa n of c # ds \<Rightarrow> if c = CHR ''-'' then (True, ds) else if c = CHR ''+'' then (False, ds) else (False, itoa n)
      | [] \<Rightarrow> (False, itoa n)) = (False, c # ds)" using assms(1) by (simp add: itoa_def c)
  then show ?thesis unfolding strconv_Atoi_def Let_def by (simp only: prod.case t d(1)) (use assms in simp)
qed

text \<open>A number is no \<open>..\<close>.\<close>

lemma itoa_no_dots: "0 \<le> n \<Longrightarrow> itoa n \<noteq> ''..''"
  using utoa_digits [of "nat n"] by (auto simp: itoa_def is_digit_def)

end
