(* ===== verification/P9_Ufs.thy ===== *)
theory P9_Ufs
  imports P9_World P9_Strconv
begin

text \<open>
  The file system that serves a directory of the host (\<^verbatim>\<open>ufs/\<close>).  The operating system is a
  parameter, a record of the calls that the code makes, on a state \<open>'o\<close> of its own; \<open>'h\<close> is an open
  file.  A \<open>FileRef\<close> is a pointer, which is an index into the list of all that have been made.
  The constants are those of Linux.
\<close>

section \<open>The operating system\<close>

text \<open>\<^verbatim>\<open>os.FileInfo\<close> with the fields of \<^verbatim>\<open>syscall.Stat_t\<close> that are used.\<close>

record FileInfo =
  fi_Name :: string
  fi_Size :: int
  fi_Mode :: u32
  fi_ModTime :: gotime
  fi_Ino :: u64
  fi_Atim :: "int \<times> nat"

text \<open>An \<^verbatim>\<open>os.DirEntry\<close> is its name, in the directory that was read.\<close>

record ('o, 'h) OS =
  os_Stat :: "string \<Rightarrow> 'o \<Rightarrow> (error + FileInfo) \<times> 'o"
  os_ReadDir :: "string \<Rightarrow> 'o \<Rightarrow> (error + string list) \<times> 'o"
  entry_Info :: "string \<Rightarrow> string \<Rightarrow> 'o \<Rightarrow> (error + FileInfo) \<times> 'o"
  os_Remove :: "string \<Rightarrow> 'o \<Rightarrow> error option \<times> 'o"
  os_Mkdir :: "string \<Rightarrow> u32 \<Rightarrow> 'o \<Rightarrow> error option \<times> 'o"
  os_OpenFile :: "string \<Rightarrow> int \<Rightarrow> u32 \<Rightarrow> 'o \<Rightarrow> (error + 'h) \<times> 'o"
  os_Chmod :: "string \<Rightarrow> u32 \<Rightarrow> 'o \<Rightarrow> error option \<times> 'o"
  os_Chown :: "string \<Rightarrow> int \<Rightarrow> int \<Rightarrow> 'o \<Rightarrow> error option \<times> 'o"
  os_Truncate :: "string \<Rightarrow> int \<Rightarrow> 'o \<Rightarrow> error option \<times> 'o"
  syscall_Rename :: "string \<Rightarrow> string \<Rightarrow> 'o \<Rightarrow> error option \<times> 'o"
  user_Lookup :: "string \<Rightarrow> 'o \<Rightarrow> (error + string) \<times> 'o"
  user_LookupGroup :: "string \<Rightarrow> 'o \<Rightarrow> (error + string) \<times> 'o"
  file_Close :: "'h \<Rightarrow> 'o \<Rightarrow> error option \<times> 'o"
  file_ReadAt :: "'h \<Rightarrow> nat \<Rightarrow> int \<Rightarrow> 'o \<Rightarrow> (byte list \<times> error option) \<times> 'o"
  file_WriteAt :: "'h \<Rightarrow> byte list \<Rightarrow> int \<Rightarrow> 'o \<Rightarrow> (int \<times> error option) \<times> 'o"

abbreviation (input) O_WRONLY :: int where "O_WRONLY \<equiv> 1"
abbreviation (input) O_RDWR :: int where "O_RDWR \<equiv> 2"
abbreviation (input) O_CREATE :: int where "O_CREATE \<equiv> 0x40"
abbreviation (input) O_TRUNC :: int where "O_TRUNC \<equiv> 0x200"
abbreviation (input) ModeDir :: u32 where "ModeDir \<equiv> 0x80000000"
abbreviation (input) DMSYMLINK :: u32 where "DMSYMLINK \<equiv> 0x02000000"
abbreviation (input) DMDEVICE :: u32 where "DMDEVICE \<equiv> 0x00800000"
abbreviation (input) DMNAMEDPIPE :: u32 where "DMNAMEDPIPE \<equiv> 0x00200000"

section \<open>Attributes\<close>

definition UnixNano :: "gotime \<Rightarrow> int" where
  "UnixNano t = sint (word_of_int (t_unix t * 1000000000 + int (t_nsec t)) :: 64 word)"

text \<open>Division of integers, which rounds to zero.\<close>

definition quot :: "int \<Rightarrow> int \<Rightarrow> int" where
  "quot a b = (if a < 0 then - (- a div b) else a div b)"

definition atime :: "FileInfo \<Rightarrow> gotime" where
  "atime info = \<lparr>t_unix = fst (fi_Atim info), t_nsec = snd (fi_Atim info), t_loc = ''Local''\<rparr>"

definition dirFromInfo :: "FileInfo \<Rightarrow> Dir" where
  "dirFromInfo info =
     (let isDir = fi_Mode info AND ModeDir \<noteq> 0 in
      zero_Dir\<lparr>
        d_Qid := \<lparr>q_Type = (if isDir then QTDIR else 0),
                  q_Version = word_of_int (quot (UnixNano (fi_ModTime info)) 1000000), q_Path = fi_Ino info\<rparr>,
        d_Mode := (fi_Mode info AND 0x1FF) OR (if isDir then DMDIR else 0),
        d_AccessTime := atime info, d_ModTime := fi_ModTime info,
        d_Length := word_of_int (fi_Size info), d_Name := fi_Name info, d_MUID := ''none''\<rparr>)"

definition dirFromEntry :: "('o, 'h) OS \<Rightarrow> string \<Rightarrow> string \<Rightarrow> 'o \<Rightarrow> (error + Dir) \<times> 'o" where
  "dirFromEntry os dir entry st =
     (case entry_Info os dir entry st of (r, st') \<Rightarrow> (map_sum id dirFromInfo r, st'))"

definition oflags :: "Flag \<Rightarrow> int" where
  "oflags mode =
     (let flags = (if mode AND 3 = ORDWR then O_RDWR else if mode AND 3 = OWRITE then O_WRONLY else 0) in
      if mode AND OTRUNC \<noteq> 0 then flags OR O_TRUNC else flags)"

section \<open>References\<close>

record 'h FileRef =
  fr_file :: "'h option"
  fr_Path :: string
  fr_Info :: Dir

record ('o, 'h) ufsWorld =
  uw_os :: 'o
  uw_refs :: "'h FileRef list"
  uw_lists :: "(Dir list \<times> bool) list"

text \<open>A call of the operating system.\<close>

definition sys :: "('o \<Rightarrow> 'r \<times> 'o) \<Rightarrow> ('o, 'h) ufsWorld \<Rightarrow> 'r \<times> ('o, 'h) ufsWorld" where
  "sys f w = (case f (uw_os w) of (r, st) \<Rightarrow> (r, w\<lparr>uw_os := st\<rparr>))"

text \<open>\<^verbatim>\<open>filepath.Join\<close> is \<^verbatim>\<open>path.Join\<close> and \<^verbatim>\<open>filepath.FromSlash\<close> does nothing on this system.\<close>

definition fs_fullPath :: "string \<Rightarrow> string \<Rightarrow> error + string" where
  "fs_fullPath base p =
     (if \<not> path_IsAbs p \<or> CHR 0x5C \<in> set p then Inl invalid_path
      else if path_Clean p \<noteq> p then Inl invalid_path
      else Inr (path_Join [base, p]))"

definition ref_fullPath :: "string \<Rightarrow> 'h FileRef \<Rightarrow> string" where
  "ref_fullPath base ref = path_Join [base, fr_Path ref]"

definition ufs_newRef :: "('o, 'h) OS \<Rightarrow> string \<Rightarrow> string \<Rightarrow> ('o, 'h) ufsWorld \<Rightarrow> (error + nat) \<times> ('o, 'h) ufsWorld" where
  "ufs_newRef os base p w =
     (case fs_fullPath base p of
        Inl err \<Rightarrow> (Inl err, w)
      | Inr fpath \<Rightarrow>
          (case sys (os_Stat os fpath) w of
             (Inl err, w1) \<Rightarrow> (Inl err, w1)
           | (Inr info, w1) \<Rightarrow>
               (Inr (length (uw_refs w1)),
                w1\<lparr>uw_refs := uw_refs w1 @ [\<lparr>fr_file = None, fr_Path = p, fr_Info = dirFromInfo info\<rparr>]\<rparr>)))"

text \<open>An operation on the reference at an address; there is no other than those that have been made.\<close>

definition on_ref :: "nat \<Rightarrow> 'r \<Rightarrow> ('h FileRef \<Rightarrow> ('o, 'h) ufsWorld \<Rightarrow> 'r \<times> ('o, 'h) ufsWorld) \<Rightarrow>
    ('o, 'h) ufsWorld \<Rightarrow> 'r \<times> ('o, 'h) ufsWorld" where
  "on_ref i nil f w = (if i < length (uw_refs w) then f (uw_refs w ! i) w else (nil, w))"

definition ufs_Qid :: "nat \<Rightarrow> ('o, 'h) ufsWorld \<Rightarrow> Qid" where
  "ufs_Qid i w = (if i < length (uw_refs w) then d_Qid (fr_Info (uw_refs w ! i)) else zero_Qid)"

definition ref_IsDir :: "'h FileRef \<Rightarrow> bool" where
  "ref_IsDir f \<longleftrightarrow> d_Mode (fr_Info f) AND DMDIR > 0"

definition ufs_Next :: "nat \<Rightarrow> ('o, 'h) ufsWorld \<Rightarrow> Dir list \<times> ('o, 'h) ufsWorld" where
  "ufs_Next i w =
     (case uw_lists w ! i of (dirs, done) \<Rightarrow>
        if done then ([], w) else (dirs, w\<lparr>uw_lists := (uw_lists w)[i := (dirs, True)]\<rparr>))"

text \<open>Entries whose attributes cannot be read are left out.\<close>

fun read_entries :: "('o, 'h) OS \<Rightarrow> string \<Rightarrow> string list \<Rightarrow> ('o, 'h) ufsWorld \<Rightarrow> Dir list \<times> ('o, 'h) ufsWorld" where
  "read_entries os dir [] w = ([], w)"
| "read_entries os dir (entry # entries) w =
     (case sys (dirFromEntry os dir entry) w of
        (r, w1) \<Rightarrow>
          (case read_entries os dir entries w1 of
             (dirs, w2) \<Rightarrow> (case r of Inl _ \<Rightarrow> dirs | Inr d \<Rightarrow> d # dirs, w2)))"

definition ufs_OpenDir :: "('o, 'h) OS \<Rightarrow> string \<Rightarrow> nat \<Rightarrow> ('o, 'h) ufsWorld \<Rightarrow> (nat option \<times> error option) \<times> ('o, 'h) ufsWorld" where
  "ufs_OpenDir os base i = on_ref i (None, Some nil_deref) (\<lambda>ref w.
     if \<not> ref_IsDir ref then ((None, Some (Rerr ''not a directory'')), w)
     else
       (case sys (os_ReadDir os (ref_fullPath base ref)) w of
          (Inl err, w1) \<Rightarrow> ((None, Some err), w1)
        | (Inr files, w1) \<Rightarrow>
            (case read_entries os (ref_fullPath base ref) files w1 of
               (dirs, w2) \<Rightarrow>
                 ((Some (length (uw_lists w2)), None), w2\<lparr>uw_lists := uw_lists w2 @ [(dirs, False)]\<rparr>))))"

definition ref_Clunk :: "('o, 'h) OS \<Rightarrow> 'h FileRef \<Rightarrow> ('o, 'h) ufsWorld \<Rightarrow> error option \<times> ('o, 'h) ufsWorld" where
  "ref_Clunk os ref w = (case fr_file ref of Some file \<Rightarrow> sys (file_Close os file) w | None \<Rightarrow> (None, w))"

definition ufs_Remove :: "('o, 'h) OS \<Rightarrow> string \<Rightarrow> nat \<Rightarrow> ('o, 'h) ufsWorld \<Rightarrow> error option \<times> ('o, 'h) ufsWorld" where
  "ufs_Remove os base i = on_ref i (Some nil_deref) (\<lambda>ref w.
     (case ref_Clunk os ref w of
        (_, w1) \<Rightarrow>
          if fr_Path ref = ''/'' \<or> fr_Path ref = [CHR 0x5C] then (Some (Rerr ''cannot remove root''), w1)
          else sys (os_Remove os (ref_fullPath base ref)) w1))"

text \<open>Only the last qid of a walk is set.\<close>

definition ufs_Walk :: "('o, 'h) OS \<Rightarrow> string \<Rightarrow> nat \<Rightarrow> string list \<Rightarrow> ('o, 'h) ufsWorld \<Rightarrow>
    (Qid list \<times> nat option \<times> error option) \<times> ('o, 'h) ufsWorld" where
  "ufs_Walk os base i names = on_ref i ([], None, Some nil_deref) (\<lambda>ref w.
     if names = [] then
       (case ufs_newRef os base (fr_Path ref) w of
          (Inl err, w1) \<Rightarrow> (([], None, Some err), w1)
        | (Inr nxt, w1) \<Rightarrow> (([], Some nxt, None), w1))
     else
       (case WalkName (fr_Path ref) names of
          Inl err \<Rightarrow> (([], None, Some err), w)
        | Inr newpath \<Rightarrow>
            (case ufs_newRef os base newpath w of
               (Inl err, w1) \<Rightarrow> (([], None, Some err), w1)
             | (Inr nxt, w1) \<Rightarrow>
                 (((replicate (length names) zero_Qid)[length names - 1 := ufs_Qid nxt w1], Some nxt, None), w1))))"

definition set_file :: "nat \<Rightarrow> 'h \<Rightarrow> ('o, 'h) ufsWorld \<Rightarrow> ('o, 'h) ufsWorld" where
  "set_file i file w = w\<lparr>uw_refs := (uw_refs w)[i := (uw_refs w ! i)\<lparr>fr_file := Some file\<rparr>]\<rparr>"

text \<open>
  The \<open>switch\<close> of \<open>Create\<close>: its cases do not fall through, so that nothing is done for a symbolic
  link or a named pipe.
\<close>

definition create_switch :: "('o, 'h) OS \<Rightarrow> string \<Rightarrow> u32 \<Rightarrow> Flag \<Rightarrow> ('o, 'h) ufsWorld \<Rightarrow> (error + 'h option) \<times> ('o, 'h) ufsWorld" where
  "create_switch os newpath perm mode w =
     (if perm AND DMDIR \<noteq> 0 then
        (case sys (os_Mkdir os newpath (perm AND 0x1FF)) w of (Some err, w1) \<Rightarrow> (Inl err, w1) | (None, w1) \<Rightarrow> (Inr None, w1))
      else if perm AND DMSYMLINK \<noteq> 0 then (Inr None, w)
      else if perm AND DMNAMEDPIPE \<noteq> 0 then (Inr None, w)
      else if perm AND DMDEVICE \<noteq> 0 then (Inl (Rerr ''not implemented''), w)
      else
        (case sys (os_OpenFile os newpath (oflags mode OR O_CREATE) (perm AND 0x1FF)) w of
           (r, w1) \<Rightarrow> (map_sum id Some r, w1)))"

definition ufs_Create :: "('o, 'h) OS \<Rightarrow> string \<Rightarrow> nat \<Rightarrow> string \<Rightarrow> u32 \<Rightarrow> Flag \<Rightarrow> ('o, 'h) ufsWorld \<Rightarrow>
    (nat option \<times> nat option \<times> error option) \<times> ('o, 'h) ufsWorld" where
  "ufs_Create os base i name perm mode = on_ref i (None, None, Some nil_deref) (\<lambda>ref w.
     let fail = (\<lambda>err w. ((None, None, Some err), w)) in
     case CreateName (fr_Path ref) name of
       Inl err \<Rightarrow> fail err w
     | Inr newrel \<Rightarrow>
         (case fs_fullPath base newrel of
            Inl err \<Rightarrow> fail err w
          | Inr newpath \<Rightarrow>
              (case create_switch os newpath perm mode w of
                 (Inl err, w1) \<Rightarrow> fail err w1
               | (Inr file, w1) \<Rightarrow>
                   (case ufs_newRef os base newrel w1 of
                      (Inl err, w2) \<Rightarrow>
                        (case file of Some f \<Rightarrow> fail err (snd (sys (file_Close os f) w2)) | None \<Rightarrow> fail err w2)
                    | (Inr ent, w2) \<Rightarrow>
                        ((Some ent, Some ent, None), case file of Some f \<Rightarrow> set_file ent f w2 | None \<Rightarrow> w2)))))"

definition ufs_Stat :: "nat \<Rightarrow> ('o, 'h) ufsWorld \<Rightarrow> (error + Dir) \<times> ('o, 'h) ufsWorld" where
  "ufs_Stat i = on_ref i (Inl nil_deref) (\<lambda>ref w. (Inr (fr_Info ref), w))"

text \<open>The steps of \<open>WStat\<close>, each of which is skipped or made, and may fail.\<close>

definition wstat_mode :: "('o, 'h) OS \<Rightarrow> string \<Rightarrow> 'h FileRef \<Rightarrow> Dir \<Rightarrow> ('o, 'h) ufsWorld \<Rightarrow> error option \<times> ('o, 'h) ufsWorld" where
  "wstat_mode os base ref dir w =
     (if d_Mode dir \<noteq> NOT 0 then sys (os_Chmod os (ref_fullPath base ref) (d_Mode dir AND 0x1FF)) w else (None, w))"

definition wstat_owner :: "(string \<Rightarrow> string) \<Rightarrow> ('o, 'h) OS \<Rightarrow> string \<Rightarrow> 'h FileRef \<Rightarrow> Dir \<Rightarrow> ('o, 'h) ufsWorld \<Rightarrow>
    error option \<times> ('o, 'h) ufsWorld" where
  "wstat_owner quote os base ref dir w =
     (if d_UID dir \<noteq> [] \<or> d_GID dir \<noteq> [] then
        (case sys (user_Lookup os (d_UID dir)) w of
           (Inl err, w1) \<Rightarrow> (Some err, w1)
         | (Inr usr, w1) \<Rightarrow>
             (case strconv_Atoi quote usr of
                Inl err \<Rightarrow> (Some err, w1)
              | Inr uid \<Rightarrow>
                  (case sys (user_LookupGroup os (d_GID dir)) w1 of
                     (Inl err, w2) \<Rightarrow> (Some err, w2)
                   | (Inr grp, w2) \<Rightarrow>
                       (case strconv_Atoi quote grp of
                          Inl err \<Rightarrow> (Some err, w2)
                        | Inr gid \<Rightarrow> sys (os_Chown os (ref_fullPath base ref) uid gid) w2))))
      else (None, w))"

text \<open>\<^verbatim>\<open>path.Dir\<close>: what comes before the last slash, cleaned.\<close>

definition path_Dir :: "string \<Rightarrow> string" where
  "path_Dir p = path_Clean (rev (dropWhile (\<lambda>c. c \<noteq> CHR ''/'') (rev p)))"

text \<open>An absolute name is not used: the path that is cleaned for it is still empty.\<close>

definition wstat_name :: "('o, 'h) OS \<Rightarrow> string \<Rightarrow> nat \<Rightarrow> 'h FileRef \<Rightarrow> Dir \<Rightarrow> ('o, 'h) ufsWorld \<Rightarrow>
    (error + 'h FileRef) \<times> ('o, 'h) ufsWorld" where
  "wstat_name os base i ref dir w =
     (if d_Name dir \<noteq> [] then
        (let rel = (if path_IsAbs (d_Name dir) then path_Clean [] else path_Join [path_Dir (fr_Path ref), d_Name dir]) in
         case fs_fullPath base rel of
           Inl err \<Rightarrow> (Inl err, w)
         | Inr newpath \<Rightarrow>
             (case sys (syscall_Rename os (ref_fullPath base ref) newpath) w of
                (Some err, w1) \<Rightarrow> (Inl err, w1)
              | (None, w1) \<Rightarrow>
                  (let ref' = ref\<lparr>fr_Path := rel\<rparr> in (Inr ref', w1\<lparr>uw_refs := (uw_refs w1)[i := ref']\<rparr>))))
      else (Inr ref, w))"

definition wstat_length :: "('o, 'h) OS \<Rightarrow> string \<Rightarrow> 'h FileRef \<Rightarrow> Dir \<Rightarrow> ('o, 'h) ufsWorld \<Rightarrow> error option \<times> ('o, 'h) ufsWorld" where
  "wstat_length os base ref dir w =
     (if d_Length dir \<noteq> NOT 0 then sys (os_Truncate os (ref_fullPath base ref) (sint (d_Length dir))) w else (None, w))"

definition ufs_WStat :: "(string \<Rightarrow> string) \<Rightarrow> ('o, 'h) OS \<Rightarrow> string \<Rightarrow> nat \<Rightarrow> Dir \<Rightarrow> ('o, 'h) ufsWorld \<Rightarrow>
    error option \<times> ('o, 'h) ufsWorld" where
  "ufs_WStat quote os base i dir = on_ref i (Some nil_deref) (\<lambda>ref w.
     case wstat_mode os base ref dir w of
       (Some err, w1) \<Rightarrow> (Some err, w1)
     | (None, w1) \<Rightarrow>
         (case wstat_owner quote os base ref dir w1 of
            (Some err, w2) \<Rightarrow> (Some err, w2)
          | (None, w2) \<Rightarrow>
              (case wstat_name os base i ref dir w2 of
                 (Inl err, w3) \<Rightarrow> (Some err, w3)
               | (Inr ref', w3) \<Rightarrow> wstat_length os base ref' dir w3)))"

definition ufs_Open :: "('o, 'h) OS \<Rightarrow> string \<Rightarrow> nat \<Rightarrow> Flag \<Rightarrow> ('o, 'h) ufsWorld \<Rightarrow> (nat option \<times> error option) \<times> ('o, 'h) ufsWorld" where
  "ufs_Open os base i mode = on_ref i (None, Some nil_deref) (\<lambda>ref w.
     case sys (os_OpenFile os (ref_fullPath base ref) (oflags mode) 0) w of
       (Inl err, w1) \<Rightarrow> ((None, Some err), w1)
     | (Inr file, w1) \<Rightarrow> ((Some i, None), set_file i file w1))"

text \<open>The methods of a nil file fail with \<^verbatim>\<open>os.ErrInvalid\<close>.\<close>

definition os_ErrInvalid :: error where
  "os_ErrInvalid = Errorf ''invalid argument''"

definition ufs_Read :: "('o, 'h) OS \<Rightarrow> nat \<Rightarrow> nat \<Rightarrow> int \<Rightarrow> ('o, 'h) ufsWorld \<Rightarrow> (byte list \<times> error option) \<times> ('o, 'h) ufsWorld" where
  "ufs_Read os i n offset = on_ref i ([], Some nil_deref) (\<lambda>ref w.
     case (case fr_file ref of Some file \<Rightarrow> sys (file_ReadAt os file n offset) w | None \<Rightarrow> (([], Some os_ErrInvalid), w)) of
       ((p, err), w1) \<Rightarrow> ((p, if err \<noteq> None \<and> err \<noteq> Some EOF then err else None), w1))"

definition ufs_Write :: "('o, 'h) OS \<Rightarrow> nat \<Rightarrow> byte list \<Rightarrow> int \<Rightarrow> ('o, 'h) ufsWorld \<Rightarrow> (int \<times> error option) \<times> ('o, 'h) ufsWorld" where
  "ufs_Write os i p offset = on_ref i (0, Some nil_deref) (\<lambda>ref w.
     case fr_file ref of Some file \<Rightarrow> sys (file_WriteAt os file p offset) w | None \<Rightarrow> ((0, Some os_ErrInvalid), w))"

definition ufs_Attach :: "('o, 'h) OS \<Rightarrow> string \<Rightarrow> ('o, 'h) ufsWorld \<Rightarrow> (nat option \<times> error option) \<times> ('o, 'h) ufsWorld" where
  "ufs_Attach os base w =
     (case ufs_newRef os base ''/'' w of (Inl err, w1) \<Rightarrow> ((None, Some err), w1) | (Inr ref, w1) \<Rightarrow> ((Some ref, None), w1))"

text \<open>\<open>NewServer\<close> cleans the root directory that it is given.\<close>

definition ufs :: "(string \<Rightarrow> string) \<Rightarrow> ('o, 'h) OS \<Rightarrow> string \<Rightarrow> (('o, 'h) ufsWorld, nat, nat, nat) FileSys" where
  "ufs quote os root =
     (let base = path_Clean root in
      \<lparr>fs_RequireAuth = (\<lambda>ctx w. (False, w)), fs_Auth = (\<lambda>ctx uname aname w. ((None, None), w)),
       fs_Attach = (\<lambda>ctx uname aname af. ufs_Attach os base), de_Qid = ufs_Qid,
       de_OpenDir = (\<lambda>ctx. ufs_OpenDir os base), de_Walk = (\<lambda>ctx. ufs_Walk os base),
       de_Create = (\<lambda>ctx. ufs_Create os base), de_Open = (\<lambda>ctx. ufs_Open os base),
       de_Remove = (\<lambda>ctx. ufs_Remove os base), de_Clunk = (\<lambda>ctx i. on_ref i (Some nil_deref) (ref_Clunk os)),
       de_Stat = (\<lambda>ctx. ufs_Stat), de_WStat = (\<lambda>ctx. ufs_WStat quote os base),
       fi_Read = (\<lambda>ctx. ufs_Read os), fi_Write = (\<lambda>ctx. ufs_Write os),
       fi_IOUnit = (\<lambda>f w. 0), fi_isAuthFile = (\<lambda>f. False), af_Success = (\<lambda>f w. False),
       rn_Next = (\<lambda>i ctx w. case ufs_Next i w of (dirs, w') \<Rightarrow> (Inr dirs, w'))\<rparr>)"

definition ufs_start :: "'o \<Rightarrow> ('o, 'h) ufsWorld" where
  "ufs_start st = \<lparr>uw_os = st, uw_refs = [], uw_lists = []\<rparr>"

end
