(* ===== verification/P9_Ufs_Correct.thy ===== *)
theory P9_Ufs_Correct
  imports P9_Ufs
begin

text \<open>
  That the server of a host directory stays in it: the paths that it passes to the operating
  system are the cleaned root followed by proper names only.
\<close>

section \<open>Cleaned paths\<close>

definition elem_ok :: "string \<Rightarrow> bool" where
  "elem_ok s \<longleftrightarrow> s \<noteq> [] \<and> s \<noteq> ''.'' \<and> s \<noteq> ''..'' \<and> CHR ''/'' \<notin> set s"

lemma good_plain: "list_all good_name es \<Longrightarrow> list_all elem_ok es"
  by (auto simp: list_all_iff good_name_def elem_ok_def)

definition cleaned :: "bool \<Rightarrow> string list \<Rightarrow> bool" where
  "cleaned rooted bs \<longleftrightarrow> (\<exists>k rest. bs = replicate k ''..'' @ rest \<and> (rooted \<longrightarrow> k = 0) \<and> list_all elem_ok rest)"

lemma clean_plain: "list_all elem_ok xs \<Longrightarrow> clean_loop rooted out xs = rev out @ xs"
  by (induction xs arbitrary: out) (auto simp: elem_ok_def)

lemma clean_cleaned: "cleaned rooted bs \<Longrightarrow> clean_loop rooted [] bs = bs"
  using clean_dots_rel [of 0] by (auto simp: cleaned_def clean_append clean_plain)

lemma cleaned_snoc:
  "cleaned rooted bs \<Longrightarrow> elem_ok s \<Longrightarrow> cleaned rooted (bs @ [s])"
proof -
  assume "cleaned rooted bs" and "elem_ok s"
  then obtain k rest where "bs @ [s] = replicate k ''..'' @ (rest @ [s])" "rooted \<longrightarrow> k = 0" "list_all elem_ok (rest @ [s])"
    by (auto simp: cleaned_def)
  then show ?thesis unfolding cleaned_def by blast
qed

lemma cleaned_butlast: "cleaned rooted (bs @ [s]) \<Longrightarrow> cleaned rooted bs"
proof -
  assume "cleaned rooted (bs @ [s])"
  then obtain k rest where r: "bs @ [s] = replicate k ''..'' @ rest" "rooted \<longrightarrow> k = 0" "list_all elem_ok rest"
    by (auto simp: cleaned_def)
  show ?thesis
  proof (cases rest rule: rev_cases)
    case Nil
    then obtain k' where "k = Suc k'" using r(1) by (cases k) auto
    then have "bs = replicate k' ''..''" using r(1) Nil by (metis append_Nil2 butlast_snoc replicate_append_same replicate_Suc)
    then show ?thesis using r(2) \<open>k = Suc k'\<close> by (auto simp: cleaned_def intro!: exI [of _ k'] exI [of _ "[]"])
  next
    case (snoc rest' x)
    then have "bs = replicate k ''..'' @ rest'" using r(1) by simp
    then show ?thesis using r snoc by (auto simp: cleaned_def)
  qed
qed

lemma cleaned_dots: "cleaned False (bs @ [''..'']) \<Longrightarrow> cleaned False ((bs @ [''..'']) @ [''..''])"
proof -
  assume "cleaned False (bs @ [''..''])"
  then obtain k rest where r: "bs @ [''..''] = replicate k ''..'' @ rest" "list_all elem_ok rest"
    by (auto simp: cleaned_def)
  have "rest = []" using r by (cases rest rule: rev_cases) (auto simp: elem_ok_def)
  then have "(bs @ [''..'']) @ [''..''] = replicate (Suc k) ''..''" using r(1) by (simp add: replicate_append_same)
  then show ?thesis unfolding cleaned_def by (intro exI [of _ "Suc k"] exI [of _ "[]"]) simp
qed

lemma cleaned_rooted: "cleaned True (bs @ [s]) \<Longrightarrow> s \<noteq> ''..''"
  by (auto simp: cleaned_def elem_ok_def)

lemma clean_loop_cleaned:
  "cleaned rooted (rev out) \<Longrightarrow> \<forall>s\<in>set ss. CHR ''/'' \<notin> set s \<Longrightarrow> cleaned rooted (clean_loop rooted out ss)"
proof (induction rooted out ss rule: clean_loop.induct)
  case (2 rooted out s ss)
  show ?case
  proof (cases "s = ''..''")
    case up: True
    show ?thesis
    proof (cases out)
      case Nil
      have "cleaned rooted (if rooted then [] else [''..''])"
        by (auto simp: cleaned_def intro!: exI [of _ "1::nat"] exI [of _ "[]"])
      then show ?thesis using 2 up Nil by (cases rooted) auto
    next
      case (Cons t out')
      then have c: "cleaned rooted (rev out' @ [t])" using "2.prems"(1) by simp
      show ?thesis
      proof (cases "t = ''..''")
        case True
        then have "\<not> rooted" using c cleaned_rooted [of "rev out'" t] by (cases rooted) auto
        then show ?thesis using 2 up Cons True cleaned_dots [of "rev out'"] c by simp
      next
        case False
        then show ?thesis using 2 up Cons cleaned_butlast [OF c] by simp
      qed
    qed
  next
    case False
    then show ?thesis using 2 cleaned_snoc [of rooted "rev out" s] by (auto simp: elem_ok_def)
  qed
qed simp

lemma Split_no_slash: "s \<in> set (strings_Split c p) \<Longrightarrow> c \<notin> set s"
  by (induction p arbitrary: s) (auto split: if_splits list.splits)

text \<open>A path with names below a directory, written out.\<close>

definition below :: "string \<Rightarrow> string list \<Rightarrow> string" where
  "below base es =
     (if es = [] then base else if base = ''/'' then internal es
      else if base = ''.'' then strings_Join es ''/'' else base @ internal es)"

definition inside :: "string \<Rightarrow> string \<Rightarrow> bool" where
  "inside base p \<longleftrightarrow> (\<exists>es. list_all good_name es \<and> p = below base es)"

lemma cleaned_no_slash: "cleaned rooted bs \<Longrightarrow> \<forall>e\<in>set bs. CHR ''/'' \<notin> set e \<and> e \<noteq> [] \<and> e \<noteq> ''.''"
proof
  fix e assume "cleaned rooted bs" and "e \<in> set bs"
  then have "e = ''..'' \<or> elem_ok e" unfolding cleaned_def list_all_iff by fastforce
  then show "CHR ''/'' \<notin> set e \<and> e \<noteq> [] \<and> e \<noteq> ''.''" by (auto simp: elem_ok_def)
qed

lemma Join_append: "bs \<noteq> [] \<Longrightarrow> es \<noteq> [] \<Longrightarrow> strings_Join (bs @ es) sep = strings_Join bs sep @ sep @ strings_Join es sep"
  by (induction bs sep rule: strings_Join.induct) (auto simp: neq_Nil_conv)

lemma path_Clean_cases:
  obtains (rooted) bs where "path_Clean p = internal bs" "cleaned True bs"
  | (here) "path_Clean p = ''.''"
  | (relative) bs where "path_Clean p = strings_Join bs ''/''" "bs \<noteq> []" "cleaned False bs"
proof -
  have c: "cleaned r (clean_loop r [] (strings_Split CHR ''/'' p))" for r
    by (rule clean_loop_cleaned) (auto simp: cleaned_def dest: Split_no_slash)
  show thesis
    using c [of True] c [of False] rooted here relative
    by (cases "path_IsAbs p"; cases "clean_loop False [] (strings_Split CHR ''/'' p) = []")
      (auto simp: path_Clean_def Let_def internal_def)
qed

lemma clean_below: "cleaned r bs \<Longrightarrow> list_all good_name es \<Longrightarrow>
    clean_loop r [] (bs @ [] # (if es = [] then [[]] else es)) = bs @ es"
  by (simp add: clean_append clean_cleaned clean_good)

lemma Split_cleaned: "cleaned r bs \<Longrightarrow> bs \<noteq> [] \<Longrightarrow> strings_Split CHR ''/'' (strings_Join bs ''/'') = bs"
  by (rule Split_Join) (auto dest: cleaned_no_slash)

lemma internal_append: "bs \<noteq> [] \<Longrightarrow> es \<noteq> [] \<Longrightarrow> internal (bs @ es) = internal bs @ internal es"
  by (simp add: internal_def Join_append)

lemma Join_nonempty:
  assumes "cleaned r bs" and "bs \<noteq> []"
  shows "strings_Join bs ''/'' \<noteq> []" and "strings_Join bs ''/'' \<noteq> ''.''" and "\<not> path_IsAbs (strings_Join bs ''/'')"
proof -
  obtain e es where bs: "bs = e # es" using assms(2) by (cases bs) auto
  have e: "CHR ''/'' \<notin> set e" "e \<noteq> []" "e \<noteq> ''.''" using cleaned_no_slash [OF assms(1)] bs by simp_all
  note sp = Split_cleaned [OF assms]
  show "strings_Join bs ''/'' \<noteq> []"
  proof
    assume "strings_Join bs ''/'' = []"
    with sp have "bs = [[]]" by simp
    with bs e(2) show False by simp
  qed
  show "strings_Join bs ''/'' \<noteq> ''.''"
  proof
    assume "strings_Join bs ''/'' = ''.''"
    with sp have "bs = [''.'']" by simp
    with bs e(3) show False by simp
  qed
  show "\<not> path_IsAbs (strings_Join bs ''/'')" unfolding bs by (rule Join_not_abs [OF e(2,1)])
qed

lemma below_internal:
  assumes "cleaned True bs"
  shows "below (internal bs) es = internal (bs @ es)"
proof (cases "bs = [] \<or> es = []")
  case True
  then show ?thesis by (auto simp: below_def internal_def)
next
  case False
  then have "internal bs \<noteq> ''/''" "internal bs \<noteq> ''.''" using Join_nonempty(1) [OF assms] by (simp_all add: internal_def)
  then show ?thesis using False by (simp add: below_def internal_append)
qed

lemma Join_below:
  assumes "list_all good_name es"
  shows "path_Join [path_Clean root, internal es] = below (path_Clean root) es"
proof -
  let ?es = "if es = [] then [[]] else es"
  have sp: "strings_Split CHR ''/'' (b @ CHR ''/'' # CHR ''/'' # strings_Join es ''/'') = strings_Split CHR ''/'' b @ [] # ?es" for b
    using Split_append [of "CHR ''/''" b] Split_append [of "CHR ''/''" "[]"] by (simp add: Split_internal [OF assms])
  show ?thesis
  proof (cases rule: path_Clean_cases [of root])
    case (rooted bs)
    have "path_Join [path_Clean root, internal es] = internal (clean_loop True [] (strings_Split CHR ''/'' (strings_Join bs ''/'') @ [] # ?es))"
      unfolding sp [symmetric] Clean_rooted [symmetric] by (simp add: rooted(1) internal_def)
    also have "\<dots> = internal (bs @ es)"
    proof (cases "bs = []")
      case True
      then show ?thesis using assms by (simp add: clean_good)
    next
      case False
      then show ?thesis using Split_cleaned [OF rooted(2)] clean_below [OF rooted(2) assms] by simp
    qed
    finally show ?thesis by (simp add: rooted below_internal)
  next
    case here
    have "path_Join [path_Clean root, internal es] = path_Clean (''.'' @ CHR ''/'' # CHR ''/'' # strings_Join es ''/'')"
      by (simp add: here internal_def)
    also have "\<dots> = (if es = [] then ''.'' else strings_Join es ''/'')"
      unfolding path_Clean_def Let_def sp using assms by (auto simp: path_IsAbs_def clean_good)
    finally show ?thesis by (simp add: here below_def)
  next
    case (relative bs)
    note j = Join_nonempty [OF relative(3,2)]
    let ?b = "strings_Join bs ''/''"
    have "path_IsAbs (?b @ x) = False" for x using j by (auto simp: path_IsAbs_def)
    then have "path_Clean (?b @ CHR ''/'' # CHR ''/'' # strings_Join es ''/'') = strings_Join (bs @ es) ''/''"
      unfolding path_Clean_def Let_def sp using Split_cleaned [OF relative(3,2)] clean_below [OF relative(3) assms] relative(2) by simp
    moreover have "?b \<noteq> ''/''" using j by (auto simp: path_IsAbs_def)
    ultimately show ?thesis
      using j relative(1,2) by (cases "es = []") (auto simp: below_def internal_def Join_append)
  qed
qed

text \<open>The paths that the server accepts are those of proper names.\<close>

lemma clean_abs_internal:
  assumes "path_IsAbs p" and "path_Clean p = p" and "CHR 0x5C \<notin> set p"
  obtains es where "p = internal es" and "list_all good_name es"
proof -
  obtain q where q: "p = CHR ''/'' # q" using assms(1) by (cases p) (auto simp: path_IsAbs_def)
  define es where "es = clean_loop True [] (strings_Split CHR ''/'' q)"
  have p: "p = internal es" using assms(2) by (simp add: q Clean_rooted es_def)
  have "cleaned True es" unfolding es_def
    by (rule clean_loop_cleaned) (auto simp: cleaned_def dest: Split_no_slash)
  then have el: "list_all elem_ok es" by (auto simp: cleaned_def)
  have "CHR 0x5C \<notin> set e" if "e \<in> set es" for e
    using assms(3) that unfolding p internal_def by (induction es "''/''" rule: strings_Join.induct) auto
  then have "list_all good_name es" using el by (auto simp: list_all_iff elem_ok_def good_name_def)
  with p that show thesis by blast
qed

lemma fs_fullPath_inside:
  assumes "fs_fullPath (path_Clean root) p = Inr q"
  shows "inside (path_Clean root) q \<and> (\<exists>es. list_all good_name es \<and> p = internal es)"
proof -
  have "path_IsAbs p" "path_Clean p = p" "CHR 0x5C \<notin> set p"
    and q: "q = path_Join [path_Clean root, p]"
    using assms unfolding fs_fullPath_def by (auto simp del: path_Join.simps split: if_splits)
  from this(1-3) obtain es where "p = internal es" "list_all good_name es" by (rule clean_abs_internal)
  then show ?thesis using Join_below [of es root] q unfolding inside_def by blast
qed

section \<open>What the operating system is asked\<close>

text \<open>An operating system that also keeps the paths of the calls; a call on an entry of a directory is on that directory.\<close>

definition tr :: "string list \<Rightarrow> ('o \<Rightarrow> 'r \<times> 'o) \<Rightarrow> string list \<times> 'o \<Rightarrow> 'r \<times> (string list \<times> 'o)" where
  "tr ps f st = (case f (snd st) of (r, st') \<Rightarrow> (r, (fst st @ ps, st')))"

definition traced :: "('o, 'h) OS \<Rightarrow> (string list \<times> 'o, 'h) OS" where
  "traced os =
     \<lparr>os_Stat = (\<lambda>p. tr [p] (os_Stat os p)), os_ReadDir = (\<lambda>p. tr [p] (os_ReadDir os p)),
      entry_Info = (\<lambda>p e. tr [p] (entry_Info os p e)), os_Remove = (\<lambda>p. tr [p] (os_Remove os p)),
      os_Mkdir = (\<lambda>p perm. tr [p] (os_Mkdir os p perm)), os_OpenFile = (\<lambda>p flags perm. tr [p] (os_OpenFile os p flags perm)),
      os_Chmod = (\<lambda>p perm. tr [p] (os_Chmod os p perm)), os_Chown = (\<lambda>p uid gid. tr [p] (os_Chown os p uid gid)),
      os_Truncate = (\<lambda>p n. tr [p] (os_Truncate os p n)), syscall_Rename = (\<lambda>p q. tr [p, q] (syscall_Rename os p q)),
      user_Lookup = (\<lambda>u. tr [] (user_Lookup os u)), user_LookupGroup = (\<lambda>g. tr [] (user_LookupGroup os g)),
      file_Close = (\<lambda>f. tr [] (file_Close os f)), file_ReadAt = (\<lambda>f n off. tr [] (file_ReadAt os f n off)),
      file_WriteAt = (\<lambda>f p off. tr [] (file_WriteAt os f p off))\<rparr>"

definition ref_ok :: "'h FileRef \<Rightarrow> bool" where
  "ref_ok ref \<longleftrightarrow> (\<exists>es. list_all good_name es \<and> fr_Path ref = internal es)"

definition confined :: "string \<Rightarrow> (string list \<times> 'o, 'h) ufsWorld \<Rightarrow> bool" where
  "confined root w \<longleftrightarrow> list_all (inside (path_Clean root)) (fst (uw_os w)) \<and> list_all ref_ok (uw_refs w)"

lemma ref_inside: "ref_ok ref \<Longrightarrow> inside (path_Clean root) (ref_fullPath (path_Clean root) ref)"
  unfolding ref_ok_def ref_fullPath_def inside_def by (metis Join_below)

lemma sys_confined:
  "confined root w \<Longrightarrow> list_all (inside (path_Clean root)) ps \<Longrightarrow> sys (tr ps f) w = (r, w') \<Longrightarrow> confined root w'"
  by (auto simp: sys_def tr_def confined_def split: prod.splits)

lemma confined_upd:
  "confined root w \<Longrightarrow> ref_ok ref \<Longrightarrow> confined root (w\<lparr>uw_refs := uw_refs w @ [ref]\<rparr>)"
  "confined root w \<Longrightarrow> ref_ok ref \<Longrightarrow> confined root (w\<lparr>uw_refs := (uw_refs w)[i := ref]\<rparr>)"
  "confined root (w\<lparr>uw_lists := l\<rparr>) = confined root w"
  by (auto simp: confined_def list_all_iff dest: set_update_subset_insert [THEN subsetD])

lemma on_ref_confined:
  assumes "confined root w" and "\<And>ref. ref_ok ref \<Longrightarrow> confined root (snd (f ref w))"
  shows "confined root (snd (on_ref i nil f w))"
  using assms by (auto simp: on_ref_def confined_def list_all_length)

lemma set_file_confined: "confined root w \<Longrightarrow> i < length (uw_refs w) \<Longrightarrow> confined root (set_file i file w)"
  unfolding set_file_def by (rule confined_upd(2)) (auto simp: confined_def list_all_length ref_ok_def)

lemma traced_sel [simp]:
  "os_Stat (traced os) p = tr [p] (os_Stat os p)" "os_ReadDir (traced os) p = tr [p] (os_ReadDir os p)"
  "entry_Info (traced os) p e = tr [p] (entry_Info os p e)" "os_Remove (traced os) p = tr [p] (os_Remove os p)"
  "os_Mkdir (traced os) p perm = tr [p] (os_Mkdir os p perm)"
  "os_OpenFile (traced os) p flags perm = tr [p] (os_OpenFile os p flags perm)"
  "os_Chmod (traced os) p perm = tr [p] (os_Chmod os p perm)" "os_Chown (traced os) p uid gid = tr [p] (os_Chown os p uid gid)"
  "os_Truncate (traced os) p n = tr [p] (os_Truncate os p n)" "syscall_Rename (traced os) p q = tr [p, q] (syscall_Rename os p q)"
  "user_Lookup (traced os) u = tr [] (user_Lookup os u)" "user_LookupGroup (traced os) u = tr [] (user_LookupGroup os u)"
  "file_Close (traced os) f = tr [] (file_Close os f)" "file_ReadAt (traced os) f k off = tr [] (file_ReadAt os f k off)"
  "file_WriteAt (traced os) f bs off = tr [] (file_WriteAt os f bs off)"
  by (simp_all add: traced_def)

lemma sys_refs: "sys f w = (r, w') \<Longrightarrow> uw_refs w' = uw_refs w"
  by (auto simp: sys_def split: prod.splits)

lemma sys_none: "confined root w \<Longrightarrow> sys (tr [] f) w = (r, w') \<Longrightarrow> confined root w'"
  by (rule sys_confined) simp_all

lemma sys_ref: "confined root w \<Longrightarrow> ref_ok ref \<Longrightarrow> sys (tr [ref_fullPath (path_Clean root) ref] f) w = (r, w') \<Longrightarrow> confined root w'"
  by (rule sys_confined) (simp_all add: ref_inside)

lemma sys_at: "confined root w \<Longrightarrow> inside (path_Clean root) p \<Longrightarrow> sys (tr [p] f) w = (r, w') \<Longrightarrow> confined root w'"
  by (rule sys_confined) simp_all

lemma sys_snd: "confined root w \<Longrightarrow> list_all (inside (path_Clean root)) ps \<Longrightarrow> confined root (snd (sys (tr ps f) w))"
  by (metis prod.collapse sys_confined)

lemma newRef_confined:
  assumes "confined root w" and "ufs_newRef (traced os) (path_Clean root) p w = (r, w')"
  shows "confined root w'" and "r = Inr i \<Longrightarrow> i < length (uw_refs w')"
proof -
  show "confined root w'"
  proof (cases "fs_fullPath (path_Clean root) p")
    case (Inl e)
    then show ?thesis using assms by (simp add: ufs_newRef_def)
  next
    case (Inr q)
    note q = fs_fullPath_inside [OF Inr]
    obtain r1 w1 where 1: "sys (tr [q] (os_Stat os q)) w = (r1, w1)" by fastforce
    have c: "confined root w1" using sys_confined [OF assms(1) _ 1] q by simp
    have "ref_ok \<lparr>fr_file = None, fr_Path = p, fr_Info = d\<rparr>" for d using q by (simp add: ref_ok_def)
    then show ?thesis using assms(2) Inr 1 c confined_upd(1) [OF c] by (auto simp: ufs_newRef_def split: sum.splits)
  qed
  show "i < length (uw_refs w')" if "r = Inr i"
    using assms(2) that by (auto simp: ufs_newRef_def split: sum.splits prod.splits)
qed

lemma read_entries_confined:
  "confined root w \<Longrightarrow> inside (path_Clean root) dir \<Longrightarrow> read_entries (traced os) dir entries w = (ds, w') \<Longrightarrow> confined root w'"
proof (induction entries arbitrary: w ds)
  case (Cons e es)
  obtain r w1 where 1: "sys (dirFromEntry (traced os) dir e) w = (r, w1)" by fastforce
  have eq: "sys (dirFromEntry (traced os) dir e) w = sys (tr [dir] (\<lambda>st. case entry_Info os dir e st of (r, st') \<Rightarrow> (map_sum id dirFromInfo r, st'))) w"
    by (simp add: sys_def dirFromEntry_def tr_def split: prod.splits)
  have "confined root w1" using sys_confined [OF Cons.prems(1) _ trans [OF eq [symmetric] 1]] Cons.prems(2) by simp
  then show ?case using Cons.IH Cons.prems 1 by (auto split: prod.splits)
qed simp

lemma OpenDir_confined:
  assumes "confined root w"
  shows "confined root (snd (ufs_OpenDir (traced os) (path_Clean root) i w))"
  unfolding ufs_OpenDir_def
proof (rule on_ref_confined [OF assms], goal_cases)
  case (1 ref)
  then show ?case
    using assms read_entries_confined [OF sys_ref [OF assms 1] ref_inside [OF 1]] sys_ref [OF assms 1]
    by (auto simp: confined_upd(3) split: sum.split prod.split)
qed

lemma ref_Clunk_confined: "confined root w \<Longrightarrow> ref_Clunk (traced os) ref w = (r, w') \<Longrightarrow> confined root w'"
  by (auto simp: ref_Clunk_def split: option.splits dest: sys_none)

lemma Remove_confined:
  assumes "confined root w"
  shows "confined root (snd (ufs_Remove (traced os) (path_Clean root) i w))"
  unfolding ufs_Remove_def
proof (rule on_ref_confined [OF assms], goal_cases)
  case (1 ref)
  obtain r1 w1 where c: "ref_Clunk (traced os) ref w = (r1, w1)" by fastforce
  note w1 = ref_Clunk_confined [OF assms c]
  show ?case
    using c w1 by (simp add: sys_snd ref_inside [OF 1])
qed

lemma Walk_confined:
  assumes "confined root w"
  shows "confined root (snd (ufs_Walk (traced os) (path_Clean root) i names w))"
  unfolding ufs_Walk_def
proof (rule on_ref_confined [OF assms], goal_cases)
  case (1 ref)
  show ?case using assms newRef_confined(1) [OF assms] by (auto split: sum.split prod.split)
qed

lemma create_switch_confined:
  assumes "confined root w" and "inside (path_Clean root) p" and "create_switch (traced os) p perm mode w = (r, w')"
  shows "confined root w'"
  using assms by (auto simp: create_switch_def split: if_splits prod.splits option.splits dest: sys_at)

lemma Create_confined:
  assumes "confined root w"
  shows "confined root (snd (ufs_Create (traced os) (path_Clean root) i name perm mode w))"
  unfolding ufs_Create_def
proof (rule on_ref_confined [OF assms], goal_cases)
  case (1 ref)
  show ?case
  proof (cases "\<exists>rel p file w1. CreateName (fr_Path ref) name = Inr rel \<and> fs_fullPath (path_Clean root) rel = Inr p \<and>
      create_switch (traced os) p perm mode w = (Inr file, w1)")
    case True
    then obtain rel p "file" w1 where p: "CreateName (fr_Path ref) name = Inr rel" "fs_fullPath (path_Clean root) rel = Inr p"
      and s: "create_switch (traced os) p perm mode w = (Inr file, w1)" by blast
    have c1: "confined root w1" using create_switch_confined [OF assms _ s] fs_fullPath_inside [OF p(2)] by simp
    obtain r2 w2 where 2: "ufs_newRef (traced os) (path_Clean root) rel w1 = (r2, w2)" by fastforce
    note c2 = newRef_confined [OF c1 2]
    show ?thesis
      using p s 2 c2 by (cases r2; cases "file") (simp_all add: Let_def set_file_confined sys_snd)
  next
    case False
    have "confined root w1" if "fs_fullPath (path_Clean root) rel = Inr p" "create_switch (traced os) p perm mode w = (r, w1)" for rel p r w1
      using create_switch_confined [OF assms _ that(2)] fs_fullPath_inside [OF that(1)] by simp
    with False show ?thesis using assms by (auto simp: Let_def split: sum.split prod.split)
  qed
qed

lemma wstat_name_confined:
  assumes "confined root w" and "ref_ok ref" and "wstat_name (traced os) (path_Clean root) i ref dir w = (r, w')"
  shows "confined root w'" and "r = Inr ref' \<Longrightarrow> ref_ok ref'"
proof -
  define rel where "rel = (if path_IsAbs (d_Name dir) then path_Clean [] else path_Join [path_Dir (fr_Path ref), d_Name dir])"
  have n: "wstat_name (traced os) (path_Clean root) i ref dir w =
     (if d_Name dir \<noteq> [] then
        (case fs_fullPath (path_Clean root) rel of
           Inl err \<Rightarrow> (Inl err, w)
         | Inr newpath \<Rightarrow>
             (case sys (tr [ref_fullPath (path_Clean root) ref, newpath] (syscall_Rename os (ref_fullPath (path_Clean root) ref) newpath)) w of
                (Some err, w1) \<Rightarrow> (Inl err, w1)
              | (None, w1) \<Rightarrow> (Inr (ref\<lparr>fr_Path := rel\<rparr>), w1\<lparr>uw_refs := (uw_refs w1)[i := ref\<lparr>fr_Path := rel\<rparr>]\<rparr>)))
      else (Inr ref, w))"
    unfolding wstat_name_def Let_def rel_def traced_sel ..
  have ok: "ref_ok (ref\<lparr>fr_Path := rel\<rparr>)" if "fs_fullPath (path_Clean root) rel = Inr p" for p
    using fs_fullPath_inside [OF that] by (simp add: ref_ok_def)
  have c: "confined root w1"
    if "fs_fullPath (path_Clean root) rel = Inr p" "sys (tr [ref_fullPath (path_Clean root) ref, p] f) w = (r1, w1)"
    for p w1 and r1 :: "error option" and f
    using sys_confined [OF assms(1) _ that(2)] fs_fullPath_inside [OF that(1)] ref_inside [OF assms(2)] by simp
  show "confined root w'"
    using assms(1,3) c confined_upd(2) [OF c ok] unfolding n by (auto split: if_splits sum.splits prod.splits option.splits)
  show "r = Inr ref' \<Longrightarrow> ref_ok ref'"
    using assms(2,3) ok unfolding n by (auto split: if_splits sum.splits prod.splits option.splits)
qed

lemma wstat_owner_confined:
  assumes "confined root w" and "ref_ok ref"
  shows "confined root (snd (wstat_owner quote (traced os) (path_Clean root) ref dir w))"
proof -
  obtain r1 w1 where 1: "sys (tr [] (user_Lookup os (d_UID dir))) w = (r1, w1)" by fastforce
  obtain r2 w2 where 2: "sys (tr [] (user_LookupGroup os (d_GID dir))) w1 = (r2, w2)" by fastforce
  note c1 = sys_none [OF assms(1) 1]
  note c2 = sys_none [OF c1 2]
  show ?thesis
    using assms(1) c1 c2 by (simp add: wstat_owner_def 1 2 sys_snd ref_inside [OF assms(2)] split: sum.split)
qed

lemma WStat_confined:
  assumes "confined root w"
  shows "confined root (snd (ufs_WStat quote (traced os) (path_Clean root) i dir w))"
  unfolding ufs_WStat_def
proof (rule on_ref_confined [OF assms], goal_cases)
  case (1 ref)
  obtain r1 w1 where 1: "wstat_mode (traced os) (path_Clean root) ref dir w = (r1, w1)" by fastforce
  obtain r2 w2 where 2: "wstat_owner quote (traced os) (path_Clean root) ref dir w1 = (r2, w2)" by fastforce
  obtain r3 w3 where 3: "wstat_name (traced os) (path_Clean root) i ref dir w2 = (r3, w3)" by fastforce
  have c1: "confined root w1" using assms 1 \<open>ref_ok ref\<close> by (auto simp: wstat_mode_def split: if_splits dest: sys_ref)
  have c2: "confined root w2" using wstat_owner_confined [OF c1 \<open>ref_ok ref\<close>, of quote os dir] 2 by simp
  note c3 = wstat_name_confined [OF c2 \<open>ref_ok ref\<close> 3]
  have "confined root (snd (wstat_length (traced os) (path_Clean root) ref' dir w3))" if "r3 = Inr ref'" for ref'
    using c3 that by (simp add: wstat_length_def sys_snd ref_inside)
  then show ?case using c1 c2 c3(1) 1 2 3 by (simp split: sum.split option.split)
qed

lemma Open_confined:
  assumes "confined root w"
  shows "confined root (snd (ufs_Open (traced os) (path_Clean root) i mode w))"
proof (cases "i < length (uw_refs w)")
  case True
  obtain r1 w1 where 1: "sys (tr [ref_fullPath (path_Clean root) (uw_refs w ! i)]
      (os_OpenFile os (ref_fullPath (path_Clean root) (uw_refs w ! i)) (oflags mode) 0)) w = (r1, w1)" by fastforce
  have "ref_ok (uw_refs w ! i)" using assms True by (simp add: confined_def list_all_length)
  then have "confined root w1" using sys_ref [OF assms _ 1] by simp
  then show ?thesis
    using True 1 sys_refs [OF 1] by (cases r1) (simp_all add: ufs_Open_def on_ref_def set_file_confined)
qed (simp add: ufs_Open_def on_ref_def assms)

lemma io_confined:
  assumes "confined root w"
  shows "confined root (snd (on_ref i (Some nil_deref) (ref_Clunk (traced os)) w))"
    "confined root (snd (ufs_Stat i w))" "confined root (snd (ufs_Read (traced os) i n offset w))"
    "confined root (snd (ufs_Write (traced os) i p offset w))" "confined root (snd (ufs_Next k w))"
    "confined root (snd (ufs_Attach (traced os) (path_Clean root) w))"
  using assms ref_Clunk_confined [OF assms] newRef_confined(1) [OF assms]
  by (auto simp: on_ref_def ufs_Stat_def ufs_Read_def ufs_Write_def ufs_Next_def ufs_Attach_def confined_upd(3) sys_snd
      split: option.split prod.split sum.split dest: sys_none [OF assms]) (metis prod.collapse)

interpretation host: world_invariant "ufs quote (traced os) root" "confined root" for quote os root
  by unfold_locales
    (simp_all add: ufs_def Let_def io_confined OpenDir_confined Walk_confined Create_confined Open_confined Remove_confined
      WStat_confined case_prod_beta)

section \<open>Properties\<close>

text \<open>
  C14: whatever a client asks of a server of the host directory \<open>root\<close>, and whatever the operating
  system answers, each path that the server gives to the operating system is the cleaned root
  followed by proper names: without \<open>..\<close>, \<open>.\<close>, empty elements, slashes or backslashes.
\<close>

theorem ufs_confined:
  assumes "handle_all (sfs (ufs quote (traced os) root) order msize) msgs (new_session (ufs_start ([], st))) = (rs, s')"
    and "p \<in> set (fst (uw_os (se_world s')))"
  shows "\<exists>es. list_all good_name es \<and> p = below (path_Clean root) es"
proof -
  have "confined root (ufs_start ([], st) :: (string list \<times> 'a, 'b) ufsWorld)" by (simp add: confined_def ufs_start_def)
  then have "confined root (se_world s')"
    using host.handle_all_holds [OF host.holds_new assms(1)] by (simp add: host.holds_def)
  then show ?thesis using assms(2) by (auto simp: confined_def list_all_iff inside_def)
qed

text \<open>An operating system where every path is a directory, for an example.\<close>

definition sample_os :: "(unit, nat) OS" where
  "sample_os =
     \<lparr>os_Stat = (\<lambda>p st. (Inr \<lparr>fi_Name = p, fi_Size = 0, fi_Mode = 0x800001ED, fi_ModTime = zero_time, fi_Ino = 7, fi_Atim = (0, 0)\<rparr>, st)),
      os_ReadDir = (\<lambda>p st. (Inr [], st)), entry_Info = (\<lambda>p e st. (Inl ErrNotfound, st)), os_Remove = (\<lambda>p st. (None, st)),
      os_Mkdir = (\<lambda>p perm st. (None, st)), os_OpenFile = (\<lambda>p flags perm st. (Inr 0, st)), os_Chmod = (\<lambda>p perm st. (None, st)),
      os_Chown = (\<lambda>p uid gid st. (None, st)), os_Truncate = (\<lambda>p n st. (None, st)), syscall_Rename = (\<lambda>p q st. (None, st)),
      user_Lookup = (\<lambda>u st. (Inr ''0'', st)), user_LookupGroup = (\<lambda>g st. (Inr ''0'', st)),
      file_Close = (\<lambda>f st. (None, st)), file_ReadAt = (\<lambda>f n off st. (([], Some EOF), st)),
      file_WriteAt = (\<lambda>f p off st. ((int (length p), None), st))\<rparr>"

definition sample_host :: "(unit, nat) OS \<Rightarrow> (error + Message) list \<times> ((string list \<times> unit, nat) ufsWorld, nat, nat) session" where
  "sample_host os = handle_all (sfs (ufs (\<lambda>s. s) (traced os) ''/srv//x/'') [] 100)
     [(None, MessageTattach 1 NOFID ''u'' ''/''), (None, MessageTwalk 1 2 [''usr'', ''glenda''])] (new_session (ufs_start ([], ())))"

theorem ufs_confined_witness:
  "fst (uw_os (se_world (snd (sample_host sample_os)))) = [''/srv/x'', ''/srv/x/usr/glenda''] \<and>
   (\<exists>es. list_all good_name es \<and> ''/srv/x/usr/glenda'' = below (path_Clean ''/srv//x/'') es)"
proof -
  have t: "fst (uw_os (se_world (snd (sample_host sample_os)))) = [''/srv/x'', ''/srv/x/usr/glenda'']" by code_simp
  obtain rs s' where h: "sample_host sample_os = (rs, s')" by fastforce
  have "''/srv/x/usr/glenda'' \<in> set (fst (uw_os (se_world s')))" using t h by simp
  from ufs_confined [OF h [unfolded sample_host_def] this] t show ?thesis by blast
qed

end
