(* ===== verification/P9_Listing.thy ===== *)
theory P9_Listing
  imports P9_Commander_Correct P9_Ramfs_Correct P9_Ufs_Correct
begin

text \<open>
  Listing a directory from end to end: the loop of \<open>ls\<close> (\<^verbatim>\<open>cmd/9pr/main.go\<close>) over the open directories of
  the client's file system (\<^verbatim>\<open>cfilesys.go\<close>), whose reads go through the client's session and the handler
  of the server to its session (\<^verbatim>\<open>sfilesys.go\<close>) and the \<open>Readdir\<close> there (\<^verbatim>\<open>readdir.go\<close>), which asks the
  file system.
\<close>

section \<open>Decoding\<close>

text \<open>What arrives of an entry: its times are reduced to seconds, modulo their 32 bits, in UTC.\<close>

definition received :: "Dir \<Rightarrow> Dir" where
  "received d =
     (let cut = (\<lambda>t. time_unix_utc (word_of_int (t_unix t))) in
      d\<lparr>d_AccessTime := cut (d_AccessTime d), d_ModTime := cut (d_ModTime d)\<rparr>)"

definition sendable :: "Dir \<Rightarrow> bool" where
  "sendable d \<longleftrightarrow> length (w_dir_body d) < 65534"

lemma w_dir_received: "w_dir_body (received d) = w_dir_body d" "w_dir (received d) = w_dir d"
  by (simp_all add: received_def w_dir_def w_dir_body_def w_time_def Let_def time_unix_utc_def)

lemma DecodeDir_received: "sendable d \<Longrightarrow> DecodeDir (w_dir d @ r) = Inr (received d, r)"
proof -
  assume "sendable d"
  then have "wf_dir (received d) \<and> length (w_dir_body (received d)) < 65534"
    by (simp add: sendable_def wf_dir_def w_dir_received) (simp add: received_def wf_time_unix_utc)
  then show ?thesis using DecodeDir_entry [of "received d" r] by (simp add: w_dir_received)
qed

lemma DecodeDir_Nil: "DecodeDir [] = Inl EOF"
  by code_simp

lemma decode_dirs_listing:
  "list_all sendable ds \<Longrightarrow> length ds < k \<Longrightarrow> decode_dirs k (w_dirs ds) ret = (ret @ map received ds, None)"
proof (induction ds arbitrary: k ret)
  case Nil
  then show ?case by (cases k) (simp_all add: DecodeDir_Nil)
next
  case (Cons d ds)
  then show ?case by (cases k) (simp_all add: DecodeDir_received)
qed

lemma length_w_dirs: "length ds \<le> length (w_dirs ds)"
proof (induction ds)
  case (Cons d ds)
  then show ?case using w_dir_nonempty [of d] unfolding w_dirs_simps length_append list.size by linarith
qed simp

section \<open>Printing and clunking\<close>

lemma tw_print_entries: "fold (\<lambda>d. tw_print (OEntry d)) ds wr = wr\<lparr>tw_held := tw_held wr @ map OEntry ds\<rparr>"
  by (induction ds arbitrary: wr) (simp_all add: tw_print_def)

lemma on_world_out: "on_world f c = (r, c') \<Longrightarrow> cm_out c' = cm_out c"
  by (auto simp: on_world_def split: prod.splits)

text \<open>The errors of a server reach a client as messages, and are no panics.\<close>

lemma panics_wire [simp]: "\<not> panics (Some (wire_error e))"
  by (cases e) (simp_all add: panics_def)

lemma clunk_connected:
  assumes "sess = connected fs order msize tag" and "ce_fs ent"
  shows "\<exists>c'. clunk (cfs sess) ctx ent (None, c) = (None, c') \<and> cm_out c' = cm_out c"
proof -
  have "\<not> panics (fst (ss_Clunk sess ctx fid s))" for fid s
    by (simp add: assms(1) connected_def client_session_def client_ops proxy_defs split: prod.split option.split)
  then show ?thesis
    using assms(2) by (auto simp: clunk_def on_world_def cfs_def cEnt_Clunk_def call_def split: prod.splits) (metis fst_conv)
qed

section \<open>Directories of a served file system\<close>

text \<open>The \<open>Readdir\<close> of a fid that can be read, with the world of the session as the world of its source.\<close>

definition dir_reader :: "Fid \<Rightarrow> ('w, 'e, 'f) session \<Rightarrow> (Dir list \<times> bool \<times> 'w) Readdir option" where
  "dir_reader fid s =
     (case se_refs s fid of
        Some ref \<Rightarrow>
          (case sf_File ref of
             Some (DirFile rd) \<Rightarrow>
               if fid \<noteq> NOFID \<and> \<not> sf_locked ref \<and> sf_Ent ref \<noteq> None \<and> sf_Mode ref AND OEXEC \<noteq> OWRITE
               then Some (rd\<lparr>rd_state := (fst (rd_state rd), fst (snd (rd_state rd)), se_world s)\<rparr>) else None
           | _ \<Rightarrow> None)
      | None \<Rightarrow> None)"

lemma sess_Read_reader:
  assumes "dir_reader fid s = Some rd" and "Readdir_Read ctx rd n offset = Some (p, err, rd')"
  shows "\<exists>s'. sess_Read fs ctx fid n offset s = ((p, err), s') \<and> dir_reader fid s' = Some rd'"
proof -
  obtain ref rd0 where r: "se_refs s fid = Some ref" "sf_File ref = Some (DirFile rd0)" "fid \<noteq> NOFID" "\<not> sf_locked ref"
    "sf_Ent ref \<noteq> None" "sf_Mode ref AND OEXEC \<noteq> OWRITE"
    "rd = rd0\<lparr>rd_state := (fst (rd_state rd0), fst (snd (rd_state rd0)), se_world s)\<rparr>"
    using assms(1) by (auto simp: dir_reader_def split: option.splits sfile.splits if_splits)
  obtain dirs dn w0 where w0: "rd_state rd0 = (dirs, dn, w0)" by (metis surj_pair)
  let ?s = "s\<lparr>se_world := snd (snd (rd_state rd')),
      se_refs := (se_refs s)(fid \<mapsto> ref\<lparr>sf_File := Some (DirFile rd'), sf_locked := False\<rparr>)\<rparr>"
  have "sess_Read fs ctx fid n offset s = ((p, err), ?s)"
    using r w0 assms(2) by (auto simp: sess_Read_def getRef_def Let_def file_Read_def unlock_def set_ref_def)
  moreover have "dir_reader fid ?s = Some rd'" using r by (simp add: dir_reader_def)
  ultimately show ?thesis by blast
qed

text \<open>
  An open directory of a served file system, whose source yields its entries: reading it through a client
  gives them all, up to the first that is too large for a read.
\<close>

locale served_dir = dir_source "mkNext1 (rn_Next fs k)" pend good
  for fs :: "('w, 'e, 'f, 'n) FileSys" and k :: 'n and pend and good
begin

text \<open>What is left to read behind a fid.\<close>

definition left :: "Fid \<Rightarrow> ('w, 'e, 'f) session \<Rightarrow> int \<Rightarrow> Dir list \<Rightarrow> bool" where
  "left fid s offset ds \<longleftrightarrow> (\<exists>rd. dir_reader fid s = Some rd \<and> of_source (mkNext1 (rn_Next fs k)) rd \<and> good (rd_state rd) \<and>
     rd_offset rd = offset \<and> pending pend rd = ds)"

lemma sess_Read_left:
  assumes "left fid s offset ds" and "fit_entries n ds = (a, b)"
  shows "\<exists>s'. sess_Read fs ctx fid n offset s = ((w_dirs a, None), s') \<and> left fid s' (offset + int (length (w_dirs a))) b"
proof -
  obtain rd where rd: "dir_reader fid s = Some rd" "of_source (mkNext1 (rn_Next fs k)) rd" "good (rd_state rd)"
    "rd_offset rd = offset" "pending pend rd = ds" using assms(1) by (auto simp: left_def)
  obtain rd' where rd': "Readdir_Read ctx rd n offset = Some (w_dirs a, None, rd')" "of_source (mkNext1 (rn_Next fs k)) rd'"
    "good (rd_state rd')" "pending pend rd' = b" "rd_offset rd' = offset + int (length (w_dirs a))"
    by (rule read_fit [OF rd(2,3), of ctx n]) (use rd(4,5) assms(2) in auto)
  show ?thesis using sess_Read_reader [OF rd(1) rd'(1), of fs] rd'(2-5) by (auto simp: left_def)
qed

lemma connected_Read_left:
  assumes "left fid s offset ds" and "fit_entries (min n (nat (msize - 11))) ds = (a, b)"
    and "n < 4294967296" and "- (2 ^ 63) \<le> offset" and "offset < 2 ^ 63"
  shows "\<exists>s'. ss_Read (connected fs order msize tag) ctx fid n offset s = ((w_dirs a, if a = [] then Some EOF else None), s') \<and>
    left fid s' (offset + int (length (w_dirs a))) b"
proof -
  obtain s' where s': "sess_Read fs ctx fid (min n (nat (msize - 11))) offset s = ((w_dirs a, None), s')"
    "left fid s' (offset + int (length (w_dirs a))) b" using sess_Read_left [OF assms(1,2)] by blast
  have l: "length (w_dirs a) \<le> n" using fit_entries_length [OF assms(2)] by simp
  have e: "w_dirs a = [] \<longleftrightarrow> a = []" using length_w_dirs [of a] by auto
  have "ss_Read (connected fs order msize tag) ctx fid n offset s =
      client_Read \<lparr>cl_version = DefaultVersion, cl_msize = msize, cl_send = direct_send (sfs fs order msize) tag\<rparr> ctx fid n offset s"
    by (simp add: connected_def client_session_def)
  also have "\<dots> = ((w_dirs a, if a = [] then Some EOF else None), s')"
    using client_Read_direct [OF assms(3-5), of _ "SFileSys fs order" msize tag ctx fid s] s'(1) l e
    by (simp add: SFileSys_def)
  finally show ?thesis using s'(2) by blast
qed

text \<open>The open directory that the client reads from, while there may be more to come.\<close>

definition reading :: "nat \<Rightarrow> Fid \<Rightarrow> nat \<Rightarrow> Dir list \<Rightarrow> ('w, 'e, 'f) session fsState \<Rightarrow> bool" where
  "reading i fid n ds w \<longleftrightarrow> i < length (cs_dirs w) \<and>
     (let dir = cs_dirs w ! i in
      ce_fid (od_fileRef dir) = fid \<and> ce_fs (od_fileRef dir) \<and> \<not> od_done dir \<and> od_buf dir = n \<and>
      0 \<le> od_nread dir \<and> od_nread dir + int (length (w_dirs ds)) < 2 ^ 63 \<and> left fid (cs_session w) (od_nread dir) ds)"

lemma Next_reading:
  assumes "reading i fid n ds w" and "list_all sendable ds" and "n < 4294967296" and "fit_entries (min n (nat (msize - 11))) ds = (a, b)"
  shows "\<exists>w'. openDir_Next (connected fs order msize tag) i ctx w = (Inr (map received a), w') \<and> (a \<noteq> [] \<longrightarrow> reading i fid n b w')"
proof -
  let ?dir = "cs_dirs w ! i" and ?sess = "connected fs order msize tag"
  have i: "i < length (cs_dirs w)" "ce_fid (od_fileRef ?dir) = fid" "ce_fs (od_fileRef ?dir)" "\<not> od_done ?dir" "od_buf ?dir = n"
    "0 \<le> od_nread ?dir" "od_nread ?dir + int (length (w_dirs ds)) < 2 ^ 63" "left fid (cs_session w) (od_nread ?dir) ds"
    using assms(1) by (simp_all add: reading_def Let_def)
  have ab: "ds = a @ b" by (rule fit_entries_append [OF assms(4)])
  have o: "- (2 ^ 63) \<le> od_nread ?dir" "od_nread ?dir < 2 ^ 63" using i(6,7) by simp_all
  obtain s' where s': "ss_Read ?sess ctx fid n (od_nread ?dir) (cs_session w) = ((w_dirs a, if a = [] then Some EOF else None), s')"
    "left fid s' (od_nread ?dir + int (length (w_dirs a))) b"
    using connected_Read_left [OF i(8) assms(4,3) o] by blast
  have r: "cFile_Read ?sess ctx (FileRef (od_fileRef ?dir) 0) n (od_nread ?dir) w =
      ((w_dirs a, if a = [] then Some EOF else None), w\<lparr>cs_session := s'\<rparr>)"
    using s'(1) i(2,3) by (simp add: cFile_Read_def call_def)
  show ?thesis
  proof (cases "a = []")
    case True
    then show ?thesis using r i(4,5) by (simp add: openDir_Next_def Let_def)
  next
    case False
    have "decode_dirs (Suc (length (w_dirs a))) (w_dirs a) [] = (map received a, None)"
      using decode_dirs_listing [of a "Suc (length (w_dirs a))" "[]"] length_w_dirs [of a] assms(2) ab by simp
    then have "openDir_Next ?sess i ctx w = (Inr (map received a), w\<lparr>cs_session := s',
        cs_dirs := (cs_dirs w)[i := ?dir\<lparr>od_nread := od_nread ?dir + int (length (w_dirs a))\<rparr>]\<rparr>)"
      using r i(4,5) False by (simp add: openDir_Next_def Let_def del: decode_dirs.simps)
    moreover have "reading i fid n b (w\<lparr>cs_session := s',
        cs_dirs := (cs_dirs w)[i := ?dir\<lparr>od_nread := od_nread ?dir + int (length (w_dirs a))\<rparr>]\<rparr>)"
      using assms(1) i s'(2) ab by (simp add: reading_def Let_def)
    ultimately show ?thesis by blast
  qed
qed

lemma ls_entries_reading:
  assumes "reading i fid n ds (cm_world c)" and "list_all sendable ds" and "n < 4294967296" and "rd = openDir_Next (connected fs order msize tag) i"
  shows "\<exists>c'. ls_entries rd ctx wr c =
    Some (None, fold (\<lambda>d. tw_print (OEntry d)) (map received (takeWhile (\<lambda>d. length (w_dir d) \<le> min n (nat (msize - 11))) ds)) wr, c')"
  using assms(1,2)
proof (induction "length ds" arbitrary: ds c wr rule: less_induct)
  case less
  let ?P = "\<lambda>d. length (w_dir d) \<le> min n (nat (msize - 11))"
  obtain a b where ab: "fit_entries (min n (nat (msize - 11))) ds = (a, b)" by fastforce
  have split: "ds = a @ b" by (rule fit_entries_append [OF ab])
  obtain w' where w': "rd ctx (cm_world c) = (Inr (map received a), w')" "a \<noteq> [] \<longrightarrow> reading i fid n b w'"
    using Next_reading [OF less.prems assms(3) ab] assms(4) by blast
  have step: "ls_entries rd ctx wr c = (if a = [] then Some (None, wr, c\<lparr>cm_world := w'\<rparr>)
      else ls_entries rd ctx (fold (\<lambda>d. tw_print (OEntry d)) (map received a) wr) (c\<lparr>cm_world := w'\<rparr>))"
    using w'(1) by (subst ls_entries.simps) (simp add: on_world_def)
  show ?case
  proof (cases "a = []")
    case True
    then have "takeWhile ?P ds = []" using ab fit_entries_empty by metis
    then show ?thesis using step True by simp
  next
    case False
    have "list_all ?P a" using entries_le [OF fit_entries_length [OF ab]] by (simp add: list_all_iff)
    then have "takeWhile ?P ds = a @ takeWhile ?P b" by (simp add: split list_all_iff)
    moreover have "\<exists>c'. ls_entries rd ctx (fold (\<lambda>d. tw_print (OEntry d)) (map received a) wr) (c\<lparr>cm_world := w'\<rparr>) =
        Some (None, fold (\<lambda>d. tw_print (OEntry d)) (map received (takeWhile ?P b)) (fold (\<lambda>d. tw_print (OEntry d)) (map received a) wr), c')"
      using less.hyps [of b "c\<lparr>cm_world := w'\<rparr>"] False w'(2) less.prems(2) split by simp
    ultimately show ?thesis using step False by simp
  qed
qed

lemma OpenDir_reading:
  assumes "se_refs (cs_session w) fid = Some ref" and "fid \<noteq> NOFID" and "\<not> sf_locked ref" and "sf_Ent ref = Some e" and "sf_File ref = None"
    and "IsDir fs e (se_world (cs_session w))" and "de_OpenDir fs ctx e (se_world (cs_session w)) = ((Some k, None), w')"
    and "good ([], False, w')" and "length (w_dirs (pend ([], False, w'))) < 2 ^ 63"
    and "ce_fid ent = fid" and "ce_fs ent" and "11 \<le> msize"
  shows "\<exists>w1. cEnt_OpenDir (connected fs order msize tag) ctx ent w = ((Some (length (cs_dirs w)), None), w1) \<and>
    reading (length (cs_dirs w)) fid (nat (msize - 11)) (pend ([], False, w')) w1"
proof -
  let ?s = "cs_session w" and ?sess = "connected fs order msize tag"
  let ?rd = "NewReaddir codec9p (rn_Next fs k) w'"
  let ?s' = "?s\<lparr>se_world := w', se_refs := (se_refs ?s)(fid \<mapsto> ref\<lparr>sf_File := Some (DirFile ?rd), sf_Mode := OREAD, sf_locked := False\<rparr>)\<rparr>"
  have "sess_Open fs ctx fid OREAD ?s = (Inr (de_Qid fs e w', 0), ?s')"
    using assms(1-7) by (simp add: sess_Open_def getRef_def Let_def set_ref_def unlock_def openLocked_def file_IOUnit_def)
  then have "ss_Open ?sess ctx fid OREAD ?s = (Inr (de_Qid fs e w', 0), ?s')"
    using client_Open_direct [of _ "SFileSys fs order" msize tag ctx fid OREAD ?s]
    by (simp add: connected_def client_session_def SFileSys_def map_err_def)
  moreover have "ss_Version ?sess st = ((msize, DefaultVersion), st)" for st
    by (simp add: connected_def client_session_def client_Version_def)
  ultimately have "cEnt_OpenDir ?sess ctx ent w = ((Some (length (cs_dirs w)), None), w\<lparr>cs_session := ?s',
      cs_dirs := cs_dirs w @ [\<lparr>od_fileRef = ent, od_done = False, od_nread = 0, od_buf = nat (msize - 11)\<rparr>]\<rparr>)"
    using assms(10-12) by (simp add: cEnt_OpenDir_def cEnt_Open_def call_def file_iounit_def)
  moreover have "left fid ?s' 0 (pend ([], False, w'))"
    using assms(2,4,8) by (simp add: left_def dir_reader_def NewReaddir_def of_source_def pending_def)
  ultimately show ?thesis using assms(9-11) by (simp add: reading_def)
qed

text \<open>\<open>ls\<close> of one path, when the walk has found a directory that is not open.\<close>

lemma cmdls_dir:
  assumes "toWalk p c = Inr (rel, steps, path)" and "walk_to (cfs sess) ctx rel steps c = (Inr (Some ent), c1)"
    and "sess = connected fs order msize tag" and "cEnt_IsDir ent" and "ce_fs ent" and "s = cs_session (cm_world c1)"
    and "se_refs s (ce_fid ent) = Some ref" and "ce_fid ent \<noteq> NOFID" and "\<not> sf_locked ref" and "sf_Ent ref = Some e" and "sf_File ref = None"
    and "IsDir fs e (se_world s)" and "de_OpenDir fs ctx e (se_world s) = ((Some k, None), w')" and "good ([], False, w')"
    and "list_all sendable (pend ([], False, w'))" and "length (w_dirs (pend ([], False, w'))) < 2 ^ 63"
    and "11 \<le> msize" and "msize < 2 ^ 32"
  shows "\<exists>c'. cmdls (cfs sess) ctx [p] c = Some (None, c') \<and>
    cm_out c' = cm_out c @ map OEntry (map received (takeWhile (\<lambda>d. length (w_dir d) \<le> nat (msize - 11)) (pend ([], False, w'))))"
proof -
  let ?ds = "pend ([], False, w')" and ?n = "nat (msize - 11)" and ?fs = "cfs sess" and ?w = "cm_world c1"
  let ?i = "length (cs_dirs ?w)" and ?wr = "\<lparr>tw_held = [], tw_written = []\<rparr>"
  let ?es = "map received (takeWhile (\<lambda>d. length (w_dir d) \<le> ?n) ?ds)"
  obtain w1 where w1: "cEnt_OpenDir sess ctx ent ?w = ((Some ?i, None), w1)" "reading ?i (ce_fid ent) ?n ?ds w1"
    using OpenDir_reading [of ?w "ce_fid ent" ref e ctx w' ent msize order tag] assms(3,5-14,16,17) by auto
  let ?c2 = "c1\<lparr>cm_world := w1\<rparr>"
  have n: "?n < 4294967296" using assms(17,18) by simp
  obtain c3 where l: "ls_entries (openDir_Next sess ?i) ctx ?wr ?c2 = Some (None, fold (\<lambda>d. tw_print (OEntry d)) ?es ?wr, c3)"
    using ls_entries_reading [of ?i "ce_fid ent" ?n ?ds ?c2 "openDir_Next sess ?i" order msize tag ctx ?wr] w1(2) assms(3,15) n by auto
  obtain r where "on_world (de_Walk ?fs ctx rel steps) c = (r, c1)"
    using assms(2) by (cases "on_world (de_Walk ?fs ctx rel steps) c") (simp add: walk_to_def split: prod.splits)
  then have "cm_out c1 = cm_out c" by (rule on_world_out)
  then have out: "cm_out c3 = cm_out c"
    by (intro loop_inv(2) [OF l, where I = "\<lambda>c'. cm_out c' = cm_out c"]) (auto dest: on_world_out)
  have d: "IsDir ?fs ent ?w" using assms(4) by (simp add: IsDir_def cEnt_IsDir_def cfs_def)
  have o: "on_world (de_OpenDir ?fs ctx ent) c1 = ((Some ?i, None), ?c2)" "rn_Next ?fs ?i = openDir_Next sess ?i"
    using w1(1) by (simp_all add: on_world_def cfs_def)
  have "ls_path ?fs ctx p ?wr c = Some ((None, Some ent), fold (\<lambda>d. tw_print (OEntry d)) ?es ?wr, c3)"
    using assms(1,2) d o l by (simp add: ls_path_def)
  then have "cmdls ?fs ctx [p] c = Some (clunk ?fs ctx ent (None, c3\<lparr>cm_out := cm_out c @ map OEntry ?es\<rparr>))"
    by (simp add: cmdls_def tw_print_entries out)
  then show ?thesis using clunk_connected [OF assms(3,5), of ctx "c3\<lparr>cm_out := cm_out c @ map OEntry ?es\<rparr>"] by auto
qed

end

section \<open>The directories of the file systems\<close>

text \<open>The directories of ramfs and of ufs give their entries at once, the first time they are asked.\<close>

fun once_pend :: "('w \<Rightarrow> (Dir list \<times> bool) list) \<Rightarrow> nat \<Rightarrow> Dir list \<times> bool \<times> 'w \<Rightarrow> Dir list" where
  "once_pend tab k (dirs, dn, w) = (if dn then [] else dirs @ (case tab w ! k of (ds, given) \<Rightarrow> if given then [] else ds))"

fun once_good :: "('w \<Rightarrow> (Dir list \<times> bool) list) \<Rightarrow> nat \<Rightarrow> Dir list \<times> bool \<times> 'w \<Rightarrow> bool" where
  "once_good tab k (dirs, dn, w) \<longleftrightarrow> k < length (tab w)"

lemma once_source:
  assumes "\<And>ctx w. nxt ctx w = (case tab w ! k of (ds, given) \<Rightarrow> if given then (Inr [], w) else (Inr ds, mark w))"
    and "\<And>w. k < length (tab w) \<Longrightarrow> tab (mark w) = (tab w)[k := (fst (tab w ! k), True)]"
  shows "dir_source (mkNext1 nxt) (once_pend tab k) (once_good tab k)"
proof (unfold_locales, goal_cases)
  case (1 w ctx)
  then show ?case by (cases w) (auto simp: mkNext1_def assms split: list.splits prod.splits)
next
  case (2 w ctx)
  then show ?case
    by (cases w; cases "tab (snd (snd w)) ! k") (auto simp: mkNext1_def assms split: list.splits if_splits)
next
  case (3 w d ds ctx)
  then show ?case
    by (cases w; cases "tab (snd (snd w)) ! k"; cases "fst w") (auto simp: mkNext1_def assms split: list.splits if_splits)
qed

interpretation ram_dir: served_dir "ramfs now" k "once_pend fsv_lists k" "once_good fsv_lists k" for now k
proof -
  let ?mark = "\<lambda>w. w\<lparr>fsv_lists := (fsv_lists w)[k := (fst (fsv_lists w ! k), True)]\<rparr>"
  have "dir_source (mkNext1 (rn_Next (ramfs now) k)) (once_pend fsv_lists k) (once_good fsv_lists k)"
    by (rule once_source [where mark = ?mark]) (simp_all add: ramfs_def dirList_Next_def split: prod.split)
  then show "served_dir (ramfs now) k (once_pend fsv_lists k) (once_good fsv_lists k)" by (rule served_dir.intro)
qed

interpretation host_dir: served_dir "ufs quote os root" k "once_pend uw_lists k" "once_good uw_lists k" for quote os root k
proof -
  let ?mark = "\<lambda>w. w\<lparr>uw_lists := (uw_lists w)[k := (fst (uw_lists w ! k), True)]\<rparr>"
  have "dir_source (mkNext1 (rn_Next (ufs quote os root) k)) (once_pend uw_lists k) (once_good uw_lists k)"
    by (rule once_source [where mark = ?mark]) (simp_all add: ufs_def Let_def ufs_Next_def split: prod.split)
  then show "served_dir (ufs quote os root) k (once_pend uw_lists k) (once_good uw_lists k)" by (rule served_dir.intro)
qed

section \<open>Properties\<close>

text \<open>
  C16: \<open>ls\<close> of a directory of a ramfs at the other end of a connection prints the parent of the directory as
  \<open>..\<close> and then its children, in the order in which the map of the children is gone through: all of them, when
  the description of each fits a message, with their times in whole seconds.  One that does not fit ends the listing without an error.  The listing
  passes through the client's file system and session, the handler, the session of the server and the \<open>Readdir\<close>.
\<close>

theorem ls_ramfs:
  assumes "toWalk p c = Inr (rel, steps, path)" and "walk_to (cfs sess) ctx rel steps c = (Inr (Some ent), c1)"
    and "sess = connected (ramfs now) order msize tag" and "cEnt_IsDir ent" and "ce_fs ent" and "s = cs_session (cm_world c1)"
    and "se_refs s (ce_fid ent) = Some ref" and "ce_fid ent \<noteq> NOFID" and "\<not> sf_locked ref" and "sf_Ent ref = Some fh" and "sf_File ref = None"
    and "fh_ent fh = Some a" and "heap = fsv_heap (se_world s)" and "FileEnt_IsDir (heap ! a)" and "q_Type (d_Qid (fe_Info (heap ! a))) AND QTDIR \<noteq> 0"
    and "dirs = withName ''..'' (fe_Info (heap ! (if fh_parents fh = [] then a else last (fh_parents fh)))) #
      map (\<lambda>(_, child). fe_Info (heap ! child)) (case fe_children (heap ! a) of Some cs \<Rightarrow> cs | None \<Rightarrow> [])"
    and "list_all sendable dirs" and "length (w_dirs dirs) < 2 ^ 63" and "11 \<le> msize" and "msize < 2 ^ 32"
  shows "\<exists>c'. cmdls (cfs sess) ctx [p] c = Some (None, c') \<and>
    cm_out c' = cm_out c @ map OEntry (map received (takeWhile (\<lambda>d. length (w_dir d) \<le> nat (msize - 11)) dirs))"
proof -
  let ?w = "se_world s" and ?k = "length (fsv_lists (se_world s))"
  let ?w' = "?w\<lparr>fsv_lists := fsv_lists ?w @ [(dirs, False)]\<rparr>"
  have o: "de_OpenDir (ramfs now) ctx fh ?w = ((Some ?k, None), ?w')"
    using assms(12-14,16) by (simp add: ramfs_def handle_OpenDir_def ent_OpenDir_def Let_def)
  have d: "IsDir (ramfs now) fh ?w" using assms(12,13,15) by (simp add: IsDir_def ramfs_def handle_Qid_def)
  have p: "once_pend fsv_lists ?k ([], False, ?w') = dirs" "once_good fsv_lists ?k ([], False, ?w')" by simp_all
  show ?thesis
    using ram_dir.cmdls_dir [OF assms(1-11) d o p(2), unfolded p(1), OF assms(17-20)] .
qed

text \<open>A client in the root directory of a ramfs with one file.\<close>

definition ls_server :: "(fServer, FileHandle, FileHandle) session" where
  "ls_server = \<lparr>se_refs = (\<lambda>_. None)(2 := Some \<lparr>sf_locked = False, sf_Ent = Some (fst (ram_Attach ''glenda'' ram_tree)),
       sf_File = None, sf_Mode = 0\<rparr>),
     se_world = ram_tree\<rparr>"

definition ls_client :: "((fServer, FileHandle, FileHandle) session fsState, cEnt) fsCommander" where
  "ls_client =
     (let ent = \<lparr>ce_fid = 2, ce_qid = \<lparr>q_Type = QTDIR, q_Version = 0, q_Path = 1\<rparr>, ce_fs = True\<rparr> in
      \<lparr>cm_pwd = ent, cm_root = ent\<lparr>ce_fid := 1\<rparr>, cm_path = ''/'', cm_out = [],
       cm_world = \<lparr>cs_session = ls_server, cs_nextfid = 2, cs_dirs = []\<rparr>\<rparr>)"

theorem ls_ramfs_witness:
  "\<exists>c'. cmdls (cfs (connected (ramfs (\<lambda>_. zero_time)) [] 100 1)) None [[]] ls_client = Some (None, c') \<and>
     cm_out c' = [OEntry (received (newDir (\<lambda>_. zero_time) 1 ''..'' ''root'' (DMDIR OR 0x1FD))), OEntry (received (fe_Info (ram_file 1 3)))]"
proof -
  let ?sess = "connected (ramfs (\<lambda>_. zero_time)) [] 100 1"
  let ?w = "walk_to (cfs ?sess) None (cm_pwd ls_client) [] ls_client"
  define ent where "ent = \<lparr>ce_fid = 3, ce_qid = \<lparr>q_Type = QTDIR, q_Version = 0, q_Path = 1\<rparr>, ce_fs = True\<rparr>"
  define heap where "heap = (fsv_heap ram_tree)[0 := (fsv_heap ram_tree ! 0)\<lparr>fe_nref := 3\<rparr>]"
  define fh where "fh = fst (ram_Attach ''glenda'' ram_tree)"
  have t: "toWalk [] ls_client = Inr (cm_pwd ls_client, [], ''/'')" by code_simp
  have "fst ?w = Inr (Some ent)" unfolding ent_def by code_simp
  then have w: "?w = (Inr (Some ent), snd ?w)" by (simp add: prod_eq_iff)
  have "map_option (\<lambda>r. (sf_locked r, sf_Ent r, Option.is_none (sf_File r))) (se_refs (cs_session (cm_world (snd ?w))) 3) =
      Some (False, Some fh, True)" unfolding fh_def by code_simp
  then obtain ref where r: "se_refs (cs_session (cm_world (snd ?w))) 3 = Some ref" "\<not> sf_locked ref" "sf_Ent ref = Some fh" "sf_File ref = None"
    by (auto simp: Option.is_none_def)
  have h: "heap = fsv_heap (se_world (cs_session (cm_world (snd ?w))))" unfolding heap_def by code_simp
  have e: "cEnt_IsDir ent" "ce_fs ent" "ce_fid ent = 3" "(3 :: Fid) \<noteq> NOFID" by (simp_all add: ent_def cEnt_IsDir_def NOFID_eq)
  have d: "fh_ent fh = Some 0" "fh_parents fh = []" "FileEnt_IsDir (heap ! 0)" "q_Type (d_Qid (fe_Info (heap ! 0))) AND QTDIR \<noteq> 0"
    by (simp_all add: fh_def heap_def ram_Attach_def ram_tree_def FileEnt_IsDir_def newDir_def)
  define dirs where "dirs = withName ''..'' (fe_Info (heap ! (if fh_parents fh = [] then 0 else last (fh_parents fh)))) #
      map (\<lambda>(_, child). fe_Info (heap ! child)) (case fe_children (heap ! 0) of Some cs \<Rightarrow> cs | None \<Rightarrow> [])"
  have dirs: "dirs = [newDir (\<lambda>_. zero_time) 1 ''..'' ''root'' (DMDIR OR 0x1FD), fe_Info (ram_file 1 3)]"
    by (simp add: dirs_def d(2) heap_def ram_tree_def withName_def newDir_def)
  have l: "list_all sendable dirs" "length (w_dirs dirs) < 2 ^ 63" "\<forall>d\<in>set dirs. length (w_dir d) \<le> nat (100 - 11)"
    by (simp_all add: dirs sendable_def length_w_dir_body ram_file_def newDir_def)
  then have "takeWhile (\<lambda>d. length (w_dir d) \<le> nat (100 - 11)) dirs = dirs" by (simp add: takeWhile_eq_all_conv)
  moreover have "cm_out ls_client = []" by (simp add: ls_client_def)
  ultimately show ?thesis
    using ls_ramfs [OF t w refl e(1,2) refl r(1) [folded e(3)] e(4) [folded e(3)] r(2-4) d(1) h d(3,4) dirs_def l(1,2)] by (simp add: dirs)
qed

end
