(* ===== verification/P9_Sleepfs.thy ===== *)
theory P9_Sleepfs
  imports P9_World P9_Strconv
begin

text \<open>
  The file system whose files take time to read and to write (\<^verbatim>\<open>sleepfs/\<close>).  An entry is a slice
  of numbers.  \<open>Walk\<close> appends to slices that may share their array with those of other entries, so
  that the arrays are in a store; a slice starts at the beginning of its array, since the code takes
  no others.  \<open>grow\<close> decides on the capacity that \<open>append\<close> gives to a new array, for the old capacity and
  the length that is needed and that it has at least; the sleeps are kept, in nanoseconds.
\<close>

section \<open>Slices\<close>

record sleepTime =
  sl_arr :: nat
  sl_len :: nat
  sl_cap :: nat

record sleepWorld =
  sw_arrays :: "int list list"
  sw_sleeps :: "int list"

text \<open>The elements of a slice; no slice is of an array that there is not.\<close>

definition elems :: "sleepWorld \<Rightarrow> sleepTime \<Rightarrow> int list" where
  "elems w s = take (sl_len s) (if sl_arr s < length (sw_arrays w) then sw_arrays w ! sl_arr s else [])"

text \<open>\<^verbatim>\<open>s[:n]\<close>, where \<open>n\<close> is at most the length.\<close>

definition prefix_slice :: "sleepTime \<Rightarrow> int \<Rightarrow> sleepTime option" where
  "prefix_slice s n = (if n < 0 then None else Some (s\<lparr>sl_len := nat n\<rparr>))"

text \<open>\<open>append\<close> writes to the array when it has room, and else to a new one.\<close>

definition append_slice :: "(nat \<Rightarrow> nat \<Rightarrow> nat) \<Rightarrow> sleepTime \<Rightarrow> int \<Rightarrow> sleepWorld \<Rightarrow> sleepTime \<times> sleepWorld" where
  "append_slice grow s x w =
     (if sl_len s < sl_cap s then
        (s\<lparr>sl_len := sl_len s + 1\<rparr>, w\<lparr>sw_arrays := (sw_arrays w)[sl_arr s := (sw_arrays w ! sl_arr s)[sl_len s := x]]\<rparr>)
      else
        (let cap = max (grow (sl_cap s) (sl_len s + 1)) (sl_len s + 1) in
         (\<lparr>sl_arr = length (sw_arrays w), sl_len = sl_len s + 1, sl_cap = cap\<rparr>,
          w\<lparr>sw_arrays := sw_arrays w @ [elems w s @ [x] @ replicate (cap - (sl_len s + 1)) 0]\<rparr>)))"

section \<open>Entries\<close>

definition st_IsDir :: "sleepTime \<Rightarrow> bool" where
  "st_IsDir s \<longleftrightarrow> sl_len s < 2"

definition path_Qid :: "int list \<Rightarrow> Qid" where
  "path_Qid s =
     (if length s < 2 then
        \<lparr>q_Type = QTDIR, q_Version = 0, q_Path = (if length s \<noteq> 0 then 2 + word_of_int (s ! 0) * 2 else 0)\<rparr>
      else
        \<lparr>q_Type = 0, q_Version = 0,
         q_Path = (if length s = 2 then (word_of_int (s ! 0) * 1000 + word_of_int (s ! 1)) * 2 + 1 else 0)\<rparr>)"

definition st_Qid :: "sleepTime \<Rightarrow> sleepWorld \<Rightarrow> Qid" where
  "st_Qid s w = path_Qid (elems w s)"

definition path_Info :: "int list \<Rightarrow> Dir" where
  "path_Info st =
     (let isDir = length st < 2 in
      zero_Dir\<lparr>d_Qid := path_Qid st, d_Name := (if 0 < length st then itoa (last st) else ''/''), d_Length := 0,
        d_MUID := ''sleeper'', d_Mode := (if isDir then DMDIR else 0)\<rparr>)"

definition duration :: "int list \<Rightarrow> int" where
  "duration s =
     (if 0 < length s then s ! 0 * 1000000000 else 0) + (if 1 < length s then s ! 1 * 1000000 else 0) +
     (if 2 < length s then s ! 2 * 1000 else 0)"

definition st_OpenDir :: "sleepTime \<Rightarrow> sleepWorld \<Rightarrow> (nat option \<times> error option) \<times> sleepWorld" where
  "st_OpenDir s w =
     (if 2 \<le> sl_len s then ((None, Some (Rerr ''not a directory'')), w)
      else ((Some (if sl_len s = 0 then 5 else 1000), None), w))"

text \<open>A directory is always read as empty.\<close>

definition sleep_Next :: "nat \<Rightarrow> sleepWorld \<Rightarrow> (error + Dir list) \<times> sleepWorld" where
  "sleep_Next d w = (Inr [], w)"

text \<open>
  The loops of \<open>Walk\<close>.  The first, over leading \<open>..\<close>, fills \<open>qids\<close> from \<open>i\<close> on and checks the length
  of \<open>s\<close>, which it does not change; the second appends to \<open>s\<close>.
\<close>

datatype up_result = UpNil "Qid list" | UpPanic | UpDone nat "string list" "Qid list"

fun walk_up :: "sleepWorld \<Rightarrow> sleepTime \<Rightarrow> nat \<Rightarrow> string list \<Rightarrow> Qid list \<Rightarrow> up_result" where
  "walk_up w s i [] qids = UpDone i [] qids"
| "walk_up w s i (name # names) qids =
     (if name = ''..'' then
        (if sl_len s = 0 then UpNil qids
         else
           (case prefix_slice s (int (sl_len s) - 1 - int i) of
              None \<Rightarrow> UpPanic
            | Some s' \<Rightarrow> walk_up w s (i + 1) names (qids[i := st_Qid s' w])))
      else UpDone i (name # names) qids)"

fun walk_down :: "(string \<Rightarrow> string) \<Rightarrow> (nat \<Rightarrow> nat \<Rightarrow> nat) \<Rightarrow> sleepTime \<Rightarrow> nat \<Rightarrow> string list \<Rightarrow> Qid list \<Rightarrow> sleepWorld \<Rightarrow>
    (Qid list \<times> sleepTime option \<times> error option) \<times> sleepWorld" where
  "walk_down quote grow s i [] qids w = ((qids, Some s, None), w)"
| "walk_down quote grow s i (name # names) qids w =
     (case strconv_Atoi quote name of
        Inl err \<Rightarrow> (([], None, Some err), w)
      | Inr n \<Rightarrow>
          if n < 0 \<or> 1000 \<le> n \<or> (sl_len s = 0 \<and> 5 \<le> n)
          then ((qids, None, if qids = [] then Some (Rerr ''no such file'') else None), w)
          else
            (case append_slice grow s n w of
               (s', w') \<Rightarrow> walk_down quote grow s' (i + 1) names (qids[i := st_Qid s' w']) w'))"

definition slice_bounds :: error where
  "slice_bounds = Panic ''slice bounds out of range''"

definition st_Walk :: "(string \<Rightarrow> string) \<Rightarrow> (nat \<Rightarrow> nat \<Rightarrow> nat) \<Rightarrow> sleepTime \<Rightarrow> string list \<Rightarrow> sleepWorld \<Rightarrow>
    (Qid list \<times> sleepTime option \<times> error option) \<times> sleepWorld" where
  "st_Walk quote grow s names w =
     (if names = [] then (([], Some s, None), w)
      else
        (case walk_up w s 0 names (replicate (length names) zero_Qid) of
           UpNil qids \<Rightarrow> ((qids, None, None), w)
         | UpPanic \<Rightarrow> (([], None, Some slice_bounds), w)
         | UpDone i rest qids \<Rightarrow>
             (case prefix_slice s (int (sl_len s) - int i) of
                None \<Rightarrow> (([], None, Some slice_bounds), w)
              | Some s' \<Rightarrow> walk_down quote grow s' i rest qids w)))"

definition sleep :: "int \<Rightarrow> sleepWorld \<Rightarrow> sleepWorld" where
  "sleep d w = w\<lparr>sw_sleeps := sw_sleeps w @ [d]\<rparr>"

definition st_Read :: "sleepTime \<Rightarrow> nat \<Rightarrow> int \<Rightarrow> sleepWorld \<Rightarrow> (byte list \<times> error option) \<times> sleepWorld" where
  "st_Read s n offset w = (([], None), sleep (duration (elems w s)) w)"

definition st_Write :: "sleepTime \<Rightarrow> byte list \<Rightarrow> int \<Rightarrow> sleepWorld \<Rightarrow> (int \<times> error option) \<times> sleepWorld" where
  "st_Write s p offset w = ((int (length p), None), sleep (duration (elems w s)) w)"

text \<open>The methods that refuse or have nothing to do.\<close>

definition st_Clunk :: "sleepTime \<Rightarrow> sleepWorld \<Rightarrow> error option \<times> sleepWorld" where
  "st_Clunk s w = (None, w)"

definition st_Remove :: "sleepTime \<Rightarrow> sleepWorld \<Rightarrow> error option \<times> sleepWorld" where
  "st_Remove s w = (Some ErrNoremove, w)"

definition st_Create :: "sleepTime \<Rightarrow> string \<Rightarrow> u32 \<Rightarrow> Flag \<Rightarrow> sleepWorld \<Rightarrow> (sleepTime option \<times> sleepTime option \<times> error option) \<times> sleepWorld" where
  "st_Create s name perm mode w = ((None, None, Some ErrNocreate), w)"

definition st_Stat :: "sleepTime \<Rightarrow> sleepWorld \<Rightarrow> (error + Dir) \<times> sleepWorld" where
  "st_Stat s w = (Inr (path_Info (elems w s)), w)"

definition st_WStat :: "sleepTime \<Rightarrow> Dir \<Rightarrow> sleepWorld \<Rightarrow> error option \<times> sleepWorld" where
  "st_WStat s dir w = (Some ErrNowstat, w)"

definition st_Open :: "sleepTime \<Rightarrow> Flag \<Rightarrow> sleepWorld \<Rightarrow> (sleepTime option \<times> error option) \<times> sleepWorld" where
  "st_Open s mode w = ((Some s, None), w)"

definition st_IOUnit :: "sleepTime \<Rightarrow> int" where
  "st_IOUnit s = 0"

definition sleep_Attach :: "sleepWorld \<Rightarrow> sleepTime \<times> sleepWorld" where
  "sleep_Attach w = (\<lparr>sl_arr = length (sw_arrays w), sl_len = 0, sl_cap = 0\<rparr>, w\<lparr>sw_arrays := sw_arrays w @ [[]]\<rparr>)"

definition sleepfs :: "(string \<Rightarrow> string) \<Rightarrow> (nat \<Rightarrow> nat \<Rightarrow> nat) \<Rightarrow> (sleepWorld, sleepTime, sleepTime, nat) FileSys" where
  "sleepfs quote grow =
     \<lparr>fs_RequireAuth = (\<lambda>ctx w. (False, w)), fs_Auth = (\<lambda>ctx uname aname w. ((None, None), w)),
      fs_Attach = (\<lambda>ctx uname aname af w. case sleep_Attach w of (s, w') \<Rightarrow> ((Some s, None), w')),
      de_Qid = st_Qid, de_OpenDir = (\<lambda>ctx. st_OpenDir), de_Walk = (\<lambda>ctx. st_Walk quote grow),
      de_Create = (\<lambda>ctx. st_Create), de_Open = (\<lambda>ctx. st_Open), de_Remove = (\<lambda>ctx. st_Remove),
      de_Clunk = (\<lambda>ctx. st_Clunk), de_Stat = (\<lambda>ctx. st_Stat), de_WStat = (\<lambda>ctx. st_WStat),
      fi_Read = (\<lambda>ctx. st_Read), fi_Write = (\<lambda>ctx. st_Write), fi_IOUnit = (\<lambda>f w. st_IOUnit f),
      fi_isAuthFile = (\<lambda>f. False), af_Success = (\<lambda>f w. False), rn_Next = (\<lambda>d ctx. sleep_Next d)\<rparr>"

definition sleep_start :: sleepWorld where
  "sleep_start = \<lparr>sw_arrays = [], sw_sleeps = []\<rparr>"

end
