(* ===== verification/P9_Sleepfs_Correct.thy ===== *)
theory P9_Sleepfs_Correct
  imports P9_Sleepfs
begin

text \<open>
  What holds of the entries of \<^verbatim>\<open>sleepfs\<close>: the numbers in the arrays stay in range, a walk
  reaches the entry that it names, and what it does to other entries.
\<close>

section \<open>The store\<close>

definition in_range :: "int list \<Rightarrow> bool" where
  "in_range a \<longleftrightarrow> (\<forall>i<length a. 0 \<le> a ! i \<and> a ! i < (if i = 0 then 5 else 1000))"

definition slice_ok :: "sleepWorld \<Rightarrow> sleepTime \<Rightarrow> bool" where
  "slice_ok w s \<longleftrightarrow> sl_arr s < length (sw_arrays w) \<and> length (sw_arrays w ! sl_arr s) = sl_cap s \<and> sl_len s \<le> sl_cap s"

definition sleep_ok :: "sleepWorld \<Rightarrow> bool" where
  "sleep_ok w \<longleftrightarrow> list_all in_range (sw_arrays w) \<and> list_all (\<lambda>d. 0 \<le> d \<and> d < 5000000000) (sw_sleeps w)"

lemma length_elems: "slice_ok w s \<Longrightarrow> length (elems w s) = sl_len s"
  by (simp add: slice_ok_def elems_def)

lemma in_range_take: "in_range a \<Longrightarrow> in_range (take n a)"
  by (simp add: in_range_def)

lemma in_range_update: "in_range a \<Longrightarrow> 0 \<le> x \<Longrightarrow> x < 1000 \<Longrightarrow> (i = 0 \<Longrightarrow> x < 5) \<Longrightarrow> in_range (a[i := x])"
  unfolding in_range_def
proof (intro allI impI)
  fix j assume a: "\<forall>i<length a. 0 \<le> a ! i \<and> a ! i < (if i = 0 then 5 else 1000)" "0 \<le> x" "x < 1000" "i = 0 \<Longrightarrow> x < 5"
    and j: "j < length (a[i := x])"
  show "0 \<le> a[i := x] ! j \<and> a[i := x] ! j < (if j = 0 then 5 else 1000)"
    using a j by (cases "j = i") simp_all
qed

lemma in_range_elems: "sleep_ok w \<Longrightarrow> in_range (elems w s)"
  by (auto simp: elems_def sleep_ok_def list_all_length in_range_take in_range_def)

lemma duration_bound: "in_range s \<Longrightarrow> 0 \<le> duration s \<and> duration s < 5000000000"
proof -
  assume r: "in_range s"
  have "0 < length s \<Longrightarrow> 0 \<le> s ! 0 \<and> s ! 0 < 5" "1 < length s \<Longrightarrow> 0 \<le> s ! 1 \<and> s ! 1 < 1000"
    "2 < length s \<Longrightarrow> 0 \<le> s ! 2 \<and> s ! 2 < 1000"
    using r by (fastforce simp: in_range_def)+
  then show ?thesis by (auto simp: duration_def)
qed

lemma append_room:
  assumes "slice_ok w s" and "sl_len s < sl_cap s"
  shows "append_slice grow s x w = (s\<lparr>sl_len := sl_len s + 1\<rparr>,
      w\<lparr>sw_arrays := (sw_arrays w)[sl_arr s := (sw_arrays w ! sl_arr s)[sl_len s := x]]\<rparr>)"
  using assms by (simp add: append_slice_def)

lemma append_ok:
  assumes "slice_ok w s" and "append_slice grow s x w = (s', w')"
  shows "slice_ok w' s'" and "sl_len s' = sl_len s + 1" and "elems w' s' = elems w s @ [x]"
    and "slice_ok w t \<Longrightarrow> slice_ok w' t" and "sw_sleeps w' = sw_sleeps w"
    and "\<lbrakk>sleep_ok w; 0 \<le> x; x < 1000; sl_len s = 0 \<Longrightarrow> x < 5\<rbrakk> \<Longrightarrow> sleep_ok w'"
proof -
  note l = length_elems [OF assms(1)]
  show "slice_ok w' s'" "sl_len s' = sl_len s + 1" "elems w' s' = elems w s @ [x]" "slice_ok w t \<Longrightarrow> slice_ok w' t"
    "sw_sleeps w' = sw_sleeps w"
    using assms l by (auto simp: append_slice_def Let_def slice_ok_def elems_def nth_append nth_list_update
        take_Suc_conv_app_nth split: if_splits)
  show "sleep_ok w'" if "sleep_ok w" "0 \<le> x" "x < 1000" "sl_len s = 0 \<Longrightarrow> x < 5"
  proof (cases "sl_len s < sl_cap s")
    case True
    then have "w' = w\<lparr>sw_arrays := (sw_arrays w)[sl_arr s := (sw_arrays w ! sl_arr s)[sl_len s := x]]\<rparr>"
      using append_room [OF assms(1)] assms(2) by simp
    moreover have "in_range ((sw_arrays w ! sl_arr s)[sl_len s := x])"
      using that assms(1) by (intro in_range_update) (auto simp: sleep_ok_def list_all_length slice_ok_def)
    ultimately show ?thesis using that(1)
      by (auto simp: sleep_ok_def list_all_iff dest: set_update_subset_insert [THEN subsetD])
  next
    case False
    let ?a = "elems w s @ [x] @ replicate (max (grow (sl_cap s) (sl_len s + 1)) (sl_len s + 1) - (sl_len s + 1)) 0"
    have "in_range ?a"
      using in_range_elems [OF that(1), of s] that(2-4) l by (auto simp: in_range_def nth_append nth_Cons split: nat.split)
    then show ?thesis using False assms(2) that(1) by (auto simp: append_slice_def Let_def sleep_ok_def)
  qed
qed

section \<open>Walking\<close>

text \<open>What every walk keeps.\<close>

lemma walk_down_keeps:
  assumes "sleep_ok w" and "slice_ok w s" and "walk_down quote grow s i names qids w = ((q, e, err), w')"
  shows "sleep_ok w'" and "slice_ok w t \<Longrightarrow> slice_ok w' t" and "e = Some s' \<Longrightarrow> slice_ok w' s'" and "sw_sleeps w' = sw_sleeps w"
proof -
  have "sleep_ok w' \<and> (\<forall>t. slice_ok w t \<longrightarrow> slice_ok w' t) \<and> (\<forall>s'. e = Some s' \<longrightarrow> slice_ok w' s') \<and> sw_sleeps w' = sw_sleeps w"
    using assms
  proof (induction quote grow s i names qids w rule: walk_down.induct)
    case (2 quote grow s i name names qids w)
    show ?case
    proof (cases "\<exists>n. strconv_Atoi quote name = Inr n \<and> \<not> (n < 0 \<or> 1000 \<le> n \<or> (sl_len s = 0 \<and> 5 \<le> n))")
      case True
      then obtain n where n: "strconv_Atoi quote name = Inr n" "\<not> (n < 0 \<or> 1000 \<le> n \<or> (sl_len s = 0 \<and> 5 \<le> n))" by blast
      obtain s1 w1 where a: "append_slice grow s n w = (s1, w1)" by fastforce
      note ok = append_ok [OF "2.prems"(2) a]
      have "sleep_ok w1" using ok(6) "2.prems"(1) n(2) by auto
      then show ?thesis
        using "2.IH" [OF n a [symmetric] _ ok(1)] "2.prems"(3) n a ok(4,5) by auto
    next
      case False
      then show ?thesis using 2 by (auto split: sum.splits if_splits)
    qed
  qed auto
  then show "sleep_ok w'" "slice_ok w t \<Longrightarrow> slice_ok w' t" "e = Some s' \<Longrightarrow> slice_ok w' s'" "sw_sleeps w' = sw_sleeps w" by auto
qed

lemma prefix_ok: "slice_ok w s \<Longrightarrow> prefix_slice s n = Some s' \<Longrightarrow> n \<le> int (sl_len s) \<Longrightarrow> slice_ok w s'"
  by (auto simp: prefix_slice_def slice_ok_def split: if_splits)

lemma Walk_keeps:
  assumes "sleep_ok w" and "slice_ok w s" and "st_Walk quote grow s names w = ((q, e, err), w')"
  shows "sleep_ok w'" and "slice_ok w t \<Longrightarrow> slice_ok w' t" and "e = Some s' \<Longrightarrow> slice_ok w' s'"
proof -
  have "sleep_ok w' \<and> (slice_ok w t \<longrightarrow> slice_ok w' t) \<and> (e = Some s' \<longrightarrow> slice_ok w' s')"
  proof (cases "\<exists>i rest qids s1. walk_up w s 0 names (replicate (length names) zero_Qid) = UpDone i rest qids \<and>
      prefix_slice s (int (sl_len s) - int i) = Some s1 \<and> names \<noteq> []")
    case True
    then obtain i rest qids s1 where u: "walk_up w s 0 names (replicate (length names) zero_Qid) = UpDone i rest qids"
      "prefix_slice s (int (sl_len s) - int i) = Some s1" "names \<noteq> []" by blast
    have d: "walk_down quote grow s1 i rest qids w = ((q, e, err), w')" using assms(3) u by (simp add: st_Walk_def)
    from walk_down_keeps [OF assms(1) prefix_ok [OF assms(2) u(2)] d] show ?thesis by auto
  next
    case False
    then show ?thesis using assms by (auto simp: st_Walk_def split: if_splits up_result.splits option.splits)
  qed
  then show "sleep_ok w'" "slice_ok w t \<Longrightarrow> slice_ok w' t" "e = Some s' \<Longrightarrow> slice_ok w' s'" by auto
qed

definition sleep_own :: "sleepWorld \<Rightarrow> sleepTime multiset \<Rightarrow> bool" where
  "sleep_own w E \<longleftrightarrow> sleep_ok w \<and> (\<forall>s\<in>#E. slice_ok w s)"

lemma sleep_own_sleep: "sleep_own w E \<Longrightarrow> sleep_own (sleep (duration (elems w s)) w) E"
  using duration_bound [OF in_range_elems, of w s] by (simp add: sleep_own_def sleep_ok_def sleep_def slice_ok_def)

lemma sleep_own_upd:
  "sleep_own w E \<Longrightarrow> sleep_own (snd (sleep_Attach w)) (add_mset (fst (sleep_Attach w)) E)"
  "sleep_own w (add_mset e E) \<Longrightarrow> sleep_own w E"
proof -
  show "sleep_own w (add_mset e E) \<Longrightarrow> sleep_own w E" by (simp add: sleep_own_def)
  assume o: "sleep_own w E"
  have "slice_ok (snd (sleep_Attach w)) t" if "slice_ok w t" for t
    using that by (simp add: slice_ok_def sleep_Attach_def nth_append)
  moreover have "sleep_ok (snd (sleep_Attach w))" "slice_ok (snd (sleep_Attach w)) (fst (sleep_Attach w))"
    using o by (simp_all add: sleep_own_def sleep_ok_def sleep_Attach_def in_range_def slice_ok_def)
  ultimately show "sleep_own (snd (sleep_Attach w)) (add_mset (fst (sleep_Attach w)) E)" using o by (simp add: sleep_own_def)
qed

interpretation sleeper: entry_owner "sleepfs quote grow" sleep_own "\<lambda>s w. True" for quote grow
proof (unfold_locales, goal_cases)
  case (3 w E ctx uname aname af oe err w')
  then show ?case using sleep_own_upd(1) [OF 3(1)] by (auto simp: sleepfs_def split: prod.splits)
next
  case (4 w e E ctx names qids oe err w')
  then show ?case using Walk_keeps [of w e quote grow names qids oe err w'] by (simp add: sleep_own_def sleepfs_def)
qed (simp_all add: sleepfs_def sleep_own_sleep st_Read_def st_Write_def st_OpenDir_def sleep_Next_def sleep_own_upd(2)
    st_Clunk_def st_Remove_def st_Create_def st_Stat_def st_WStat_def st_Open_def)

text \<open>Where a walk along \<open>..\<close> and numbers leads, and the qids on the way.\<close>

lemma elems_prefix: "m \<le> sl_len s \<Longrightarrow> elems w (s\<lparr>sl_len := m\<rparr>) = take m (elems w s)"
  by (simp add: elems_def min_def)

lemma walk_up_ok:
  assumes "i + k \<le> sl_len s" and "i + k \<le> length qids" and "rest = [] \<or> hd rest \<noteq> ''..''"
  shows "walk_up w s i (replicate k ''..'' @ rest) qids =
    UpDone (i + k) rest (take i qids @ map (\<lambda>j. path_Qid (take (sl_len s - 1 - j) (elems w s))) [i..<i + k] @ drop (i + k) qids)"
  using assms
proof (induction k arbitrary: i qids)
  case 0
  then show ?case by (cases rest) auto
next
  case (Suc k)
  let ?q = "path_Qid (take (sl_len s - 1 - i) (elems w s))"
  have p: "prefix_slice s (int (sl_len s) - 1 - int i) = Some (s\<lparr>sl_len := sl_len s - 1 - i\<rparr>)"
    using Suc.prems(1) by (simp add: prefix_slice_def nat_diff_distrib)
  have q: "st_Qid (s\<lparr>sl_len := sl_len s - 1 - i\<rparr>) w = ?q" using elems_prefix [of "sl_len s - 1 - i" s w] by (simp add: st_Qid_def)
  have "walk_up w s i (replicate (Suc k) ''..'' @ rest) qids = walk_up w s (i + 1) (replicate k ''..'' @ rest) (qids[i := ?q])"
    using Suc.prems(1) p q by simp
  also have "\<dots> = UpDone (i + 1 + k) rest (take (i + 1) (qids[i := ?q]) @
      map (\<lambda>j. path_Qid (take (sl_len s - 1 - j) (elems w s))) [i + 1..<i + 1 + k] @ drop (i + 1 + k) (qids[i := ?q]))"
    using Suc.IH [of "i + 1" "qids[i := ?q]"] Suc.prems by simp
  finally show ?case using Suc.prems(2) by (simp add: upt_conv_Cons take_Suc_conv_app_nth del: upt_Suc walk_up.simps)
qed

lemma walk_down_ok:
  assumes "slice_ok w s" and "in_range (elems w s @ ns)" and "i + length ns = length qids"
  shows "\<exists>s' w'. walk_down quote grow s i (map itoa ns) qids w =
      ((take i qids @ map (\<lambda>j. path_Qid (elems w s @ take (j + 1) ns)) [0..<length ns], Some s', None), w') \<and>
    slice_ok w' s' \<and> elems w' s' = elems w s @ ns"
  using assms
proof (induction ns arbitrary: s i qids w)
  case Nil
  then show ?case by simp
next
  case (Cons n ns)
  have "(elems w s @ n # ns) ! sl_len s = n" using length_elems [OF Cons.prems(1)] by (metis nth_append_length)
  then have n: "0 \<le> n" "n < 1000" "sl_len s = 0 \<Longrightarrow> n < 5"
    using Cons.prems(2) length_elems [OF Cons.prems(1)] unfolding in_range_def
    by (auto split: if_splits dest!: spec [of _ "sl_len s"])
  obtain s1 w1 where a: "append_slice grow s n w = (s1, w1)" by fastforce
  note ok = append_ok [OF Cons.prems(1) a]
  have r: "in_range (elems w1 s1 @ ns)" using Cons.prems(2) ok(3) by simp
  have len: "i + 1 + length ns = length (qids[i := st_Qid s1 w1])" using Cons.prems(3) by simp
  have st: "walk_down quote grow s i (map itoa (n # ns)) qids w = walk_down quote grow s1 (i + 1) (map itoa ns) (qids[i := st_Qid s1 w1]) w1"
    using n a Atoi_itoa [of n quote] by auto
  have up: "map (\<lambda>j. path_Qid (elems w s @ take (j + 1) (n # ns))) [0..<length (n # ns)] =
      path_Qid (elems w s @ [n]) # map (\<lambda>j. path_Qid (elems w1 s1 @ take (j + 1) ns)) [0..<length ns]"
    by (simp add: upt_conv_Cons map_Suc_upt [symmetric] ok(3) del: upt_Suc)
  have q: "take (i + 1) (qids[i := st_Qid s1 w1]) = take i qids @ [path_Qid (elems w s @ [n])]"
    using Cons.prems(3) by (simp add: take_Suc_conv_app_nth st_Qid_def ok(3))
  obtain s' w' where "walk_down quote grow s1 (i + 1) (map itoa ns) (qids[i := st_Qid s1 w1]) w1 =
      ((take (i + 1) (qids[i := st_Qid s1 w1]) @ map (\<lambda>j. path_Qid (elems w1 s1 @ take (j + 1) ns)) [0..<length ns], Some s', None), w')"
    "slice_ok w' s'" "elems w' s' = elems w1 s1 @ ns"
    using Cons.IH [OF ok(1) r len] by blast
  then show ?case unfolding st up q by (simp add: ok(3))
qed

lemma Walk_down:
  assumes "slice_ok w s" and "k \<le> sl_len s" and "in_range (take (sl_len s - k) (elems w s) @ ns)"
    and "replicate k ''..'' @ map itoa ns \<noteq> []"
  obtains s1 where "s1 = s\<lparr>sl_len := sl_len s - k\<rparr>" "slice_ok w s1" "elems w s1 = take (sl_len s - k) (elems w s)"
    "st_Walk quote grow s (replicate k ''..'' @ map itoa ns) w = walk_down quote grow s1 k (map itoa ns)
       (map (\<lambda>j. path_Qid (take (sl_len s - 1 - j) (elems w s))) [0..<k] @ replicate (length ns) zero_Qid) w"
proof -
  let ?s1 = "s\<lparr>sl_len := sl_len s - k\<rparr>"
  have p: "prefix_slice s (int (sl_len s) - int k) = Some ?s1" using assms(2) by (simp add: prefix_slice_def nat_diff_distrib)
  have e: "elems w ?s1 = take (sl_len s - k) (elems w s)" by (rule elems_prefix) simp
  have ok: "slice_ok w ?s1" using assms(1) by (auto simp: slice_ok_def)
  have "ns = [] \<or> 0 \<le> hd ns"
  proof (cases ns)
    case (Cons n ms)
    then have "(take (sl_len s - k) (elems w s) @ ns) ! (sl_len s - k) = n"
      using length_elems [OF assms(1)] by (simp add: nth_append)
    then show ?thesis using assms(3) Cons length_elems [OF assms(1)] by (auto simp: in_range_def dest!: spec [of _ "sl_len s - k"])
  qed simp
  then have "map itoa ns = [] \<or> hd (map itoa ns) \<noteq> ''..''" using itoa_no_dots by (cases ns) auto
  then have "walk_up w s 0 (replicate k ''..'' @ map itoa ns) (replicate (length (replicate k ''..'' @ map itoa ns)) zero_Qid) =
      UpDone k (map itoa ns) (map (\<lambda>j. path_Qid (take (sl_len s - 1 - j) (elems w s))) [0..<k] @ replicate (length ns) zero_Qid)"
    using walk_up_ok [of 0 k s "replicate (length (replicate k ''..'' @ map itoa ns)) zero_Qid" "map itoa ns" w] assms(2) by simp
  then show thesis using assms(4) p by (intro that [OF refl ok e]) (simp add: st_Walk_def)
qed

section \<open>Properties\<close>

text \<open>
  C24: a walk along \<open>k\<close> elements \<open>..\<close>, at most the depth of the entry, and numbers that are in range
  reaches the entry of that path, and returns the qid of every entry on the way.
\<close>

theorem sleep_walk_reaches:
  assumes "slice_ok w s" and "k \<le> sl_len s" and "base = take (sl_len s - k) (elems w s)" and "in_range (base @ ns)"
    and "replicate k ''..'' @ map itoa ns \<noteq> []"
  shows "\<exists>s' w'. st_Walk quote grow s (replicate k ''..'' @ map itoa ns) w =
      ((map (\<lambda>j. path_Qid (take (sl_len s - 1 - j) (elems w s))) [0..<k] @
        map (\<lambda>j. path_Qid (base @ take (j + 1) ns)) [0..<length ns], Some s', None), w') \<and>
    elems w' s' = base @ ns"
proof -
  obtain s1 where s1: "slice_ok w s1" "elems w s1 = base"
    "st_Walk quote grow s (replicate k ''..'' @ map itoa ns) w = walk_down quote grow s1 k (map itoa ns)
       (map (\<lambda>j. path_Qid (take (sl_len s - 1 - j) (elems w s))) [0..<k] @ replicate (length ns) zero_Qid) w"
    using Walk_down [OF assms(1,2) assms(4) [unfolded assms(3)] assms(5)] assms(3) by metis
  from walk_down_ok [OF s1(1), of ns k "map (\<lambda>j. path_Qid (take (sl_len s - 1 - j) (elems w s))) [0..<k] @ replicate (length ns) zero_Qid" quote grow]
  show ?thesis using s1(2,3) assms(4) by auto
qed

definition sample_store :: sleepWorld where
  "sample_store = \<lparr>sw_arrays = [[3, 7]], sw_sleeps = []\<rparr>"

definition sample_slice :: sleepTime where
  "sample_slice = \<lparr>sl_arr = 0, sl_len = 1, sl_cap = 2\<rparr>"

theorem sleep_walk_reaches_witness:
  "\<exists>s' w'. st_Walk (\<lambda>s. s) max sample_slice [''..'', ''4'', ''20''] sample_store =
      (([path_Qid [], path_Qid [4], path_Qid [4, 20]], Some s', None), w') \<and> elems w' s' = [4, 20]"
proof -
  have i: "[''..'', ''4'', ''20''] = replicate 1 ''..'' @ map itoa [4, 20]" by code_simp
  have ok: "slice_ok sample_store sample_slice" "in_range ([] @ [4, 20])"
    by (simp_all add: slice_ok_def sample_store_def sample_slice_def in_range_def nth_Cons split: nat.split)
  from sleep_walk_reaches [OF ok(1) _ _ ok(2), of 1 "\<lambda>s. s" max] show ?thesis
    unfolding i by (simp add: sample_slice_def)
qed

text \<open>
  C38: a walk \<open>..\<close> and one number overwrites the entry that it starts from, which shares its array with
  the new one: the old fid then stands for another directory or file.
\<close>

theorem sleep_walk_overwrites:
  assumes "slice_ok w s" and "0 < k" and "k \<le> sl_len s" and "in_range (take (sl_len s - k) (elems w s) @ [n])"
    and "st_Walk quote grow s (replicate k ''..'' @ [itoa n]) w = (r, w')"
  shows "elems w' s = (elems w s)[sl_len s - k := n]"
proof -
  obtain s1 where s1: "s1 = s\<lparr>sl_len := sl_len s - k\<rparr>" "slice_ok w s1"
    "st_Walk quote grow s (replicate k ''..'' @ map itoa [n]) w = walk_down quote grow s1 k (map itoa [n])
       (map (\<lambda>j. path_Qid (take (sl_len s - 1 - j) (elems w s))) [0..<k] @ replicate (length [n]) zero_Qid) w"
    using Walk_down [OF assms(1,3,4)] by (metis append_is_Nil_conv list.map_disc_iff not_Cons_self2)
  have "(take (sl_len s - k) (elems w s) @ [n]) ! (sl_len s - k) = n"
    using length_elems [OF assms(1)] by (simp add: nth_append)
  then have n: "0 \<le> n" "n < 1000" "sl_len s1 = 0 \<Longrightarrow> n < 5"
    using assms(4) length_elems [OF assms(1)] s1(1) by (auto simp: in_range_def dest!: spec [of _ "sl_len s - k"] split: if_splits)
  have room: "sl_len s1 < sl_cap s1" using assms(1-3) s1(1) by (auto simp: slice_ok_def)
  have "w' = w\<lparr>sw_arrays := (sw_arrays w)[sl_arr s := (sw_arrays w ! sl_arr s)[sl_len s - k := n]]\<rparr>"
    using assms(5) s1(1,3) n append_room [OF s1(2) room, of grow n] Atoi_itoa [of n quote] by (auto split: if_splits)
  then show ?thesis using assms(1-3) by (simp add: elems_def slice_ok_def take_update_swap)
qed

theorem sleep_walk_overwrites_witness:
  "elems sample_store sample_slice = [3] \<and>
   elems (snd (st_Walk (\<lambda>s. s) max sample_slice [''..'', ''4''] sample_store)) sample_slice = [4]"
proof -
  have e: "elems sample_store sample_slice = [3]" by code_simp
  obtain r w' where w: "st_Walk (\<lambda>s. s) max sample_slice [''..'', ''4''] sample_store = (r, w')" by fastforce
  have i: "[''..'', ''4''] = replicate 1 ''..'' @ [itoa 4]" by code_simp
  have ok: "slice_ok sample_store sample_slice" "sl_len sample_slice = 1"
    by (simp_all add: slice_ok_def sample_store_def sample_slice_def)
  from sleep_walk_overwrites [OF ok(1) zero_less_one _ _ w [unfolded i]] show ?thesis
    using e w ok(2) by (simp add: in_range_def)
qed

text \<open>
  A walk of more \<open>..\<close> than the depth of a directory below the root panics, which ends the server;
  only at the root itself is it refused.
\<close>

theorem sleep_dotdot_panics:
  assumes "quiet s" and "se_refs s fid = Some ref" and "sf_Ent ref = Some e" and "sl_len e = 1" and "2 \<le> k"
    and "slice_ok (se_world s) e" and "fid \<noteq> NOFID" and "newfid \<notin> fids s" and "newfid \<noteq> NOFID" and "list_all good_name rest"
  shows "fst (Handle (sfs (sleepfs quote grow) order msize) ctx (MessageTwalk fid newfid (replicate k ''..'' @ rest)) s) = Inl slice_bounds"
proof -
  obtain k' where k: "k = Suc (Suc k')" using assms(5) by (metis Suc_le_D numeral_2_eq_2 Suc_le_mono)
  let ?names = "replicate k ''..'' @ rest" and ?ref = "ref\<lparr>sf_locked := True\<rparr>"
  let ?new = "\<lparr>sf_locked = True, sf_Ent = None, sf_File = None, sf_Mode = 0\<rparr>"
  have v: "\<not> ValidPath ?names < 0" using ValidPath_iff [of ?names k] assms(10) by auto
  have u: "\<not> sf_locked ref" using assms(1,2) by (auto simp: quiet_def)
  have g: "getRef fid s = (Inr ?ref, set_ref fid ?ref s)" by (rule getRef_free [OF assms(7,2) u]) (simp add: assms(3))
  have ne: "newfid \<noteq> fid" using assms(2,8) by (auto simp: fids_def)
  then have n: "newRef newfid (set_ref fid ?ref s) = (Inr ?new, set_ref newfid ?new (set_ref fid ?ref s))"
    using assms(8,9) by (auto simp: newRef_def set_ref_def fids_def Let_def split: option.splits)
  have d: "IsDir (sleepfs quote grow) e w" if "w = se_world s" for w
    using length_elems [OF assms(6)] assms(4) that by (simp add: IsDir_def sleepfs_def st_Qid_def path_Qid_def)
  have p: "de_Walk (sleepfs quote grow) ctx e ?names (se_world s) = (([], None, Some slice_bounds), se_world s)"
    using assms(4) by (simp add: sleepfs_def st_Walk_def k prefix_slice_def)
  have "names \<noteq> [] \<Longrightarrow> sess_Walk (sleepfs quote grow) ctx fid newfid names s = (Inl slice_bounds, walk_cleanup fid newfid
      ((set_ref newfid ?new (set_ref fid ?ref s))\<lparr>se_world := se_world s\<rparr>))" if "names = ?names" for names
    using v g n ne d [OF refl] p assms(3) that by (simp add: sess_Walk_def Let_def set_ref_def del: replicate.simps)
  then show ?thesis using k by (simp add: to_msg_def)
qed

definition sample_sleepers :: "(sleepWorld, sleepTime, sleepTime) session" where
  "sample_sleepers = \<lparr>se_refs = (\<lambda>_. None)
     (1 := Some \<lparr>sf_locked = False, sf_Ent = Some sample_slice, sf_File = None, sf_Mode = 0\<rparr>), se_world = sample_store\<rparr>"

theorem sleep_dotdot_panics_witness:
  "fst (Handle (sfs (sleepfs (\<lambda>s. s) max) [] 100) None (MessageTwalk 1 2 [''..'', ''..'', ''x'']) sample_sleepers) = Inl slice_bounds"
proof -
  have "quiet sample_sleepers" "2 \<notin> fids sample_sleepers" "slice_ok (se_world sample_sleepers) sample_slice" "sl_len sample_slice = 1"
    by (auto simp: sample_sleepers_def quiet_def fids_def NOFID_eq slice_ok_def sample_store_def sample_slice_def)
  moreover have "(1 :: Fid) \<noteq> NOFID" "(2 :: Fid) \<noteq> NOFID" by code_simp+
  moreover have "se_refs sample_sleepers 1 = Some \<lparr>sf_locked = False, sf_Ent = Some sample_slice, sf_File = None, sf_Mode = 0\<rparr>"
    by (simp add: sample_sleepers_def)
  moreover have "list_all good_name [''x'']" by (simp add: good_name_def)
  ultimately have "fst (Handle (sfs (sleepfs (\<lambda>s. s) max) [] 100) None (MessageTwalk 1 2 (replicate 2 ''..'' @ [''x''])) sample_sleepers) =
      Inl slice_bounds"
    by (intro sleep_dotdot_panics [of sample_sleepers 1 "\<lparr>sf_locked = False, sf_Ent = Some sample_slice, sf_File = None, sf_Mode = 0\<rparr>"
          sample_slice]) simp_all
  moreover have "replicate 2 ''..'' @ [''x''] = [''..'', ''..'', ''x'']" by code_simp
  ultimately show ?thesis by metis
qed

text \<open>
  Directories and files up to depth two have the same qid only when they are the same.
\<close>

theorem sleep_qids_unique:
  assumes "in_range s" and "in_range t" and "length s \<le> 2" and "length t \<le> 2"
  shows "path_Qid s = path_Qid t \<longleftrightarrow> s = t"
proof -
  define code where "code u = (if length u = 0 then 0 else if length u = 1 then 2 + u ! 0 * 2 else (u ! 0 * 1000 + u ! 1) * 2 + 1)"
    for u :: "int list"
  have small: "q_Path (path_Qid u) = word_of_int (code u)" "0 \<le> code u" "code u < 2 ^ 64"
    and el: "length u \<ge> 1 \<Longrightarrow> 0 \<le> u ! 0" "length u = 2 \<Longrightarrow> 0 \<le> u ! 1 \<and> u ! 1 < 1000"
    if "in_range u" "length u \<le> 2" for u
  proof -
    have i: "0 \<le> u ! i \<and> u ! i < (if i = 0 then 5 else 1000)" if "i < length u" for i
      using \<open>in_range u\<close> that by (simp add: in_range_def)
    have r: "length u \<ge> 1 \<Longrightarrow> 0 \<le> u ! 0 \<and> u ! 0 < 5" "length u = 2 \<Longrightarrow> 0 \<le> u ! 1 \<and> u ! 1 < 1000"
      using i [of 0] i [of 1] by (cases u; simp)+
    then show "length u \<ge> 1 \<Longrightarrow> 0 \<le> u ! 0" "length u = 2 \<Longrightarrow> 0 \<le> u ! 1 \<and> u ! 1 < 1000" by auto
    have c: "length u = 0 \<or> length u = 1 \<or> length u = 2" using that(2) by linarith
    show "q_Path (path_Qid u) = word_of_int (code u)" using c by (auto simp: path_Qid_def code_def)
    show "0 \<le> code u" "code u < 2 ^ 64" using r c by (auto simp: code_def)
  qed
  have "s = t" if "path_Qid s = path_Qid t"
  proof -
    have "word_of_int (code s) = (word_of_int (code t) :: u64)" using that small(1) [OF assms(1,3)] small(1) [OF assms(2,4)] by simp
    then have c: "code s = code t"
      using small(2,3) [OF assms(1,3)] small(2,3) [OF assms(2,4)] by (simp add: word_of_int_eq_iff take_bit_int_eq_self)
    have q: "length s < 2 \<longleftrightarrow> length t < 2" using arg_cong [OF that, of q_Type] by (auto simp: path_Qid_def split: if_splits)
    note es = el [OF assms(1,3)] and et = el [OF assms(2,4)]
    have ls: "length s = 0 \<or> length s = 1 \<or> length s = 2" and lt: "length t = 0 \<or> length t = 1 \<or> length t = 2"
      using assms(3,4) by linarith+
    have len: "length s = length t"
      using ls lt
    proof (elim disjE)
      assume "length s = 0" "length t = 1"
      then show ?thesis using c et(1) by (simp add: code_def)
    next
      assume "length s = 1" "length t = 0"
      then show ?thesis using c es(1) by (simp add: code_def)
    qed (use q in simp_all)
    have e1: "s ! 0 = t ! 0" if "length s = 1" using c that len by (auto simp: code_def split: if_splits)
    have e2: "s ! 0 = t ! 0 \<and> s ! 1 = t ! 1" if "length s = 2"
    proof -
      have "s ! 0 * 1000 + s ! 1 = t ! 0 * 1000 + t ! 1" using c that len by (auto simp: code_def split: if_splits)
      moreover have "(a * 1000 + b) div 1000 = a" if "0 \<le> b" "b < 1000" for a b :: int using that by simp
      ultimately have "s ! 0 = t ! 0" using es(2) et(2) that len by metis
      with \<open>s ! 0 * 1000 + s ! 1 = t ! 0 * 1000 + t ! 1\<close> show ?thesis by simp
    qed
    have "s ! i = t ! i" if "i < length s" for i
    proof -
      have "length s = 1 \<and> i = 0 \<or> length s = 2 \<and> (i = 0 \<or> i = 1)" using ls that by linarith
      with e1 e2 show ?thesis by metis
    qed
    with len show ?thesis by (intro nth_equalityI) simp_all
  qed
  then show ?thesis by blast
qed

theorem sleep_qids_unique_witness:
  "path_Qid [4, 999] \<noteq> path_Qid [4, 998] \<and> path_Qid [2] \<noteq> path_Qid []"
  using sleep_qids_unique [of "[4, 999]" "[4, 998]"] sleep_qids_unique [of "[2]" "[]"]
  by (simp add: in_range_def nth_Cons split: nat.split)

text \<open>
  C23: no read or write of a served \<^verbatim>\<open>sleepfs\<close> sleeps for five seconds or more, whatever the
  clients ask for.
\<close>

theorem sleeps_bounded:
  assumes "served (sleepfs quote grow) (\<lambda>s w. True) sleep_start s" and "d \<in> set (sw_sleeps (se_world s))"
  shows "0 \<le> d \<and> d < 5000000000"
proof -
  have "sleep_own sleep_start {#}" by (simp add: sleep_own_def sleep_ok_def sleep_start_def)
  then have "sleep_own (se_world s) (ents s)" using sleeper.served_own [OF assms(1)] by simp
  then show ?thesis using assms(2) by (auto simp: sleep_own_def sleep_ok_def list_all_iff)
qed

theorem sleeps_bounded_witness:
  "sw_sleeps (se_world (snd (handle_all (sfs (sleepfs (\<lambda>s. s) max) [] 100)
     [(None, MessageTattach 1 NOFID ''u'' ''/''), (None, MessageTwalk 1 2 [''4'', ''999'']), (None, MessageTopen 2 OREAD),
      (None, MessageTread 2 0 10)] (new_session sleep_start)))) = [4999000000] \<and> (4999000000 :: int) < 5000000000"
proof -
  let ?sess = "sfs (sleepfs (\<lambda>s. s) max) [] 100"
  let ?msgs = "[(None, MessageTattach 1 NOFID ''u'' ''/''), (None, MessageTwalk 1 2 [''4'', ''999'']), (None, MessageTopen 2 OREAD),
      (None, MessageTread 2 0 10)] :: (Context \<times> Message) list"
  have t: "sw_sleeps (se_world (snd (handle_all ?sess ?msgs (new_session sleep_start)))) = [4999000000]" by code_simp
  have r: "list_all (\<lambda>r. \<not> stalled r) (fst (handle_all ?sess ?msgs (new_session sleep_start)))" by code_simp
  have a: "all_allowed (\<lambda>s w. True) ?sess ?msgs (new_session sleep_start)" by code_simp
  obtain rs s' where h: "handle_all ?sess ?msgs (new_session sleep_start) = (rs, s')" by fastforce
  have "served (sleepfs (\<lambda>s. s) max) (\<lambda>s w. True) sleep_start s'"
    by (rule served_handle_all [OF served.start h a]) (use r h in simp)
  from sleeps_bounded [OF this, of 4999000000] t h show ?thesis by simp
qed

end
