(* ===== verification/Spec2Isabelle.thy ===== *)
theory Spec2Isabelle
  imports P9_Listing P9_Sleepfs_Correct
begin

text \<open>
  A verification library for the 9P2000 client and server in \<^verbatim>\<open>src/\<close>.

  \<^bold>\<open>The program.\<close>  A message is marshalled by the codec (\<^verbatim>\<open>encoding.go\<close>) and framed by a channel
  (\<^verbatim>\<open>channel.go\<close>), whose two ends first negotiate the version and the size limit (\<^verbatim>\<open>version.go\<close>).
  On a server, \<^verbatim>\<open>serveconn.go\<close> runs one goroutine for each request; the handler (\<^verbatim>\<open>ssesssion.go\<close>)
  turns the message into a call of a session (\<^verbatim>\<open>session.go\<close>), and the session of \<^verbatim>\<open>sfilesys.go\<close> serves a
  file system (the interfaces of \<^verbatim>\<open>filesys.go\<close>), which is \<^verbatim>\<open>ramfs/\<close>, \<^verbatim>\<open>ufs/\<close> or \<^verbatim>\<open>sleepfs/\<close>, with directories
  read through \<^verbatim>\<open>readdir.go\<close> and paths checked by \<^verbatim>\<open>path.go\<close>.  On a client, \<^verbatim>\<open>transport.go\<close> gives tags to requests
  and matches the responses, \<^verbatim>\<open>csession.go\<close> turns calls into messages, \<^verbatim>\<open>cfilesys.go\<close> makes a file system of a session
  again, and \<^verbatim>\<open>cmd/9pr\<close> runs commands on that.

  \<^bold>\<open>Conventions.\<close>  Fixed-width integers are words; Go's \<open>int\<close> is \<open>int\<close>, or \<open>nat\<close> where it cannot be
  negative; a string is the list of its bytes.  An error is a value of \<open>error\<close>, which also has a constructor for
  run-time panics; a fallible function returns a sum or an option.  State is passed explicitly: a component is a
  function on a record, an interface of the source is a record of functions on a world, and a pointer is an index into a store
  where aliasing matters.  A \<open>Context\<close> is the error it has been cancelled with, if any.

  \<^bold>\<open>Theories and the code they model.\<close>
  \<^item> \<^verbatim>\<open>P9_Prelude\<close>: words and their little-endian bytes, strings, \<^verbatim>\<open>io.ReadFull\<close>, and the collections \<open>client_ops\<close> and
    \<open>ref_ops\<close> of definitions to unfold.
  \<^item> \<^verbatim>\<open>P9_Types\<close>: \<^verbatim>\<open>types.go\<close>, \<^verbatim>\<open>fcall.go\<close>, \<^verbatim>\<open>messages.go\<close>, \<^verbatim>\<open>errors.go\<close>, \<^verbatim>\<open>overflow.go\<close>.
  \<^item> \<^verbatim>\<open>P9_Wire\<close>: the wire format as a specification.  \<^verbatim>\<open>P9_Codec\<close>: \<^verbatim>\<open>encoding.go\<close>, by the switches on the types of values.
    \<^verbatim>\<open>P9_Codec_Correct\<close>: encoding writes the specified bytes and predicts their number; decoding reads
    them back, accepts only canonical bytes and fails without a panic.
  \<^item> \<^verbatim>\<open>P9_Channel\<close>: \<^verbatim>\<open>channel.go\<close>.  What is written is what the other end reads, within the limit; truncation keeps what
    fits; an oversized frame is skipped as a whole.  \<^verbatim>\<open>P9_Version\<close>: \<^verbatim>\<open>version.go\<close>, and what two ends agree on.
  \<^item> \<^verbatim>\<open>P9_Path\<close>: \<^verbatim>\<open>path.go\<close>, over models of the functions of Go's \<^verbatim>\<open>strings\<close> and \<^verbatim>\<open>path\<close> that it uses, and where walks lead.
    \<^verbatim>\<open>P9_Readdir\<close>: \<^verbatim>\<open>readdir.go\<close>; a reader gets whole entries, and all that fit.
  \<^item> \<^verbatim>\<open>P9_ServeConn\<close> and \<^verbatim>\<open>P9_Transport\<close>: the loops of \<^verbatim>\<open>serveconn.go\<close> and \<^verbatim>\<open>transport.go\<close> as step functions, where an event is the
    branch of a \<^verbatim>\<open>select\<close> that is taken, so that a list of events is an interleaving; invariants of the reachable
    states say that each request is answered once and each response goes to the request of its tag.
  \<^item> \<^verbatim>\<open>P9_Session\<close>: \<^verbatim>\<open>session.go\<close>, \<^verbatim>\<open>ssesssion.go\<close>, \<^verbatim>\<open>csession.go\<close>, \<^verbatim>\<open>logging.go\<close>; a client is transparent for the session behind a handler.
  \<^item> \<^verbatim>\<open>P9_SFileSys\<close>: \<^verbatim>\<open>filesys.go\<close> and \<^verbatim>\<open>sfilesys.go\<close>; the table of references refines the set of fids that the
    replies tell.  \<^verbatim>\<open>P9_Owner\<close> and \<^verbatim>\<open>P9_World\<close>: what such a session does for any file system that counts its entries, or
    whose operations keep an invariant.
  \<^item> \<^verbatim>\<open>P9_Ramfs\<close>, \<^verbatim>\<open>P9_Ramfs_Correct\<close>: \<^verbatim>\<open>ramfs/\<close>, its reference counts, reads and writes.  \<^verbatim>\<open>P9_Strconv\<close>, \<^verbatim>\<open>P9_Ufs\<close>, \<^verbatim>\<open>P9_Ufs_Correct\<close>:
    \<^verbatim>\<open>ufs/\<close>, and that it stays in its directory.  \<^verbatim>\<open>P9_Sleepfs\<close>, \<^verbatim>\<open>P9_Sleepfs_Correct\<close>: \<^verbatim>\<open>sleepfs/\<close>, with the arrays that its
    slices share.
  \<^item> \<^verbatim>\<open>P9_CFileSys\<close>: \<^verbatim>\<open>cfilesys.go\<close>, and that the fids it asks for are fresh.  \<^verbatim>\<open>P9_Commander\<close>, \<^verbatim>\<open>P9_Commander_Correct\<close>: the commands
    of \<^verbatim>\<open>cmd/9pr/main.go\<close>, and that they name only open fids.
  \<^item> \<^verbatim>\<open>P9_Listing\<close>: a listing from the command through all the layers to the file system.
\<close>

text \<open>
  \<^bold>\<open>Interfaces.\<close>  The contracts between components are locales: \<open>codec_laws\<close> (a channel relies on its codec),
  \<open>dir_source\<close> and \<open>served_dir\<close> (a \<open>Readdir\<close>, and a client at the other end of a connection, rely on the directory), \<open>bounded_session\<close> (a
  handler relies on reads), \<open>entry_owner\<close> and \<open>world_invariant\<close> (between the server's session and a file system),
  \<open>fid_table\<close> (between a client and a server's table) and \<open>entry_holder\<close> (between the commands and the client's file
  system).  Each is interpreted on the definitions that provide it, such as \<open>codec9p\<close>, \<open>ramfs\<close>, \<open>ufs\<close>, \<open>sleepfs\<close>, \<open>SFileSys\<close>
  and \<open>cfs\<close>.

  \<^bold>\<open>Bounds and fuel.\<close>  A loop whose end depends on its data has fuel that is proved to be enough, or is a partial function
  whose result \<open>None\<close> means that it does not end.  \<open>dirs_loop\<close> and \<open>decode_dirs\<close> take at least two bytes in each round and have one more
  round than there are bytes.  \<open>Readdir_loop\<close> has one more round than the buffer has bytes, and each entry has at least one.
  \<open>decref_fuel\<close> descends at most once into each entry.  \<open>allocateTag\<close> looks at each tag once.
  \<open>ls_entries\<close> and \<open>write_loop\<close> are partial; the first is proved to end for the directories of \<open>ramfs\<close>, the second for every client.  The
  results on fids hold until the counter of 32 bits wraps, which they say.

  \<^bold>\<open>Parameters.\<close>  The operating system and its user database (\<open>OS\<close> in \<^verbatim>\<open>P9_Ufs\<close>), the clock of \<open>ramfs\<close>, the growth of arrays in
  \<^verbatim>\<open>append\<close>, \<^verbatim>\<open>strconv.Quote\<close>, and the order in which \<open>Stop\<close> visits the fids are arguments of the definitions; no property assumes
  anything of them.

  \<^bold>\<open>Not modelled.\<close>
  \<^item> Concurrent operations of one session: the goroutines of \<^verbatim>\<open>serveconn.go\<close> are interleaved, but a call of a file system runs as one
    step.  The source gives no memory model beyond its locks; a lock is a flag, and waiting for one that is held is the result
    \<open>deadlock\<close>.
  \<^item> Time: deadlines of connections and the timers behind contexts; a context that ends is an event or a value.
  \<^item> The text that is printed, by the log of \<^verbatim>\<open>logging.go\<close>, the \<open>String\<close> methods and the commands: what is printed is kept as
    values.
  \<^item> Flags, sockets, dialling, the line editor and the profiling server of \<^verbatim>\<open>cmd/9pr\<close> and \<^verbatim>\<open>cmd/9ps\<close>, which are input and output; the rest
    of \<^verbatim>\<open>cmd/9ps\<close> connects the modelled parts.
  \<^item> \<open>withVersion\<close> and \<open>GetVersion\<close> of \<^verbatim>\<open>context.go\<close>, which pass a value through a context to handlers that do not ask for it.
  \<^item> \<^verbatim>\<open>util_darwin.go\<close> of \<^verbatim>\<open>ufs/\<close>: the constants are those of Linux.
  \<^item> \<^verbatim>\<open>doc.go\<close> is a comment.
\<close>

end
